(* ===== verification/Prelude.thy ===== *)
theory Prelude
  imports Main "HOL-Library.Word"
begin

text \<open>
  Shared vocabulary of the development: Rust's machine integers and results, the
  big-endian length prefix, the \<^verbatim>\<open>for\<close> loop with early return, and the theorem
  collections the component theories extend.

  \<^item> \<open>u8\<close>, \<open>u32\<close> and \<open>u64\<close> are words (addition wraps as \<^verbatim>\<open>fetch_add\<close> does). An
    \<open>i64\<close> is an \<open>int\<close> with its range written out (\<open>is_i64\<close>), because the code
    compares, saturates and overflows signed values.
  \<^item> A \<open>Result<T, E>\<close> is \<open>'e + 'a\<close> with \<open>Inl\<close> for \<open>Err\<close>.
  \<^item> Arithmetic with \<^verbatim>\<open>+\<close> on integers panics on overflow when the crate is built with
    overflow checks and wraps otherwise; \<open>i64_add\<close> and \<open>u64_add\<close> take that build flag,
    and \<open>None\<close> is the panic.
\<close>

named_theorems i64_simps \<open>unfolding of the i64 operations\<close>
named_theorems rust_str \<open>facts on the string operations\<close>
named_theorems wire_simps \<open>facts on the wire framing\<close>

type_synonym u8 = "8 word"
type_synonym u16 = "16 word"
type_synonym u32 = "32 word"
type_synonym u64 = "64 word"
type_synonym bytes = "8 word list"

unbundle bit_operations_syntax

section \<open>Signed 64-bit integers\<close>

definition i64_min :: int where
  "i64_min = - 9223372036854775808"

definition i64_max :: int where
  "i64_max = 9223372036854775807"

definition is_i64 :: "int \<Rightarrow> bool" where
  "is_i64 x \<longleftrightarrow> i64_min \<le> x \<and> x \<le> i64_max"

definition i64_saturating_sub :: "int \<Rightarrow> int \<Rightarrow> int" where
  "i64_saturating_sub a b =
     (if a - b < i64_min then i64_min else if i64_max < a - b then i64_max else a - b)"

definition i64_wrap :: "int \<Rightarrow> int" where
  "i64_wrap x = (x + 9223372036854775808) mod 18446744073709551616 - 9223372036854775808"

definition i64_add :: "bool \<Rightarrow> int \<Rightarrow> int \<Rightarrow> int option" where
  "i64_add checks a b =
     (if is_i64 (a + b) then Some (a + b)
      else if checks then None else Some (i64_wrap (a + b)))"

definition u64_add :: "bool \<Rightarrow> u64 \<Rightarrow> u64 \<Rightarrow> u64 option" where
  "u64_add checks a b =
     (if checks \<and> 2 ^ 64 \<le> unat a + unat b then None else Some (a + b))"

declare i64_min_def [i64_simps] i64_max_def [i64_simps] is_i64_def [i64_simps]

lemma i64_saturating_sub_range: "is_i64 (i64_saturating_sub a b)"
  by (auto simp: i64_saturating_sub_def i64_simps)

text \<open>
  Comparing a saturated difference with a bound inside the range gives the same answer as
  the exact difference: saturation never changes a TTL decision.
\<close>

lemma i64_saturating_sub_less_iff:
  "is_i64 t \<Longrightarrow> t \<noteq> i64_min \<Longrightarrow> i64_saturating_sub a b < t \<longleftrightarrow> a - b < t"
  by (auto simp: i64_saturating_sub_def i64_simps)

lemma i64_saturating_sub_le_iff:
  "is_i64 r \<Longrightarrow> i64_saturating_sub a b \<le> r \<longleftrightarrow> a - b \<le> r \<or> r = i64_max"
  by (auto simp: i64_saturating_sub_def i64_simps)

lemma i64_wrap_range: "is_i64 (i64_wrap x)"
proof -
  have "0 \<le> (x + 9223372036854775808) mod 18446744073709551616"
    and "(x + 9223372036854775808) mod 18446744073709551616 < 18446744073709551616"
    by simp_all
  then show ?thesis by (simp add: i64_wrap_def i64_simps)
qed

lemma i64_wrap_overflow:
  assumes "i64_max < x" and "x \<le> 2 * i64_max"
  shows "i64_wrap x = x - 18446744073709551616"
proof -
  have "(x + 9223372036854775808) mod 18446744073709551616
      = (x - 9223372036854775808) mod 18446744073709551616"
    using mod_add_self2 [of "x - 9223372036854775808" 18446744073709551616]
    by (simp add: algebra_simps)
  also have "\<dots> = x - 9223372036854775808"
    using assms by (intro mod_pos_pos_trivial) (auto simp: i64_simps)
  finally show ?thesis by (simp add: i64_wrap_def)
qed

lemma i64_wrap_underflow:
  assumes "x < i64_min" and "2 * i64_min \<le> x"
  shows "i64_wrap x = x + 18446744073709551616"
proof -
  have "(x + 9223372036854775808) mod 18446744073709551616 = (x + 27670116110564327424) mod 18446744073709551616"
    using mod_add_self2 [of "x + 9223372036854775808" 18446744073709551616] by (simp add: algebra_simps)
  also have "\<dots> = x + 27670116110564327424"
    using assms by (intro mod_pos_pos_trivial) (auto simp: i64_simps)
  finally show ?thesis by (simp add: i64_wrap_def)
qed

lemma i64_add_range: "i64_add checks a b = Some c \<Longrightarrow> is_i64 c"
  by (auto simp: i64_add_def i64_wrap_range split: if_splits)

lemma i64_add_exact: "is_i64 (a + b) \<Longrightarrow> i64_add checks a b = Some (a + b)"
  by (simp add: i64_add_def)

lemma unat_u64_add:
  "unat a + unat b < 2 ^ 64 \<Longrightarrow> u64_add checks a b = Some c \<Longrightarrow> unat c = unat a + unat b"
  by (auto simp: u64_add_def unat_word_ariths split: if_splits)

section \<open>Results\<close>

definition map_err :: "('e \<Rightarrow> 'f) \<Rightarrow> 'e + 'a \<Rightarrow> 'f + 'a" where
  "map_err f r = (case r of Inl e \<Rightarrow> Inl (f e) | Inr a \<Rightarrow> Inr a)"

definition ok_or :: "'e \<Rightarrow> 'a option \<Rightarrow> 'e + 'a" where
  "ok_or e x = (case x of None \<Rightarrow> Inl e | Some a \<Rightarrow> Inr a)"

definition is_ok :: "'e + 'a \<Rightarrow> bool" where
  "is_ok r = (case r of Inl _ \<Rightarrow> False | Inr _ \<Rightarrow> True)"

lemma map_err_simps [simp]: "map_err f (Inl e) = Inl (f e)" "map_err f (Inr a) = Inr a"
  by (simp_all add: map_err_def)

lemma map_err_eq_Inr [simp]: "map_err f r = Inr a \<longleftrightarrow> r = Inr a"
  by (cases r) simp_all

lemma map_err_eq_Inl: "map_err f r = Inl x \<longleftrightarrow> (\<exists>e. r = Inl e \<and> x = f e)"
  by (cases r) auto

lemma ok_or_simps [simp]: "ok_or e None = Inl e" "ok_or e (Some a) = Inr a"
  by (simp_all add: ok_or_def)

lemma ok_or_eq_Inr [simp]: "ok_or e x = Inr a \<longleftrightarrow> x = Some a"
  by (cases x) simp_all

lemma is_ok_simps [simp]: "\<not> is_ok (Inl e)" "is_ok (Inr a)"
  by (simp_all add: is_ok_def)

text \<open>
  A \<^verbatim>\<open>for\<close> loop whose body may return an error early: the first error ends the loop.
\<close>

fun try_for :: "('x \<Rightarrow> 's \<Rightarrow> 'e + 's) \<Rightarrow> 'x list \<Rightarrow> 's \<Rightarrow> 'e + 's" where
  "try_for body [] s = Inr s"
| "try_for body (x # xs) s =
     (case body x s of Inl e \<Rightarrow> Inl e | Inr s' \<Rightarrow> try_for body xs s')"

lemma try_for_append:
  "try_for body (xs @ ys) s =
     (case try_for body xs s of Inl e \<Rightarrow> Inl e | Inr s' \<Rightarrow> try_for body ys s')"
  by (induction xs arbitrary: s) (auto split: sum.splits)

lemma try_for_invariant:
  assumes "try_for body xs s = Inr s'" and "P s"
    and "\<And>x s s'. x \<in> set xs \<Longrightarrow> P s \<Longrightarrow> body x s = Inr s' \<Longrightarrow> P s'"
  shows "P s'"
  using assms
proof (induction xs arbitrary: s)
  case Nil
  then show ?case by simp
next
  case (Cons x xs)
  from Cons.prems(1) obtain s1 where "body x s = Inr s1" and "try_for body xs s1 = Inr s'"
    by (auto split: sum.splits)
  with Cons show ?case by (meson list.set_intros)
qed

lemma try_for_fold:
  assumes "\<And>x s. x \<in> set xs \<Longrightarrow> body x s = Inr (f x s)"
  shows "try_for body xs s = Inr (fold f xs s)"
  using assms by (induction xs arbitrary: s) auto

text \<open>A loop that appends the results of its body: it succeeds exactly when every body does.\<close>

lemma try_for_append_iff:
  assumes "\<And>x acc. body x acc = (case f x of Inl e \<Rightarrow> Inl e | Inr ys \<Rightarrow> Inr (acc @ ys))"
  shows "try_for body xs acc = Inr out \<longleftrightarrow> (\<forall>x \<in> set xs. is_ok (f x)) \<and> out = acc @ concat (map (projr \<circ> f) xs)"
  by (induction xs arbitrary: acc) (auto simp: assms split: sum.splits)

text \<open>A loop that fails stops at the first body that fails.\<close>

lemma try_for_Inl:
  assumes "try_for body xs s = Inl e"
  shows "\<exists>pre x post s'. xs = pre @ x # post \<and> try_for body pre s = Inr s' \<and> body x s' = Inl e"
  using assms
proof (induction xs arbitrary: s)
  case (Cons x xs)
  show ?case
  proof (cases "body x s")
    case (Inl e')
    with Cons.prems show ?thesis by (intro exI [of _ "[]"]) simp
  next
    case (Inr s1)
    with Cons obtain pre y post s' where "xs = pre @ y # post" "try_for body pre s1 = Inr s'" "body y s' = Inl e" by fastforce
    with Inr show ?thesis by (intro exI [of _ "x # pre"]) auto
  qed
qed simp

section \<open>Big-endian 64-bit values\<close>

text \<open>\<^verbatim>\<open>u64::to_be_bytes\<close> and \<^verbatim>\<open>u64::from_be_bytes\<close>.\<close>

definition u64_to_be_bytes :: "u64 \<Rightarrow> bytes" where
  "u64_to_be_bytes w = map (\<lambda>i. ucast (drop_bit (8 * i) w)) [7, 6, 5, 4, 3, 2, 1, 0]"

definition u64_from_be_bytes :: "bytes \<Rightarrow> u64" where
  "u64_from_be_bytes bs = foldl (\<lambda>acc b. push_bit 8 acc OR ucast b) 0 bs"

lemma length_u64_to_be_bytes [simp]: "length (u64_to_be_bytes w) = 8"
  by (simp add: u64_to_be_bytes_def)

text \<open>One step of the decoder undoes one step of the encoder.\<close>

lemma be_step:
  "push_bit 8 (drop_bit (n + 8) w) OR ucast (ucast (drop_bit n w) :: u8) = drop_bit n (w :: u64)"
proof (rule bit_word_eqI)
  fix k assume "k < LENGTH(64)"
  then show "bit (push_bit 8 (drop_bit (n + 8) w) OR ucast (ucast (drop_bit n w) :: u8)) k
    = bit (drop_bit n w) k"
    by (cases "k < 8") (simp_all add: bit_simps)
qed

lemma u64_be_roundtrip [wire_simps]: "u64_from_be_bytes (u64_to_be_bytes w) = w"
proof -
  have top: "ucast (ucast (drop_bit 56 w) :: u8) = drop_bit 56 w"
    using be_step [of 56 w] by (simp add: drop_bit_eq_zero_iff_not_bit_last)
  show ?thesis
    using be_step [of 48 w] be_step [of 40 w] be_step [of 32 w] be_step [of 24 w]
      be_step [of 16 w] be_step [of 8 w] be_step [of 0 w]
    by (simp add: u64_from_be_bytes_def u64_to_be_bytes_def top)
qed

end
