(* ===== verification/Rust_Str.thy ===== *)
theory Rust_Str
  imports Prelude
begin

text \<open>
  The part of Rust's \<^verbatim>\<open>str\<close> and integer-parsing library that the source calls.
  A \<^verbatim>\<open>String\<close> is the list of its UTF-8 bytes, so \<open>length\<close> is \<^verbatim>\<open>str::len\<close> and the order
  of strings is the order of byte lists. The two text formats of the program (the nonce
  file and the trust file) are read line by line; the locale \<open>line_codec\<close> states what a
  line format has to satisfy for a rendered file to be read back, and each store
  interprets it on its own line format.
\<close>

abbreviation (input) LF :: char where "LF \<equiv> CHR 0x0A"
abbreviation (input) CR :: char where "CR \<equiv> CHR 0x0D"
abbreviation (input) DQUOTE :: char where "DQUOTE \<equiv> CHR 0x22"
abbreviation (input) COLON :: char where "COLON \<equiv> CHR 0x3A"
abbreviation (input) SPACE :: char where "SPACE \<equiv> CHR 0x20"

section \<open>Searching and splitting\<close>

fun split_once :: "char \<Rightarrow> string \<Rightarrow> (string \<times> string) option" where
  "split_once d [] = None"
| "split_once d (c # s) =
     (if c = d then Some ([], s)
      else case split_once d s of None \<Rightarrow> None | Some (a, b) \<Rightarrow> Some (c # a, b))"

definition strip_prefix :: "char \<Rightarrow> string \<Rightarrow> string option" where
  "strip_prefix d s = (case s of [] \<Rightarrow> None | c # r \<Rightarrow> if c = d then Some r else None)"

definition strip_suffix :: "char \<Rightarrow> string \<Rightarrow> string option" where
  "strip_suffix d s = (if s \<noteq> [] \<and> last s = d then Some (butlast s) else None)"

definition starts_with :: "string \<Rightarrow> string \<Rightarrow> bool" where
  "starts_with p s \<longleftrightarrow> take (length p) s = p"

fun contains_str :: "string \<Rightarrow> string \<Rightarrow> bool" where
  "contains_str p [] = (p = [])"
| "contains_str p (c # s) = (starts_with p (c # s) \<or> contains_str p s)"

definition replace_char :: "char \<Rightarrow> char \<Rightarrow> string \<Rightarrow> string" where
  "replace_char a b s = map (\<lambda>c. if c = a then b else c) s"

lemma split_once_append [rust_str]:
  "d \<notin> set a \<Longrightarrow> split_once d (a @ d # b) = Some (a, b)"
  by (induction a) auto

lemma split_once_None_iff: "split_once d s = None \<longleftrightarrow> d \<notin> set s"
  by (induction s) (auto split: option.splits)

lemma split_once_SomeD: "split_once d s = Some (a, b) \<Longrightarrow> s = a @ d # b \<and> d \<notin> set a"
  by (induction s arbitrary: a) (auto split: if_splits option.splits)

lemma strip_prefix_Cons [simp]: "strip_prefix d (c # s) = (if c = d then Some s else None)"
  by (simp add: strip_prefix_def)

lemma strip_suffix_snoc [simp]: "strip_suffix d (s @ [c]) = (if c = d then Some s else None)"
  by (simp add: strip_suffix_def)

section \<open>White space\<close>

text \<open>
  The characters with the Unicode property \<^verbatim>\<open>White_Space\<close>, each as its UTF-8 bytes:
  U+0009 to U+000D, U+0020, U+0085, U+00A0, U+1680, U+2000 to U+200A, U+2028, U+2029,
  U+202F, U+205F and U+3000. UTF-8 is self-synchronising: a valid string starts (or ends)
  with such a character exactly when its bytes start (or end) with the encoding.
\<close>

definition white_space :: "string list" where
  "white_space =
     [[CHR 0x09], [CHR 0x0A], [CHR 0x0B], [CHR 0x0C], [CHR 0x0D], [CHR 0x20],
      [CHR 0xC2, CHR 0x85], [CHR 0xC2, CHR 0xA0], [CHR 0xE1, CHR 0x9A, CHR 0x80],
      [CHR 0xE2, CHR 0x80, CHR 0x80], [CHR 0xE2, CHR 0x80, CHR 0x81],
      [CHR 0xE2, CHR 0x80, CHR 0x82], [CHR 0xE2, CHR 0x80, CHR 0x83],
      [CHR 0xE2, CHR 0x80, CHR 0x84], [CHR 0xE2, CHR 0x80, CHR 0x85],
      [CHR 0xE2, CHR 0x80, CHR 0x86], [CHR 0xE2, CHR 0x80, CHR 0x87],
      [CHR 0xE2, CHR 0x80, CHR 0x88], [CHR 0xE2, CHR 0x80, CHR 0x89],
      [CHR 0xE2, CHR 0x80, CHR 0x8A], [CHR 0xE2, CHR 0x80, CHR 0xA8],
      [CHR 0xE2, CHR 0x80, CHR 0xA9], [CHR 0xE2, CHR 0x80, CHR 0xAF],
      [CHR 0xE2, CHR 0x81, CHR 0x9F], [CHR 0xE3, CHR 0x80, CHR 0x80]]"

fun strip_one :: "string list \<Rightarrow> string \<Rightarrow> string option" where
  "strip_one [] s = None"
| "strip_one (w # ws) s =
     (if w \<noteq> [] \<and> take (length w) s = w then Some (drop (length w) s) else strip_one ws s)"

lemma strip_one_shorter: "strip_one ws s = Some s' \<Longrightarrow> length s' < length s"
proof (induction ws)
  case Nil
  then show ?case by simp
next
  case (Cons w ws)
  show ?case
  proof (cases "w \<noteq> [] \<and> take (length w) s = w")
    case True
    then have "s \<noteq> []" by auto
    with True Cons.prems show ?thesis by (cases w) auto
  next
    case False
    with Cons show ?thesis by auto
  qed
qed

function strip_front :: "string list \<Rightarrow> string \<Rightarrow> string" where
  "strip_front ws s =
     (case strip_one ws s of None \<Rightarrow> s | Some s' \<Rightarrow> strip_front ws s')"
  by pat_completeness auto
termination
  by (relation "measure (\<lambda>(ws, s). length s)") (auto dest: strip_one_shorter)

declare strip_front.simps [simp del]

definition trim_start :: "string \<Rightarrow> string" where
  "trim_start s = strip_front white_space s"

definition trim_end :: "string \<Rightarrow> string" where
  "trim_end s = rev (strip_front (map rev white_space) (rev s))"

definition trim :: "string \<Rightarrow> string" where
  "trim s = trim_end (trim_start s)"

text \<open>The printable ASCII characters other than the space: none starts or ends white space.\<close>

definition solid :: "char \<Rightarrow> bool" where
  "solid c \<longleftrightarrow> 33 \<le> (of_char c :: nat) \<and> (of_char c :: nat) \<le> 126"

lemma strip_front_id: "strip_one ws s = None \<Longrightarrow> strip_front ws s = s"
  by (simp add: strip_front.simps)

lemma strip_one_hd: "list_all (\<lambda>w. hd w \<noteq> c) ws \<Longrightarrow> strip_one ws (c # s) = None"
proof (induction ws)
  case Nil
  then show ?case by simp
next
  case (Cons w ws)
  then show ?case by (cases w) auto
qed

lemma white_space_not_solid:
  "list_all (\<lambda>w. \<not> solid (hd w)) white_space"
  "list_all (\<lambda>w. \<not> solid (hd w)) (map rev white_space)"
  by (simp_all add: white_space_def solid_def)

lemma strip_one_solid:
  assumes "solid c"
  shows "strip_one white_space (c # s) = None"
    and "strip_one (map rev white_space) (c # s) = None"
  using white_space_not_solid assms
  by (auto intro!: strip_one_hd simp del: list.pred_map simp: list_all_iff)

lemma strip_one_space:
  "strip_one white_space (SPACE # s) = Some s"
  "strip_one (map rev white_space) (SPACE # s) = Some s"
  by (simp_all add: white_space_def)

lemma strip_front_space [rust_str]:
  "strip_front white_space (SPACE # s) = strip_front white_space s"
  "strip_front (map rev white_space) (SPACE # s) = strip_front (map rev white_space) s"
  by (subst strip_front.simps, simp only: strip_one_space option.case)+

lemma trim_start_solid [rust_str]: "solid c \<Longrightarrow> trim_start (c # s) = c # s"
  by (simp add: trim_start_def strip_front_id strip_one_solid)

lemma trim_end_solid [rust_str]: "solid c \<Longrightarrow> trim_end (s @ [c]) = s @ [c]"
  by (simp add: trim_end_def strip_front_id strip_one_solid)

lemma trim_Nil [simp]: "trim [] = []"
  by (simp add: trim_def trim_start_def trim_end_def strip_front.simps white_space_def)

lemma trim_solid [rust_str]: "s \<noteq> [] \<Longrightarrow> solid (hd s) \<Longrightarrow> solid (last s) \<Longrightarrow> trim s = s"
  using trim_start_solid [of "hd s" "tl s"] trim_end_solid [of "last s" "butlast s"]
  by (simp add: trim_def)

lemma trim_space_front [rust_str]: "trim (SPACE # s) = trim s"
  by (simp add: trim_def trim_start_def rust_str)

lemma trim_solid_space [rust_str]:
  assumes "s \<noteq> []" and "solid (hd s)" and "solid (last s)"
  shows "trim (s @ [SPACE]) = s"
proof -
  have "trim_start (s @ [SPACE]) = s @ [SPACE]"
    using assms trim_start_solid by (cases s) simp_all
  moreover have "trim_end (s @ [SPACE]) = trim_end s"
    by (simp add: trim_end_def rust_str)
  ultimately show ?thesis
    using trim_end_solid [of "last s" "butlast s"] assms by (simp add: trim_def)
qed

lemma trim_solid_newline [rust_str]:
  assumes "s \<noteq> []" and "solid (hd s)" and "solid (last s)"
  shows "trim (s @ [LF]) = s"
proof -
  have "strip_one (map rev white_space) (LF # r) = Some r" for r by (simp add: white_space_def)
  then have "strip_front (map rev white_space) (LF # r) = strip_front (map rev white_space) r" for r
    by (subst strip_front.simps) (simp only: option.case)
  then have "trim_end (s @ [LF]) = trim_end s" by (simp add: trim_end_def)
  moreover have "trim_start (s @ [LF]) = s @ [LF]"
    using assms trim_start_solid by (cases s) simp_all
  ultimately show ?thesis
    using trim_end_solid [of "last s" "butlast s"] assms by (simp add: trim_def)
qed

section \<open>Lines\<close>

definition strip_cr :: "string \<Rightarrow> string" where
  "strip_cr l = (if l \<noteq> [] \<and> last l = CR then butlast l else l)"

fun lines_from :: "string \<Rightarrow> string \<Rightarrow> string list" where
  "lines_from cur [] = (if cur = [] then [] else [cur])"
| "lines_from cur (c # s) =
     (if c = LF then strip_cr cur # lines_from [] s else lines_from (cur @ [c]) s)"

definition lines :: "string \<Rightarrow> string list" where
  "lines s = lines_from [] s"

text \<open>\<^verbatim>\<open>lines().enumerate()\<close>, with the line numbers the error messages use (\<^verbatim>\<open>idx + 1\<close>).\<close>

definition numbered_lines :: "string \<Rightarrow> (nat \<times> string) list" where
  "numbered_lines s = zip [1..<Suc (length (lines s))] (lines s)"

definition line_ok :: "string \<Rightarrow> bool" where
  "line_ok l \<longleftrightarrow> LF \<notin> set l \<and> (l = [] \<or> last l \<noteq> CR)"

lemma lines_from_line: "LF \<notin> set l \<Longrightarrow> lines_from cur (l @ LF # s) = strip_cr (cur @ l) # lines_from [] s"
  by (induction l arbitrary: cur) auto

lemma lines_unlines [rust_str]:
  "list_all line_ok ls \<Longrightarrow> lines (concat (map (\<lambda>l. l @ [LF]) ls)) = ls"
  by (induction ls) (auto simp: lines_def line_ok_def lines_from_line strip_cr_def)

lemma lines_cons_line [rust_str]: "line_ok l \<Longrightarrow> lines (l @ LF # s) = l # lines s"
  by (auto simp: lines_def line_ok_def lines_from_line strip_cr_def)

lemma set_numbered_lines: "(i, l) \<in> set (numbered_lines s) \<Longrightarrow> l \<in> set (lines s) \<and> 1 \<le> i"
  by (auto simp: numbered_lines_def dest: set_zip_leftD set_zip_rightD)

section \<open>Decimal integers\<close>

definition digit_char :: "nat \<Rightarrow> char" where
  "digit_char d = char_of (48 + d)"

fun show_nat :: "nat \<Rightarrow> string" where
  "show_nat n = (if n < 10 then [digit_char n] else show_nat (n div 10) @ [digit_char (n mod 10)])"

declare show_nat.simps [simp del]

definition show_int :: "int \<Rightarrow> string" where
  "show_int i = (if i < 0 then CHR ''-'' # show_nat (nat (- i)) else show_nat (nat i))"

text \<open>\<^verbatim>\<open>core::num::IntErrorKind\<close>, the cause of a failed \<^verbatim>\<open>parse\<close>.\<close>

datatype int_error = Empty | InvalidDigit | PosOverflow | NegOverflow

definition to_digit :: "char \<Rightarrow> nat option" where
  "to_digit c =
     (if 48 \<le> (of_char c :: nat) \<and> (of_char c :: nat) \<le> 57 then Some (of_char c - 48) else None)"

text \<open>
  The checked loop of \<^verbatim>\<open>from_str_radix\<close>: \<open>ok\<close> is the range test of the target type,
  \<open>sg\<close> is \<open>1\<close> or \<open>-1\<close>. A digit is read before the overflow of the multiplication is
  reported.
\<close>

fun parse_digits :: "(int \<Rightarrow> bool) \<Rightarrow> int \<Rightarrow> int_error \<Rightarrow> int \<Rightarrow> string \<Rightarrow> int_error + int" where
  "parse_digits ok sg e acc [] = Inr acc"
| "parse_digits ok sg e acc (c # cs) =
     (case to_digit c of
        None \<Rightarrow> Inl InvalidDigit
      | Some d \<Rightarrow>
          if \<not> ok (acc * 10) \<or> \<not> ok (acc * 10 + sg * int d) then Inl e
          else parse_digits ok sg e (acc * 10 + sg * int d) cs)"

definition parse_int :: "bool \<Rightarrow> (int \<Rightarrow> bool) \<Rightarrow> string \<Rightarrow> int_error + int" where
  "parse_int sgnd ok s =
     (case s of
        [] \<Rightarrow> Inl Empty
      | c # rest \<Rightarrow>
          if (c = CHR ''+'' \<or> c = CHR ''-'') \<and> rest = [] then Inl InvalidDigit
          else if c = CHR ''+'' then parse_digits ok 1 PosOverflow 0 rest
          else if c = CHR ''-'' \<and> sgnd then parse_digits ok (-1) NegOverflow 0 rest
          else parse_digits ok 1 PosOverflow 0 s)"

definition parse_i64 :: "string \<Rightarrow> int_error + int" where
  "parse_i64 s = parse_int True is_i64 s"

definition is_u32 :: "int \<Rightarrow> bool" where
  "is_u32 x \<longleftrightarrow> 0 \<le> x \<and> x < 4294967296"

definition parse_u32 :: "string \<Rightarrow> int_error + u32" where
  "parse_u32 s =
     (case parse_int False is_u32 s of Inl e \<Rightarrow> Inl e | Inr i \<Rightarrow> Inr (word_of_int i))"

definition is_digit_char :: "char \<Rightarrow> bool" where
  "is_digit_char c \<longleftrightarrow> 48 \<le> (of_char c :: nat) \<and> (of_char c :: nat) \<le> 57"

lemma of_char_digit_char: "d < 10 \<Longrightarrow> (of_char (digit_char d) :: nat) = 48 + d"
  by (simp add: digit_char_def)

lemma to_digit_digit_char [simp]: "d < 10 \<Longrightarrow> to_digit (digit_char d) = Some d"
  by (simp add: to_digit_def of_char_digit_char)

lemma digit_char_is_digit: "d < 10 \<Longrightarrow> is_digit_char (digit_char d)"
  by (simp add: is_digit_char_def of_char_digit_char)

lemma show_nat_ne [simp]: "show_nat n \<noteq> []"
  by (subst show_nat.simps) simp

lemma show_nat_digits: "list_all is_digit_char (show_nat n)"
proof (induction n rule: show_nat.induct)
  case (1 n)
  then show ?case
    by (subst show_nat.simps) (auto simp: digit_char_is_digit)
qed

lemma digit_solid: "is_digit_char c \<Longrightarrow> solid c"
  by (simp add: is_digit_char_def solid_def)

lemma show_nat_chars: "c \<in> set (show_nat n) \<Longrightarrow> is_digit_char c"
  using show_nat_digits by (auto simp: list_all_iff)

lemma show_int_chars: "c \<in> set (show_int i) \<Longrightarrow> is_digit_char c \<or> c = CHR ''-''"
  by (auto simp: show_int_def dest: show_nat_chars split: if_splits)

lemma show_int_ne [simp]: "show_int i \<noteq> []"
  by (simp add: show_int_def)

lemma show_int_solid: "c \<in> set (show_int i) \<Longrightarrow> solid c"
  by (auto simp: solid_def is_digit_char_def dest!: show_int_chars)

lemma show_int_no_LF: "LF \<notin> set (show_int i)"
  by (auto simp: is_digit_char_def dest!: show_int_chars)

lemma parse_digits_append:
  "parse_digits ok sg e acc (xs @ ys) =
     (case parse_digits ok sg e acc xs of Inl k \<Rightarrow> Inl k | Inr a \<Rightarrow> parse_digits ok sg e a ys)"
  by (induction xs arbitrary: acc) (auto split: option.splits)

lemma parse_digits_show_nat:
  assumes "\<And>m. m \<le> n \<Longrightarrow> ok (sg * int m)"
  shows "parse_digits ok sg e 0 (show_nat n) = Inr (sg * int n)"
  using assms
proof (induction n rule: show_nat.induct)
  case (1 n)
  show ?case
  proof (cases "n < 10")
    case True
    with 1(2) [of n] 1(2) [of 0] show ?thesis by (subst show_nat.simps) simp
  next
    case False
    have split: "sg * int (n div 10) * 10 + sg * int (n mod 10) = sg * int n"
    proof -
      have "int n = int (n div 10) * 10 + int (n mod 10)"
        by (metis div_mult_mod_eq of_nat_add of_nat_mult of_nat_numeral)
      then have "sg * int n = sg * (int (n div 10) * 10 + int (n mod 10))" by simp
      then show ?thesis by (simp only: distrib_left mult.assoc)
    qed
    have "n div 10 * 10 \<le> n" by simp
    then have "ok (sg * int (n div 10 * 10))" by (rule 1(2))
    then have ten: "ok (sg * int (n div 10) * 10)"
      by (simp add: mult.assoc)
    have "parse_digits ok sg e 0 (show_nat (n div 10)) = Inr (sg * int (n div 10))"
      using 1(1) [OF False] 1(2) by (meson div_le_dividend le_trans)
    with False ten split 1(2) [of n] show ?thesis
      by (subst show_nat.simps) (simp add: parse_digits_append)
  qed
qed

lemma show_nat_hd: "is_digit_char (hd (show_nat n))"
  using show_nat_chars hd_in_set show_nat_ne by blast

lemma parse_int_show_nat:
  assumes "\<And>m. m \<le> n \<Longrightarrow> ok (int m)"
  shows "parse_int sgnd ok (show_nat n) = Inr (int n)"
proof -
  obtain c cs where eq: "show_nat n = c # cs" by (cases "show_nat n") auto
  then have "is_digit_char c" using show_nat_hd [of n] by simp
  then have "c \<noteq> CHR ''+''" and "c \<noteq> CHR ''-''" by (auto simp: is_digit_char_def)
  moreover have "parse_digits ok 1 PosOverflow 0 (c # cs) = Inr (int n)"
    using parse_digits_show_nat [of n ok 1 PosOverflow] assms eq by simp
  ultimately show ?thesis by (simp add: parse_int_def eq del: parse_digits.simps)
qed

lemma parse_i64_show_int [rust_str]:
  assumes "is_i64 i"
  shows "parse_i64 (show_int i) = Inr i"
proof (cases "i < 0")
  case True
  have "parse_digits is_i64 (-1) NegOverflow 0 (show_nat (nat (- i))) = Inr i"
    using parse_digits_show_nat [of "nat (- i)" is_i64 "-1" NegOverflow] assms True
    by (auto simp: i64_simps)
  with True show ?thesis by (simp add: parse_i64_def parse_int_def show_int_def)
next
  case False
  then show ?thesis
    using parse_int_show_nat [of "nat i" is_i64 True] assms
    by (auto simp: parse_i64_def show_int_def i64_simps)
qed

lemma unat_lt2p32: "unat (r :: u32) < 4294967296"
proof -
  have "unat r < 2 ^ LENGTH(32)" by (rule unsigned_less)
  then show ?thesis by simp
qed

lemma parse_u32_show_nat [rust_str]: "parse_u32 (show_nat (unat (r :: u32))) = Inr r"
proof -
  have "unat r < 4294967296" using unat_lt2p32 [of r] .
  then have "parse_int False is_u32 (show_nat (unat r)) = Inr (int (unat r))"
    by (intro parse_int_show_nat) (simp add: is_u32_def)
  then show ?thesis by (simp add: parse_u32_def)
qed

text \<open>A character that is neither a digit nor a sign makes the number unreadable.\<close>

lemma parse_digits_bad:
  "c \<in> set s \<Longrightarrow> \<not> is_digit_char c \<Longrightarrow> \<exists>k. parse_digits ok sg e acc s = Inl k"
  by (induction s arbitrary: acc)
    (auto simp: to_digit_def is_digit_char_def split: option.splits if_splits)

lemma parse_u32_bad:
  assumes "c \<in> set s" and "\<not> is_digit_char c" and "c \<noteq> CHR ''+''"
  shows "\<exists>k. parse_u32 s = Inl k"
proof -
  have "\<exists>k. parse_int False is_u32 s = Inl k"
    using assms parse_digits_bad [OF assms(1,2)] parse_digits_bad [of c "tl s"]
    by (cases s) (auto simp: parse_int_def simp del: parse_digits.simps)
  then show ?thesis by (auto simp: parse_u32_def)
qed

section \<open>Reading a rendered file back\<close>

text \<open>
  A line format: \<open>render\<close> prints an entry, \<open>body\<close> is the loop body that reads one numbered
  line into the accumulator, \<open>step\<close> is what reading a good entry does to it.
\<close>

locale line_codec =
  fixes render :: "'e \<Rightarrow> string"
    and body :: "nat \<times> string \<Rightarrow> 'acc \<Rightarrow> 'err + 'acc"
    and step :: "'e \<Rightarrow> 'acc \<Rightarrow> 'acc"
    and good :: "'e \<Rightarrow> bool"
  assumes render_line: "good e \<Longrightarrow> line_ok (render e)"
    and body_render: "good e \<Longrightarrow> body (i, render e) acc = Inr (step e acc)"
begin

lemma read_numbered:
  "list_all good es \<Longrightarrow> length is = length es \<Longrightarrow>
   try_for body (zip is (map render es)) acc = Inr (fold step es acc)"
proof (induction es arbitrary: "is" acc)
  case Nil
  then show ?case by simp
next
  case (Cons e es)
  then show ?case by (cases "is") (auto simp: body_render)
qed

lemma read_rendered:
  assumes "list_all good es"
  shows "try_for body (numbered_lines (concat (map (\<lambda>e. render e @ [LF]) es))) acc
    = Inr (fold step es acc)"
proof -
  have "lines (concat (map (\<lambda>l. l @ [LF]) (map render es))) = map render es"
    using assms by (intro lines_unlines) (auto simp: list_all_iff render_line)
  then have "lines (concat (map (\<lambda>e. render e @ [LF]) es)) = map render es"
    by (simp add: comp_def)
  then show ?thesis
    using assms read_numbered by (simp add: numbered_lines_def del: upt_Suc)
qed

end

end
