(* ===== verification/Rust_Map.thy ===== *)
theory Rust_Map
  imports Prelude "HOL-Library.AList" "HOL-Library.Multiset"
begin

text \<open>
  The standard library's \<^verbatim>\<open>HashMap\<close> as the stores of the program use it. The locale
  \<open>hash_map\<close> is its contract: what a lookup returns after an insertion, a removal or a
  \<^verbatim>\<open>retain\<close>, and what \<^verbatim>\<open>len\<close> counts. The model below is an association list with
  distinct keys. The order in which a \<^verbatim>\<open>HashMap\<close> iterates is not specified; operations
  that iterate take the order as an argument (\<open>iteration_order\<close>).
\<close>

section \<open>The contract\<close>

locale hash_map =
  fixes new :: 'm
    and get :: "'m \<Rightarrow> 'k \<Rightarrow> 'v option"
    and insert :: "'k \<Rightarrow> 'v \<Rightarrow> 'm \<Rightarrow> 'm"
    and remove :: "'k \<Rightarrow> 'm \<Rightarrow> 'm"
    and retain :: "('k \<Rightarrow> 'v \<Rightarrow> bool) \<Rightarrow> 'm \<Rightarrow> 'm"
    and len :: "'m \<Rightarrow> nat"
    and wf :: "'m \<Rightarrow> bool"
  assumes get_new: "get new = Map.empty"
    and get_insert: "wf m \<Longrightarrow> get (insert k v m) = (get m)(k \<mapsto> v)"
    and get_remove: "wf m \<Longrightarrow> get (remove k m) = (get m)(k := None)"
    and get_retain: "wf m \<Longrightarrow> get (retain P m) k =
      (case get m k of None \<Rightarrow> None | Some v \<Rightarrow> if P k v then Some v else None)"
    and len_card: "wf m \<Longrightarrow> len m = card (dom (get m))"
    and finite_get: "finite (dom (get m))"
    and wf_new: "wf new"
    and wf_insert: "wf m \<Longrightarrow> wf (insert k v m)"
    and wf_remove: "wf m \<Longrightarrow> wf (remove k m)"
    and wf_retain: "wf m \<Longrightarrow> wf (retain P m)"
begin

lemma get_insert_same: "wf m \<Longrightarrow> get (insert k v m) k = Some v"
  by (simp add: get_insert)

lemma get_insert_other: "wf m \<Longrightarrow> k' \<noteq> k \<Longrightarrow> get (insert k v m) k' = get m k'"
  by (simp add: get_insert)

lemma len_insert:
  "wf m \<Longrightarrow> len (insert k v m) = (if get m k = None then Suc (len m) else len m)"
  by (auto simp: len_card wf_insert get_insert finite_get insert_absorb card_insert_if
      intro!: arg_cong [where f = card])

lemma len_remove:
  "wf m \<Longrightarrow> len (remove k m) = (if get m k = None then len m else len m - 1)"
  by (auto simp: len_card wf_remove get_remove finite_get card_Diff_singleton domI domIff)

lemma dom_retain: "wf m \<Longrightarrow> dom (get (retain P m)) \<subseteq> dom (get m)"
  by (auto simp: get_retain split: option.splits)

lemma len_retain: "wf m \<Longrightarrow> len (retain P m) \<le> len m"
  by (simp add: len_card wf_retain card_mono finite_get dom_retain)

lemma len_zero: "wf m \<Longrightarrow> len m = 0 \<longleftrightarrow> get m = Map.empty"
  by (simp add: len_card finite_get)

lemma fold_insert:
  "wf m \<Longrightarrow> wf (fold (\<lambda>(k, v). insert k v) kvs m) \<and>
     get (fold (\<lambda>(k, v). insert k v) kvs m) = get m ++ map_of (rev kvs)"
proof (induction kvs arbitrary: m)
  case Nil
  then show ?case by simp
next
  case (Cons kv kvs)
  obtain k v where kv: "kv = (k, v)" by (cases kv)
  from Cons.prems have "wf (insert k v m)" by (rule wf_insert)
  from Cons.IH [OF this] Cons.prems kv show ?case
    by (auto simp: get_insert map_add_def fun_eq_iff split: option.splits)
qed

end

section \<open>The model\<close>

type_synonym ('k, 'v) hashmap = "('k \<times> 'v) list"

definition hm_new :: "('k, 'v) hashmap" where
  "hm_new = []"

definition hm_get :: "('k, 'v) hashmap \<Rightarrow> 'k \<Rightarrow> 'v option" where
  "hm_get m k = map_of m k"

definition hm_insert :: "'k \<Rightarrow> 'v \<Rightarrow> ('k, 'v) hashmap \<Rightarrow> ('k, 'v) hashmap" where
  "hm_insert k v m = AList.update k v m"

definition hm_remove :: "'k \<Rightarrow> ('k, 'v) hashmap \<Rightarrow> ('k, 'v) hashmap" where
  "hm_remove k m = AList.delete k m"

definition hm_retain :: "('k \<Rightarrow> 'v \<Rightarrow> bool) \<Rightarrow> ('k, 'v) hashmap \<Rightarrow> ('k, 'v) hashmap" where
  "hm_retain P m = filter (\<lambda>(k, v). P k v) m"

definition hm_contains_key :: "('k, 'v) hashmap \<Rightarrow> 'k \<Rightarrow> bool" where
  "hm_contains_key m k = (hm_get m k \<noteq> None)"

definition hm_len :: "('k, 'v) hashmap \<Rightarrow> nat" where
  "hm_len m = length m"

definition hm_wf :: "('k, 'v) hashmap \<Rightarrow> bool" where
  "hm_wf m = distinct (map fst m)"

text \<open>\<^verbatim>\<open>collect\<close> from an iterator of pairs: later pairs replace earlier ones.\<close>

definition hm_collect :: "('k \<times> 'v) list \<Rightarrow> ('k, 'v) hashmap" where
  "hm_collect kvs = fold (\<lambda>(k, v). hm_insert k v) kvs hm_new"

lemma map_of_filter_distinct:
  "distinct (map fst m) \<Longrightarrow> map_of (filter (\<lambda>(k, v). P k v) m) k =
     (case map_of m k of None \<Rightarrow> None | Some v \<Rightarrow> if P k v then Some v else None)"
  by (induction m) (auto split: option.splits dest: map_of_SomeD simp: rev_image_eqI)

lemma distinct_filter_fst:
  "distinct (map fst m) \<Longrightarrow> distinct (map fst (filter P m))"
  by (induction m) auto

interpretation hm: hash_map hm_new hm_get hm_insert hm_remove hm_retain hm_len hm_wf
proof (unfold_locales, goal_cases)
  case 1
  show ?case by (simp add: fun_eq_iff hm_get_def hm_new_def)
next
  case (2 m k v)
  show ?case by (simp add: hm_get_def hm_insert_def fun_eq_iff update_conv)
next
  case (3 m k)
  show ?case by (simp add: hm_get_def hm_remove_def fun_eq_iff delete_conv)
next
  case (4 m P k)
  then show ?case by (simp add: hm_get_def hm_retain_def hm_wf_def map_of_filter_distinct)
next
  case (5 m)
  have "dom (hm_get m) = set (map fst m)"
    by (auto simp: hm_get_def dom_def map_of_eq_None_iff image_iff dest: map_of_SomeD)
  with 5 show ?case
    by (simp add: hm_len_def hm_wf_def) (metis distinct_card length_map list.set_map)
next
  case (6 m)
  show ?case by (simp add: hm_get_def [abs_def] finite_dom_map_of)
next
  case 7
  show ?case by (simp add: hm_wf_def hm_new_def)
next
  case (8 m k v)
  then show ?case by (simp add: hm_wf_def hm_insert_def distinct_update)
next
  case (9 m k)
  then show ?case by (simp add: hm_wf_def hm_remove_def distinct_delete)
next
  case (10 m P)
  then show ?case by (simp add: hm_wf_def hm_retain_def distinct_filter_fst)
qed

lemmas hm_laws = hm.get_new hm.get_insert hm.get_remove hm.get_retain
lemmas hm_wfs = hm.wf_new hm.wf_insert hm.wf_remove hm.wf_retain

declare hm_wfs [simp]

lemma hm_collect_wf [simp]: "hm_wf (hm_collect kvs)"
  using hm.fold_insert [of hm_new kvs] by (simp add: hm_collect_def)

lemma hm_get_collect: "hm_get (hm_collect kvs) = map_of (rev kvs)"
  using hm.fold_insert [of hm_new kvs] by (simp add: hm_collect_def hm.get_new)

lemma map_of_rev_distinct: "distinct (map fst kvs) \<Longrightarrow> map_of (rev kvs) = map_of kvs"
  by (rule map_of_inject_set [THEN iffD2]) (simp_all add: rev_map [symmetric])

section \<open>Iteration\<close>

text \<open>
  An iteration order lists every pair of the map once. Nothing else is known of it.
\<close>

definition iteration_order :: "(('k, 'v) hashmap \<Rightarrow> ('k \<times> 'v) list) \<Rightarrow> bool" where
  "iteration_order it \<longleftrightarrow> (\<forall>m. mset (it m) = mset m)"

lemma iteration_order_id [simp]: "iteration_order (\<lambda>m. m)"
  by (simp add: iteration_order_def)

lemma iteration_order_rev [simp]: "iteration_order rev"
  by (simp add: iteration_order_def)

lemma iteration_set: "iteration_order it \<Longrightarrow> set (it m) = set m"
  by (metis iteration_order_def set_mset_mset)

lemma iteration_distinct: "iteration_order it \<Longrightarrow> hm_wf m \<Longrightarrow> distinct (map fst (it m))"
  by (metis hm_wf_def iteration_order_def mset_eq_imp_distinct_iff mset_map)

lemma iteration_collect:
  assumes "iteration_order it" and "hm_wf m"
  shows "hm_get (hm_collect (it m)) = hm_get m"
proof -
  have d: "distinct (map fst (it m))" using assms by (rule iteration_distinct)
  then have "map_of (rev (it m)) = map_of (it m)" by (rule map_of_rev_distinct)
  also have "\<dots> = map_of m"
    using assms d iteration_set [of it m] by (intro map_of_inject_set [THEN iffD2]) (auto simp: hm_wf_def)
  also have "\<dots> = hm_get m" by (simp add: fun_eq_iff hm_get_def)
  finally show ?thesis by (simp only: hm_get_collect)
qed

lemma hm_get_in_iff: "hm_wf m \<Longrightarrow> (k, v) \<in> set m \<longleftrightarrow> hm_get m k = Some v"
  by (auto simp: hm_get_def hm_wf_def dest: map_of_SomeD)

end
