(* ===== verification/Rust_Fs.thy ===== *)
theory Rust_Fs
  imports Prelude
begin

text \<open>
  The parts of \<^verbatim>\<open>std::fs\<close>, \<^verbatim>\<open>std::path\<close> and \<^verbatim>\<open>std::time\<close> the program calls. A path is
  its list of components. The file system is a map from paths to contents, with the faults
  of the environment (permissions, a full disk) as further fields: a faulty write may leave
  a partial file behind.
\<close>

type_synonym path = "string list"

datatype io_error = NotFound | OtherIo string

record file_system =
  fs_file :: "path \<Rightarrow> string option"
  fs_read_fault :: "path \<Rightarrow> string option"
  fs_write_fault :: "path \<Rightarrow> (string \<times> string option) option"
  fs_mkdir_fault :: "path \<Rightarrow> io_error option"

definition fs_read_to_string :: "file_system \<Rightarrow> path \<Rightarrow> io_error + string" where
  "fs_read_to_string fs p =
     (case fs_read_fault fs p of
        Some m \<Rightarrow> Inl (OtherIo m)
      | None \<Rightarrow> ok_or NotFound (fs_file fs p))"

definition fs_write :: "file_system \<Rightarrow> path \<Rightarrow> string \<Rightarrow> (io_error + unit) \<times> file_system" where
  "fs_write fs p body =
     (case fs_write_fault fs p of
        None \<Rightarrow> (Inr (), fs\<lparr>fs_file := (fs_file fs)(p \<mapsto> body)\<rparr>)
      | Some (m, None) \<Rightarrow> (Inl (OtherIo m), fs)
      | Some (m, Some part) \<Rightarrow> (Inl (OtherIo m), fs\<lparr>fs_file := (fs_file fs)(p \<mapsto> part)\<rparr>))"

definition fs_create_dir_all :: "file_system \<Rightarrow> path \<Rightarrow> io_error + unit" where
  "fs_create_dir_all fs p = (case fs_mkdir_fault fs p of None \<Rightarrow> Inr () | Some e \<Rightarrow> Inl e)"

definition path_parent :: "path \<Rightarrow> path option" where
  "path_parent p = (if p = [] then None else Some (butlast p))"

definition path_display :: "path \<Rightarrow> string" where
  "path_display p = concat (map (\<lambda>c. CHR ''/'' # c) p)"

lemma fs_read_after_write:
  "fs_write fs p body = (Inr (), fs') \<Longrightarrow> fs_read_fault fs p = None \<Longrightarrow>
     fs_read_to_string fs' p = Inr body"
  by (auto simp: fs_write_def fs_read_to_string_def split: option.splits prod.splits)

lemma fs_read_other_after_write:
  "q \<noteq> p \<Longrightarrow> fs_write fs p body = (r, fs') \<Longrightarrow> fs_read_to_string fs' q = fs_read_to_string fs q"
  by (auto simp: fs_write_def fs_read_to_string_def split: option.splits prod.splits)

section \<open>Clock readings\<close>

text \<open>
  A \<^verbatim>\<open>SystemTime\<close> is its distance from the Unix epoch in nanoseconds, negative before it;
  \<^verbatim>\<open>duration_since\<close> fails for those.
\<close>

type_synonym system_time = int

definition duration_since_epoch :: "system_time \<Rightarrow> nat option" where
  "duration_since_epoch t = (if t < 0 then None else Some (nat t))"

definition as_secs :: "nat \<Rightarrow> nat" where
  "as_secs d = d div 1000000000"

definition subsec_nanos :: "nat \<Rightarrow> u32" where
  "subsec_nanos d = of_nat (d mod 1000000000)"

lemma unat_subsec_nanos: "unat (subsec_nanos d) = d mod 1000000000"
proof -
  have "d mod 1000000000 < 2 ^ LENGTH(32)"
    by (rule less_trans [of _ 1000000000]) simp_all
  then show ?thesis by (simp add: subsec_nanos_def unsigned_of_nat take_bit_nat_eq_self)
qed

end
