(* ===== verification/Nonce_Store.thy ===== *)
theory Nonce_Store
  imports Rust_Str Rust_Map Rust_Fs
begin

text \<open>
  \<^verbatim>\<open>src/nonce_store.rs\<close>: the replay-protection store. A store is its map from nonces to the
  time they were last accepted, its TTL and four wrapping counters. The operations take
  and return the store; each runs under the store's mutex, except that the call counter is
  incremented before the lock is taken, which the thread model at the end keeps apart.
  Error texts built by \<^verbatim>\<open>format!\<close> are constructors carrying the formatted arguments.
\<close>

section \<open>Data\<close>

datatype hex_error = BadHexLength nat | BadHexChar u8

datatype malformed_nonce =
    MissingColon nat
  | BadHex nat hex_error
  | BadTimestamp nat int_error

datatype NonceError =
    NonceIo path io_error
  | MalformedLine malformed_nonce

record NonceStoreMetrics =
  nm_total_check_calls :: u64
  nm_total_accepted :: u64
  nm_total_rejected_replay :: u64
  nm_total_accepted_after_ttl :: u64
  nm_current_size :: nat

record NonceStore =
  ns_inner :: "(bytes, int) hashmap"
  ns_ttl_secs :: int
  ns_total_check_calls :: u64
  ns_total_accepted :: u64
  ns_total_rejected_replay :: u64
  ns_total_accepted_after_ttl :: u64

section \<open>Operations\<close>

definition NonceStoreMetrics_counters :: "NonceStoreMetrics \<Rightarrow> u64 \<times> u64 \<times> u64 \<times> u64" where
  "NonceStoreMetrics_counters m =
     (nm_total_check_calls m, nm_total_accepted m, nm_total_rejected_replay m,
      nm_total_accepted_after_ttl m)"

definition NonceStore_new :: "int \<Rightarrow> NonceStore" where
  "NonceStore_new ttl_secs =
     \<lparr>ns_inner = hm_new, ns_ttl_secs = (if ttl_secs > 0 then ttl_secs else 60),
      ns_total_check_calls = 0, ns_total_accepted = 0, ns_total_rejected_replay = 0,
      ns_total_accepted_after_ttl = 0\<rparr>"

text \<open>Reserving capacity does not change the contents of a \<^verbatim>\<open>HashMap\<close>.\<close>

definition NonceStore_with_capacity :: "int \<Rightarrow> nat \<Rightarrow> NonceStore" where
  "NonceStore_with_capacity ttl_secs capacity = NonceStore_new ttl_secs"

definition NonceStore_ttl_secs :: "NonceStore \<Rightarrow> int" where
  "NonceStore_ttl_secs s = ns_ttl_secs s"

definition NonceStore_len :: "NonceStore \<Rightarrow> nat" where
  "NonceStore_len s = hm_len (ns_inner s)"

definition NonceStore_is_empty :: "NonceStore \<Rightarrow> bool" where
  "NonceStore_is_empty s = (NonceStore_len s = 0)"

text \<open>
  \<open>count_check\<close> is the \<^verbatim>\<open>fetch_add\<close> before the lock, \<open>check_locked\<close> the critical section.
\<close>

definition count_check :: "NonceStore \<Rightarrow> NonceStore" where
  "count_check s = s\<lparr>ns_total_check_calls := ns_total_check_calls s + 1\<rparr>"

definition check_locked :: "NonceStore \<Rightarrow> bytes \<Rightarrow> int \<Rightarrow> (NonceError + bool) \<times> NonceStore" where
  "check_locked s nonce now_unix =
     (case hm_get (ns_inner s) nonce of
        Some prior \<Rightarrow>
          if i64_saturating_sub now_unix prior < ns_ttl_secs s
          then (Inr False, s\<lparr>ns_total_rejected_replay := ns_total_rejected_replay s + 1\<rparr>)
          else (Inr True, s\<lparr>ns_total_accepted_after_ttl := ns_total_accepted_after_ttl s + 1,
                            ns_inner := hm_insert nonce now_unix (ns_inner s)\<rparr>)
      | None \<Rightarrow>
          (Inr True, s\<lparr>ns_total_accepted := ns_total_accepted s + 1,
                       ns_inner := hm_insert nonce now_unix (ns_inner s)\<rparr>))"

definition NonceStore_check_and_record ::
  "NonceStore \<Rightarrow> bytes \<Rightarrow> int \<Rightarrow> (NonceError + bool) \<times> NonceStore" where
  "NonceStore_check_and_record s nonce now_unix = check_locked (count_check s) nonce now_unix"

definition NonceStore_metrics :: "NonceStore \<Rightarrow> NonceStoreMetrics" where
  "NonceStore_metrics s =
     \<lparr>nm_total_check_calls = ns_total_check_calls s,
      nm_total_accepted = ns_total_accepted s,
      nm_total_rejected_replay = ns_total_rejected_replay s,
      nm_total_accepted_after_ttl = ns_total_accepted_after_ttl s,
      nm_current_size = NonceStore_len s\<rparr>"

definition NonceStore_cleanup_expired :: "NonceStore \<Rightarrow> int \<Rightarrow> nat \<times> NonceStore" where
  "NonceStore_cleanup_expired s now_unix =
     (let cutoff = i64_saturating_sub now_unix (ns_ttl_secs s);
          before = hm_len (ns_inner s);
          kept = hm_retain (\<lambda>_ recorded. recorded \<ge> cutoff) (ns_inner s)
      in (before - hm_len kept, s\<lparr>ns_inner := kept\<rparr>))"

section \<open>Hexadecimal\<close>

definition hex_digit :: "nat \<Rightarrow> char" where
  "hex_digit d = (if d < 10 then char_of (48 + d) else char_of (87 + d))"

definition hex_encode :: "bytes \<Rightarrow> string" where
  "hex_encode bs = concat (map (\<lambda>b. [hex_digit (unat b div 16), hex_digit (unat b mod 16)]) bs)"

definition hex_nibble :: "u8 \<Rightarrow> hex_error + u8" where
  "hex_nibble c =
     (if 48 \<le> c \<and> c \<le> 57 then Inr (c - 48)
      else if 97 \<le> c \<and> c \<le> 102 then Inr (c - 97 + 10)
      else if 65 \<le> c \<and> c \<le> 70 then Inr (c - 65 + 10)
      else Inl (BadHexChar c))"

fun hex_pairs :: "string \<Rightarrow> hex_error + bytes" where
  "hex_pairs (a # b # s) =
     (case hex_nibble (of_char a) of
        Inl e \<Rightarrow> Inl e
      | Inr hi \<Rightarrow>
          (case hex_nibble (of_char b) of
             Inl e \<Rightarrow> Inl e
           | Inr lo \<Rightarrow>
               (case hex_pairs s of
                  Inl e \<Rightarrow> Inl e
                | Inr bs \<Rightarrow> Inr ((push_bit 4 hi OR lo) # bs))))"
| "hex_pairs _ = Inr []"

definition hex_decode :: "string \<Rightarrow> hex_error + bytes" where
  "hex_decode s = (if length s \<noteq> 32 then Inl (BadHexLength (length s)) else hex_pairs s)"

section \<open>Persistence\<close>

definition nonce_line :: "bytes \<times> int \<Rightarrow> string" where
  "nonce_line = (\<lambda>(nonce, ts). hex_encode nonce @ COLON # show_int ts)"

definition NonceStore_persist_to ::
  "((bytes, int) hashmap \<Rightarrow> (bytes \<times> int) list) \<Rightarrow> NonceStore \<Rightarrow> file_system \<Rightarrow> path \<Rightarrow>
     (NonceError + unit) \<times> file_system" where
  "NonceStore_persist_to it s fs p =
     (let snapshot = it (ns_inner s);
          body = concat (map (\<lambda>e. nonce_line e @ [LF]) snapshot)
      in case fs_write fs p body of
           (Inl err, fs') \<Rightarrow> (Inl (NonceIo p err), fs')
         | (Inr u, fs') \<Rightarrow> (Inr u, fs'))"

text \<open>The body of the reading loop: one numbered line, pushed onto the entries so far.\<close>

definition load_line ::
  "nat \<times> string \<Rightarrow> (bytes \<times> int) list \<Rightarrow> NonceError + (bytes \<times> int) list" where
  "load_line = (\<lambda>(n, raw_line) entries.
     let line = trim raw_line in
     if line = [] then Inr entries
     else case split_once COLON line of
       None \<Rightarrow> Inl (MalformedLine (MissingColon n))
     | Some (hex, ts) \<Rightarrow>
         (case hex_decode hex of
            Inl err \<Rightarrow> Inl (MalformedLine (BadHex n err))
          | Inr nonce \<Rightarrow>
              (case parse_i64 ts of
                 Inl err \<Rightarrow> Inl (MalformedLine (BadTimestamp n err))
               | Inr ts_val \<Rightarrow> Inr (entries @ [(nonce, ts_val)]))))"

definition NonceStore_load_from :: "file_system \<Rightarrow> path \<Rightarrow> int \<Rightarrow> NonceError + NonceStore" where
  "NonceStore_load_from fs p ttl_secs =
     (case fs_read_to_string fs p of
        Inr raw \<Rightarrow>
          (case try_for load_line (numbered_lines raw) [] of
             Inl e \<Rightarrow> Inl e
           | Inr entries \<Rightarrow>
               let store = NonceStore_new ttl_secs
               in Inr (store\<lparr>ns_inner :=
                    fold (\<lambda>(k, v). hm_insert k v) entries (ns_inner store)\<rparr>))
      | Inl NotFound \<Rightarrow> Inr (NonceStore_new ttl_secs)
      | Inl err \<Rightarrow> Inl (NonceIo p err))"

section \<open>Well-formedness\<close>

text \<open>
  The invariant of a store: distinct 16-byte keys, recorded times that are \<open>i64\<close> values, and
  a positive TTL.
\<close>

definition nonce_ok :: "NonceStore \<Rightarrow> bool" where
  "nonce_ok s \<longleftrightarrow> hm_wf (ns_inner s) \<and> 0 < ns_ttl_secs s \<and> is_i64 (ns_ttl_secs s) \<and>
     (\<forall>n t. hm_get (ns_inner s) n = Some t \<longrightarrow> length n = 16 \<and> is_i64 t)"

lemma nonce_okD:
  assumes "nonce_ok s"
  shows "hm_wf (ns_inner s)" "0 < ns_ttl_secs s" "is_i64 (ns_ttl_secs s)"
  using assms by (auto simp: nonce_ok_def)

lemma nonce_ok_new: "is_i64 ttl \<Longrightarrow> nonce_ok (NonceStore_new ttl)"
  by (simp add: nonce_ok_def NonceStore_new_def hm.get_new i64_simps)

lemma NonceStore_new_simps [simp]:
  "ns_total_check_calls (NonceStore_new ttl) = 0" "ns_total_accepted (NonceStore_new ttl) = 0"
  "ns_total_rejected_replay (NonceStore_new ttl) = 0"
  "ns_total_accepted_after_ttl (NonceStore_new ttl) = 0"
  "ns_inner (NonceStore_new ttl) = hm_new" "NonceStore_len (NonceStore_new ttl) = 0"
  by (simp_all add: NonceStore_new_def NonceStore_len_def hm_new_def hm_len_def)

lemma count_check_simps [simp]:
  "ns_inner (count_check s) = ns_inner s" "ns_ttl_secs (count_check s) = ns_ttl_secs s"
  "ns_total_accepted (count_check s) = ns_total_accepted s"
  "ns_total_rejected_replay (count_check s) = ns_total_rejected_replay s"
  "ns_total_accepted_after_ttl (count_check s) = ns_total_accepted_after_ttl s"
  "nonce_ok (count_check s) = nonce_ok s"
  by (simp_all add: count_check_def nonce_ok_def)

text \<open>
  The critical section decides as the exact difference does, records the time of an
  acceptance and leaves the map alone on a rejection.
\<close>

definition replayed :: "NonceStore \<Rightarrow> bytes \<Rightarrow> int \<Rightarrow> bool" where
  "replayed s n now \<longleftrightarrow> (\<exists>prior. hm_get (ns_inner s) n = Some prior \<and> now - prior < ns_ttl_secs s)"

lemma calls_count_check: "ns_total_check_calls (count_check s) = ns_total_check_calls s + 1"
  by (simp add: count_check_def)

lemma replayed_count_check [simp]: "replayed (count_check s) n now = replayed s n now"
  by (simp add: replayed_def)

lemma check_locked_result:
  assumes "nonce_ok s"
  shows "fst (check_locked s n now) = Inr (\<not> replayed s n now)"
    and "ns_inner (snd (check_locked s n now)) =
      (if replayed s n now then ns_inner s else hm_insert n now (ns_inner s))"
    and "ns_ttl_secs (snd (check_locked s n now)) = ns_ttl_secs s"
  using nonce_okD [OF assms] i64_saturating_sub_less_iff [of "ns_ttl_secs s" now]
  by (auto simp: check_locked_def replayed_def i64_min_def split: option.splits if_splits)

lemma check_locked_ok:
  assumes "nonce_ok s" and "length n = 16" and "is_i64 now"
  shows "nonce_ok (snd (check_locked s n now))"
  using assms check_locked_result [OF assms(1), of n now]
  by (auto simp: nonce_ok_def hm.get_insert split: if_splits)

lemma cleanup_simps:
  "ns_inner (snd (NonceStore_cleanup_expired s now)) =
     hm_retain (\<lambda>_ r. i64_saturating_sub now (ns_ttl_secs s) \<le> r) (ns_inner s)"
  "ns_ttl_secs (snd (NonceStore_cleanup_expired s now)) = ns_ttl_secs s"
  by (simp_all add: NonceStore_cleanup_expired_def Let_def)

lemma cleanup_ok:
  assumes "nonce_ok s"
  shows "nonce_ok (snd (NonceStore_cleanup_expired s now))"
  using assms
  by (auto simp: nonce_ok_def cleanup_simps hm.get_retain split: option.splits if_splits)

text \<open>A time that survives or falls to a clean-up, by the exact comparison.\<close>

lemma cleanup_get:
  assumes "nonce_ok s" and "is_i64 now" and "hm_get (ns_inner s) n = Some r"
  shows "hm_get (ns_inner (snd (NonceStore_cleanup_expired s now))) n =
    (if now - ns_ttl_secs s \<le> r then Some r else None)"
proof -
  have r: "is_i64 r" using assms(1,3) by (auto simp: nonce_ok_def)
  have "i64_saturating_sub now (ns_ttl_secs s) \<le> r \<longleftrightarrow> now - ns_ttl_secs s \<le> r"
    using nonce_okD [OF assms(1)] assms(2) r
    by (auto simp: i64_saturating_sub_def i64_simps)
  with assms nonce_okD(1) [OF assms(1)] show ?thesis
    by (simp add: cleanup_simps hm.get_retain)
qed

section \<open>Histories of operations\<close>

text \<open>
  What a server does with the store: checks and clean-ups, in the order in which the mutex
  admits them.
\<close>

datatype nonce_op = Check bytes int | Cleanup int

fun op_time :: "nonce_op \<Rightarrow> int" where
  "op_time (Check n t) = t"
| "op_time (Cleanup t) = t"

fun op_ok :: "nonce_op \<Rightarrow> bool" where
  "op_ok (Check n t) = (length n = 16 \<and> is_i64 t)"
| "op_ok (Cleanup t) = is_i64 t"

fun nonce_exec :: "nonce_op \<Rightarrow> NonceStore \<Rightarrow> NonceStore" where
  "nonce_exec (Check n t) s = snd (NonceStore_check_and_record s n t)"
| "nonce_exec (Cleanup t) s = snd (NonceStore_cleanup_expired s t)"

definition nonce_run :: "nonce_op list \<Rightarrow> NonceStore \<Rightarrow> NonceStore" where
  "nonce_run ops s = fold nonce_exec ops s"

lemma nonce_run_simps [simp]:
  "nonce_run [] s = s" "nonce_run (x # xs) s = nonce_run xs (nonce_exec x s)"
  by (simp_all add: nonce_run_def)

lemma check_and_record_result:
  assumes "nonce_ok s"
  shows "fst (NonceStore_check_and_record s n now) = Inr (\<not> replayed s n now)"
    and "ns_inner (snd (NonceStore_check_and_record s n now)) =
      (if replayed s n now then ns_inner s else hm_insert n now (ns_inner s))"
    and "ns_ttl_secs (snd (NonceStore_check_and_record s n now)) = ns_ttl_secs s"
  using check_locked_result [of "count_check s" n now] assms
  by (simp_all add: NonceStore_check_and_record_def)

lemma nonce_exec_ok: "nonce_ok s \<Longrightarrow> op_ok x \<Longrightarrow> nonce_ok (nonce_exec x s)"
  by (cases x) (simp_all add: NonceStore_check_and_record_def check_locked_ok cleanup_ok)

lemma nonce_exec_ttl: "nonce_ok s \<Longrightarrow> ns_ttl_secs (nonce_exec x s) = ns_ttl_secs s"
  by (cases x) (simp_all add: check_and_record_result cleanup_simps)

lemma nonce_run_ok:
  "nonce_ok s \<Longrightarrow> list_all op_ok ops \<Longrightarrow>
     nonce_ok (nonce_run ops s) \<and> ns_ttl_secs (nonce_run ops s) = ns_ttl_secs s"
  by (induction ops arbitrary: s) (auto simp: nonce_exec_ok nonce_exec_ttl)

text \<open>
  \<open>guarded s n a now\<close>: an acceptance of \<open>n\<close> at time \<open>a\<close> still bars the nonce, or its
  window has already passed at \<open>now\<close>.
\<close>

definition guarded :: "NonceStore \<Rightarrow> bytes \<Rightarrow> int \<Rightarrow> int \<Rightarrow> bool" where
  "guarded s n a now \<longleftrightarrow>
     (\<exists>r. hm_get (ns_inner s) n = Some r \<and> a \<le> r) \<or> a + ns_ttl_secs s \<le> now"

lemma guarded_accepts_late:
  "guarded s n a now \<Longrightarrow> \<not> replayed s n t \<Longrightarrow> now \<le> t \<Longrightarrow> a + ns_ttl_secs s \<le> t"
  by (auto simp: guarded_def replayed_def)

lemma guarded_check:
  assumes "nonce_ok s" and "guarded s n a now" and "now \<le> t"
  shows "guarded (snd (NonceStore_check_and_record s m t)) n a t"
  using assms check_and_record_result [OF assms(1), of m t] nonce_okD [OF assms(1)]
  by (auto simp: guarded_def replayed_def hm.get_insert)

lemma guarded_cleanup:
  assumes "nonce_ok s" and "guarded s n a now" and "now \<le> t" and "is_i64 t"
  shows "guarded (snd (NonceStore_cleanup_expired s t)) n a t"
proof (cases "a + ns_ttl_secs s \<le> now")
  case True
  with assms(3) show ?thesis by (simp add: guarded_def cleanup_simps)
next
  case False
  with assms(2) obtain r where "hm_get (ns_inner s) n = Some r" and "a \<le> r"
    by (auto simp: guarded_def)
  with cleanup_get [OF assms(1,4)] show ?thesis
    by (auto simp: guarded_def cleanup_simps(2))
qed

lemma guarded_run:
  "nonce_ok s \<Longrightarrow> guarded s n a now \<Longrightarrow> list_all op_ok ops \<Longrightarrow> sorted (now # map op_time ops) \<Longrightarrow>
     guarded (nonce_run ops s) n a (last (now # map op_time ops))"
proof (induction ops arbitrary: s now)
  case Nil
  then show ?case by simp
next
  case (Cons x xs)
  have "guarded (nonce_exec x s) n a (op_time x)"
    using Cons.prems by (cases x) (auto simp: guarded_check guarded_cleanup)
  moreover have "nonce_ok (nonce_exec x s)" using Cons.prems by (auto intro: nonce_exec_ok)
  ultimately show ?case using Cons.IH [of "nonce_exec x s" "op_time x"] Cons.prems by auto
qed

lemma guarded_after_accept:
  assumes "nonce_ok s" and "NonceStore_check_and_record s n t = (Inr True, s')"
  shows "guarded s' n t t" and "ns_ttl_secs s' = ns_ttl_secs s"
  using assms check_and_record_result [OF assms(1), of n t] nonce_okD [OF assms(1)]
  by (auto simp: guarded_def hm.get_insert)

text \<open>Without clean-ups the guard does not depend on the clock going forward.\<close>

fun is_check :: "nonce_op \<Rightarrow> bool" where
  "is_check (Check _ _) = True"
| "is_check (Cleanup _) = False"

definition barred :: "NonceStore \<Rightarrow> bytes \<Rightarrow> int \<Rightarrow> bool" where
  "barred s n a \<longleftrightarrow> (\<exists>r. hm_get (ns_inner s) n = Some r \<and> a \<le> r)"

lemma barred_check:
  assumes "nonce_ok s" and "barred s n a"
  shows "barred (snd (NonceStore_check_and_record s m t)) n a"
  using assms check_and_record_result [OF assms(1), of m t] nonce_okD [OF assms(1)]
  by (auto simp: barred_def replayed_def hm.get_insert)

lemma barred_run:
  "nonce_ok s \<Longrightarrow> barred s n a \<Longrightarrow> list_all op_ok ops \<Longrightarrow> list_all is_check ops \<Longrightarrow>
     barred (nonce_run ops s) n a"
proof (induction ops arbitrary: s)
  case Nil
  then show ?case by simp
next
  case (Cons x xs)
  then obtain m t where "x = Check m t" by (cases x) auto
  with Cons show ?case using nonce_exec_ok [of s x] by (auto simp: barred_check)
qed

section \<open>Properties of the store\<close>

text \<open>
  C2. Replay protection. After \<^verbatim>\<open>check_and_record\<close> accepts a nonce at time \<open>t\<close>, and
  whatever checks and clean-ups follow with a clock that does not go back, the same nonce is
  accepted again only at a time at least the TTL later.
\<close>

theorem no_replay_within_ttl:
  assumes "nonce_ok s"
    and "NonceStore_check_and_record s n t = (Inr True, s1)"
    and "length n = 16" and "is_i64 t"
    and "list_all op_ok ops" and "sorted (t # map op_time ops @ [t'])"
    and "NonceStore_check_and_record (nonce_run ops s1) n t' = (Inr True, s2)"
  shows "t + ns_ttl_secs s \<le> t'"
proof -
  note g = guarded_after_accept [OF assms(1,2)]
  have ok1: "nonce_ok s1"
    using nonce_exec_ok [OF assms(1), of "Check n t"] assms(2-4) by simp
  have "sorted (t # map op_time ops)" using assms(6) by (simp add: sorted_append)
  with g ok1 assms(5) have run: "guarded (nonce_run ops s1) n t (last (t # map op_time ops))"
    by (intro guarded_run)
  have "last (t # map op_time ops) \<le> t'"
    using assms(6) last_in_set [of "t # map op_time ops"]
    by (auto simp: sorted_append simp del: last.simps)
  moreover have ok2: "nonce_ok (nonce_run ops s1)" "ns_ttl_secs (nonce_run ops s1) = ns_ttl_secs s"
    using nonce_run_ok [OF ok1 assms(5)] g(2) by simp_all
  moreover have "\<not> replayed (nonce_run ops s1) n t'"
    using check_and_record_result(1) [OF ok2(1), of n t'] assms(7) by simp
  ultimately show ?thesis using guarded_accepts_late [OF run] by simp
qed

theorem no_replay_within_ttl_witness:
  "(let n = replicate 16 (3 :: u8);
        s1 = snd (NonceStore_check_and_record (NonceStore_new 60) n 1000);
        s2 = nonce_run [Check n 1030, Cleanup 1061] s1
    in fst (NonceStore_check_and_record s2 n 1061) = Inr True \<and>
       1000 + ns_ttl_secs (NonceStore_new 60) \<le> 1061)"
proof -
  let ?n = "replicate 16 (3 :: u8)"
  let ?s = "NonceStore_new 60"
  let ?ops = "[Check ?n 1030, Cleanup 1061]"
  let ?s1 = "snd (NonceStore_check_and_record ?s ?n 1000)"
  let ?s2 = "nonce_run ?ops ?s1"
  have a: "fst (NonceStore_check_and_record ?s ?n 1000) = Inr True"
    and b: "fst (NonceStore_check_and_record ?s2 ?n 1061) = Inr True"
    by code_simp+
  have ok: "nonce_ok ?s" by (rule nonce_ok_new) (simp add: i64_simps)
  have "1000 + ns_ttl_secs ?s \<le> 1061"
    by (rule no_replay_within_ttl [OF ok, of ?n 1000 ?s1 ?ops 1061
          "snd (NonceStore_check_and_record ?s2 ?n 1061)"])
      (use a b in \<open>simp_all add: prod_eq_iff i64_simps\<close>)
  with b show ?thesis by (simp add: Let_def)
qed

text \<open>
  Between clean-ups replay protection does not depend on the clock: after an acceptance
  at \<open>t\<close>, any number of checks of any nonces at any times, also times before \<open>t\<close>, leave the
  nonce barred until \<open>t\<close> plus the TTL.
\<close>

lemma no_replay_any_clock:
  assumes "nonce_ok s"
    and "NonceStore_check_and_record s n t = (Inr True, s1)"
    and "length n = 16" and "is_i64 t"
    and "list_all op_ok ops" and "list_all is_check ops"
    and "t' < t + ns_ttl_secs s"
  shows "fst (NonceStore_check_and_record (nonce_run ops s1) n t') = Inr False"
proof -
  have ok1: "nonce_ok s1"
    using nonce_exec_ok [OF assms(1), of "Check n t"] assms(2-4) by simp
  have "hm_get (ns_inner s1) n = Some t" and ttl: "ns_ttl_secs s1 = ns_ttl_secs s"
    using assms(2) check_and_record_result [OF assms(1), of n t] nonce_okD(1) [OF assms(1)]
    by (auto simp: hm.get_insert)
  then have "barred s1 n t" by (simp add: barred_def)
  then have "barred (nonce_run ops s1) n t" using ok1 assms(5,6) by (intro barred_run)
  moreover note run = nonce_run_ok [OF ok1 assms(5)]
  ultimately have "replayed (nonce_run ops s1) n t'"
    using assms(7) ttl by (auto simp: barred_def replayed_def)
  then show ?thesis using check_and_record_result(1) run by simp
qed

section \<open>Clean-up and counters\<close>

lemma replayed_cleanup:
  assumes "nonce_ok s" and "is_i64 now" and "now \<le> t"
  shows "replayed (snd (NonceStore_cleanup_expired s now)) n t = replayed s n t"
proof (cases "hm_get (ns_inner s) n")
  case None
  then show ?thesis
    using nonce_okD(1) [OF assms(1)] by (simp add: replayed_def cleanup_simps hm.get_retain)
next
  case (Some r)
  with cleanup_get [OF assms(1,2)] assms(3) show ?thesis
    by (auto simp: replayed_def cleanup_simps(2))
qed

text \<open>
  C20. \<^verbatim>\<open>cleanup_expired(now)\<close> removes exactly the nonces recorded before \<open>now\<close> minus the TTL
  and returns how many it removed; it never changes what a later check decides, so the
  periodic clean-up is invisible to the handshake path.
\<close>

theorem cleanup_transparent:
  assumes "nonce_ok s" and "is_i64 now"
  shows "(\<forall>n r. hm_get (ns_inner (snd (NonceStore_cleanup_expired s now))) n = Some r \<longleftrightarrow>
      hm_get (ns_inner s) n = Some r \<and> now - ns_ttl_secs s \<le> r) \<and>
    fst (NonceStore_cleanup_expired s now) + NonceStore_len (snd (NonceStore_cleanup_expired s now))
      = NonceStore_len s \<and>
    (\<forall>n t. now \<le> t \<longrightarrow>
      fst (NonceStore_check_and_record (snd (NonceStore_cleanup_expired s now)) n t)
        = fst (NonceStore_check_and_record s n t))"
proof (intro conjI allI impI)
  fix n r
  show "hm_get (ns_inner (snd (NonceStore_cleanup_expired s now))) n = Some r \<longleftrightarrow>
      hm_get (ns_inner s) n = Some r \<and> now - ns_ttl_secs s \<le> r"
    using cleanup_get [OF assms] nonce_okD(1) [OF assms(1)]
    by (cases "hm_get (ns_inner s) n") (auto simp: cleanup_simps hm.get_retain)
next
  show "fst (NonceStore_cleanup_expired s now) + NonceStore_len (snd (NonceStore_cleanup_expired s now))
      = NonceStore_len s"
    using hm.len_retain [OF nonce_okD(1) [OF assms(1)]]
    by (simp add: NonceStore_cleanup_expired_def NonceStore_len_def Let_def)
next
  fix n t assume "now \<le> t"
  then show "fst (NonceStore_check_and_record (snd (NonceStore_cleanup_expired s now)) n t)
      = fst (NonceStore_check_and_record s n t)"
    using assms by (simp add: check_and_record_result cleanup_ok replayed_cleanup)
qed

theorem cleanup_transparent_witness:
  "(let s = nonce_run [Check (replicate 16 7) 1000, Check (replicate 16 8) 1005] (NonceStore_new 30)
    in fst (NonceStore_cleanup_expired s 1040) = 2 \<and> NonceStore_len s = 2)"
proof -
  let ?s = "nonce_run [Check (replicate 16 7) 1000, Check (replicate 16 8) 1005] (NonceStore_new 30)"
  have ok: "nonce_ok ?s"
    using nonce_run_ok [OF nonce_ok_new, of 30 "[Check (replicate 16 7) 1000, Check (replicate 16 8) 1005]"]
    by (simp add: i64_simps)
  have i: "is_i64 1040" by (simp add: i64_simps)
  have "NonceStore_len ?s = 2" and "NonceStore_len (snd (NonceStore_cleanup_expired ?s 1040)) = 0"
    by code_simp+
  with cleanup_transparent [OF ok i] show ?thesis unfolding Let_def by linarith
qed

definition checks_in :: "nonce_op list \<Rightarrow> nat" where
  "checks_in ops = length (filter is_check ops)"

lemma nonce_exec_counters:
  assumes "nonce_ok s"
  shows "ns_total_check_calls (nonce_exec x s) = ns_total_check_calls s + (if is_check x then 1 else 0)"
    and "ns_total_accepted (nonce_exec x s) + ns_total_rejected_replay (nonce_exec x s) +
        ns_total_accepted_after_ttl (nonce_exec x s) =
      ns_total_accepted s + ns_total_rejected_replay s + ns_total_accepted_after_ttl s +
        (if is_check x then 1 else 0)"
  by (cases x; simp add: NonceStore_check_and_record_def check_locked_def count_check_def
      NonceStore_cleanup_expired_def Let_def split: option.split)+

lemma nonce_exec_size:
  assumes "nonce_ok s" and "is_check x"
    and "of_nat (NonceStore_len s) = ns_total_accepted s"
  shows "of_nat (NonceStore_len (nonce_exec x s)) = ns_total_accepted (nonce_exec x s)"
  using assms nonce_okD(1) [OF assms(1)]
  by (cases x) (auto simp: NonceStore_check_and_record_def check_locked_def count_check_def
      NonceStore_len_def hm.len_insert split: option.splits)

lemma nonce_run_counters:
  "nonce_ok s \<Longrightarrow> list_all op_ok ops \<Longrightarrow>
   ns_total_check_calls s = ns_total_accepted s + ns_total_rejected_replay s + ns_total_accepted_after_ttl s \<Longrightarrow>
   ns_total_check_calls (nonce_run ops s) = ns_total_check_calls s + of_nat (checks_in ops) \<and>
   ns_total_check_calls (nonce_run ops s) = ns_total_accepted (nonce_run ops s) +
     ns_total_rejected_replay (nonce_run ops s) + ns_total_accepted_after_ttl (nonce_run ops s)"
proof (induction ops arbitrary: s)
  case Nil
  then show ?case by (simp add: checks_in_def)
next
  case (Cons x xs)
  have "nonce_ok (nonce_exec x s)" using Cons.prems by (auto intro: nonce_exec_ok)
  then show ?case
    using Cons.IH [of "nonce_exec x s"] Cons.prems nonce_exec_counters [of s x]
    by (auto simp: checks_in_def)
qed

lemma nonce_run_size:
  "nonce_ok s \<Longrightarrow> list_all op_ok ops \<Longrightarrow> list_all is_check ops \<Longrightarrow>
   of_nat (NonceStore_len s) = ns_total_accepted s \<Longrightarrow>
   of_nat (NonceStore_len (nonce_run ops s)) = ns_total_accepted (nonce_run ops s)"
  by (induction ops arbitrary: s) (auto simp: nonce_exec_ok nonce_exec_size)

text \<open>
  The metrics account for every call, modulo the wrap-around of the 64-bit counters:
  after any history of a new store the call counter is the number of checks made and is the
  sum of the three outcomes; as long as nothing was cleaned up, the first-sighting counter
  is the number of nonces tracked.
\<close>

lemma nonce_metrics_account:
  assumes "is_i64 ttl" and "list_all op_ok ops"
  shows "(let m = NonceStore_metrics (nonce_run ops (NonceStore_new ttl)) in
    nm_total_check_calls m = of_nat (checks_in ops) \<and>
    nm_total_check_calls m =
      nm_total_accepted m + nm_total_rejected_replay m + nm_total_accepted_after_ttl m \<and>
    (list_all is_check ops \<longrightarrow> nm_total_accepted m = of_nat (nm_current_size m)))"
  using nonce_run_counters [OF nonce_ok_new [OF assms(1)] assms(2)]
    nonce_run_size [OF nonce_ok_new [OF assms(1)] assms(2)]
  by (auto simp: NonceStore_metrics_def Let_def)

section \<open>Persistence round trip\<close>

lemma all_nibbles:
  "\<forall>d \<in> set [0..<16]. hex_nibble (of_char (hex_digit d)) = Inr (of_nat d) \<and> solid (hex_digit d)
     \<and> hex_digit d \<noteq> COLON"
  by code_simp

lemma nibble_hex_digit:
  assumes "d < 16"
  shows "hex_nibble (of_char (hex_digit d)) = Inr (of_nat d)"
    and "solid (hex_digit d)" and "hex_digit d \<noteq> COLON"
  using all_nibbles assms by auto

lemma all_bytes:
  "\<forall>k \<in> set [0..<256]. push_bit 4 (of_nat (k div 16)) OR of_nat (k mod 16) = (of_nat k :: u8)"
  by code_simp

lemma byte_of_nibbles:
  "push_bit 4 (of_nat (unat b div 16)) OR of_nat (unat b mod 16) = (b :: u8)"
proof -
  have "unat b < 256" using unsigned_less [where ?'a = nat, of b] by simp
  then have "push_bit 4 (of_nat (unat b div 16)) OR of_nat (unat b mod 16) = (of_nat (unat b) :: u8)"
    using all_bytes by simp
  then show ?thesis by simp
qed

lemma hex_pairs_encode: "hex_pairs (hex_encode bs) = Inr bs"
proof (induction bs)
  case Nil
  then show ?case by (simp add: hex_encode_def)
next
  case (Cons b bs)
  have "unat b < 256" using unsigned_less [where ?'a = nat, of b] by simp
  then have "unat b div 16 < 16" by simp
  moreover have "unat b mod 16 < 16" by simp
  ultimately show ?case
    using Cons byte_of_nibbles [of b] by (simp add: hex_encode_def nibble_hex_digit(1))
qed

lemma length_hex_encode: "length (hex_encode bs) = 2 * length bs"
  by (induction bs) (simp_all add: hex_encode_def)

lemma hex_decode_encode [rust_str]: "length bs = 16 \<Longrightarrow> hex_decode (hex_encode bs) = Inr bs"
  by (simp add: hex_decode_def length_hex_encode hex_pairs_encode)

lemma hex_encode_chars: "c \<in> set (hex_encode bs) \<Longrightarrow> solid c \<and> c \<noteq> COLON"
proof -
  assume "c \<in> set (hex_encode bs)"
  then obtain b where "b \<in> set bs" and c: "c = hex_digit (unat b div 16) \<or> c = hex_digit (unat b mod 16)"
    by (auto simp: hex_encode_def)
  have "unat b < 256" using unsigned_less [where ?'a = nat, of b] by simp
  then have "unat b div 16 < 16" and "unat b mod 16 < 16" by simp_all
  with c show ?thesis using nibble_hex_digit(2,3) by metis
qed

definition good_nonce_entry :: "bytes \<times> int \<Rightarrow> bool" where
  "good_nonce_entry = (\<lambda>(n, t). length n = 16 \<and> is_i64 t)"

lemma nonce_line_chars: "c \<in> set (nonce_line e) \<Longrightarrow> solid c"
  by (cases e) (auto simp: nonce_line_def solid_def [of COLON] dest: hex_encode_chars show_int_solid)

lemma nonce_line_trim: "trim (nonce_line e) = nonce_line e" and nonce_line_ne: "nonce_line e \<noteq> []"
proof -
  show ne: "nonce_line e \<noteq> []" by (cases e) (simp add: nonce_line_def)
  then show "trim (nonce_line e) = nonce_line e"
    using nonce_line_chars hd_in_set last_in_set by (intro trim_solid) blast+
qed

lemma nonce_line_ok: "line_ok (nonce_line e)"
proof -
  have "\<not> solid LF" and "\<not> solid CR" by (simp_all add: solid_def)
  then have "LF \<notin> set (nonce_line e)" and "last (nonce_line e) \<noteq> CR"
    using nonce_line_chars nonce_line_ne last_in_set by metis+
  then show ?thesis by (simp add: line_ok_def)
qed

lemma load_line_render:
  assumes "good_nonce_entry e"
  shows "load_line (i, nonce_line e) acc = Inr (acc @ [e])"
proof -
  obtain n t where e: "e = (n, t)" by (cases e)
  have "split_once COLON (nonce_line e) = Some (hex_encode n, show_int t)"
    using hex_encode_chars by (auto simp: e nonce_line_def intro: split_once_append)
  with assms show ?thesis
    by (simp add: load_line_def Let_def nonce_line_trim nonce_line_ne hex_decode_encode
        parse_i64_show_int good_nonce_entry_def e)
qed

interpretation nonce_file: line_codec nonce_line load_line "\<lambda>e acc. acc @ [e]" good_nonce_entry
  by unfold_locales (simp_all add: nonce_line_ok load_line_render)

lemma fold_snoc: "fold (\<lambda>e acc. acc @ [e]) es acc = acc @ es"
  by (induction es arbitrary: acc) simp_all

text \<open>What \<^verbatim>\<open>load_from\<close> makes of a file that \<^verbatim>\<open>persist_to\<close> wrote.\<close>

lemma load_persisted:
  assumes "nonce_ok s" and "iteration_order it"
    and "NonceStore_persist_to it s fs p = (Inr (), fs')" and "fs_read_fault fs p = None"
  shows "\<exists>s'. NonceStore_load_from fs' p (ns_ttl_secs s) = Inr s' \<and> nonce_ok s' \<and>
    hm_get (ns_inner s') = hm_get (ns_inner s) \<and> ns_ttl_secs s' = ns_ttl_secs s"
proof -
  let ?es = "it (ns_inner s)"
  let ?body = "concat (map (\<lambda>e. nonce_line e @ [LF]) ?es)"
  let ?s' = "(NonceStore_new (ns_ttl_secs s))\<lparr>ns_inner := hm_collect ?es\<rparr>"
  have "fs_write fs p ?body = (Inr (), fs')"
    using assms(3) by (auto simp: NonceStore_persist_to_def Let_def split: prod.splits sum.splits)
  then have read: "fs_read_to_string fs' p = Inr ?body" using assms(4) by (rule fs_read_after_write)
  have "list_all good_nonce_entry ?es"
    using assms(1) iteration_set [OF assms(2), of "ns_inner s"]
    by (auto simp: list_all_iff good_nonce_entry_def nonce_ok_def hm_get_in_iff)
  then have "try_for load_line (numbered_lines ?body) [] = Inr ?es"
    using nonce_file.read_rendered [of ?es "[]"] by (simp add: fold_snoc)
  with read have load: "NonceStore_load_from fs' p (ns_ttl_secs s) = Inr ?s'"
    by (simp add: NonceStore_load_from_def Let_def hm_collect_def)
  have get: "hm_get (ns_inner ?s') = hm_get (ns_inner s)"
    using assms(1,2) by (simp add: iteration_collect nonce_ok_def)
  have ttl: "ns_ttl_secs ?s' = ns_ttl_secs s"
    using nonce_okD [OF assms(1)] by (simp add: NonceStore_new_def)
  have "nonce_ok ?s'" using assms(1) get ttl by (simp add: nonce_ok_def)
  with load get ttl show ?thesis by blast
qed

lemma same_decisions:
  assumes "nonce_ok s" "nonce_ok s'" "hm_get (ns_inner s') = hm_get (ns_inner s)" "ns_ttl_secs s' = ns_ttl_secs s"
  shows "fst (NonceStore_check_and_record s' n t) = fst (NonceStore_check_and_record s n t)"
  using assms by (simp add: check_and_record_result(1) replayed_def)

text \<open>
  C19. Persistence round trip. Whatever order the map is iterated in, a store written by
  \<^verbatim>\<open>persist_to\<close> and read back by \<^verbatim>\<open>load_from\<close> with the same TTL tracks the same nonces with
  the same times, so it makes the same decisions; only the counters start again at zero.
\<close>

theorem nonce_persist_load:
  assumes "nonce_ok s" and "iteration_order it"
    and "NonceStore_persist_to it s fs p = (Inr (), fs')" and "fs_read_fault fs p = None"
  shows "\<exists>s'. NonceStore_load_from fs' p (ns_ttl_secs s) = Inr s' \<and>
    hm_get (ns_inner s') = hm_get (ns_inner s) \<and> ns_ttl_secs s' = ns_ttl_secs s \<and>
    (\<forall>n t. fst (NonceStore_check_and_record s' n t) = fst (NonceStore_check_and_record s n t))"
  using load_persisted [OF assms] same_decisions [OF assms(1)] by metis

definition empty_fs :: file_system where
  "empty_fs = \<lparr>fs_file = Map.empty, fs_read_fault = Map.empty, fs_write_fault = Map.empty,
     fs_mkdir_fault = Map.empty\<rparr>"

theorem nonce_persist_load_witness:
  "(let s = nonce_run [Check (replicate 16 11) 1700000000, Check (replicate 16 255) 1700000010]
          (NonceStore_new 120);
        fs' = snd (NonceStore_persist_to rev s empty_fs [''nonces.txt''])
    in \<exists>s'. NonceStore_load_from fs' [''nonces.txt''] 120 = Inr s' \<and>
         hm_get (ns_inner s') (replicate 16 255) = Some 1700000010)"
proof -
  let ?ops = "[Check (replicate 16 11) 1700000000, Check (replicate 16 255) 1700000010]"
  let ?s = "nonce_run ?ops (NonceStore_new 120)"
  let ?p = "[''nonces.txt'']"
  let ?fs' = "snd (NonceStore_persist_to rev ?s empty_fs ?p)"
  have run: "nonce_ok ?s" "ns_ttl_secs ?s = 120"
    using nonce_run_ok [OF nonce_ok_new, of 120 ?ops] by (simp_all add: i64_simps NonceStore_new_def)
  have w: "NonceStore_persist_to rev ?s empty_fs ?p = (Inr (), ?fs')"
    by (simp add: NonceStore_persist_to_def Let_def fs_write_def empty_fs_def)
  have r: "fs_read_fault empty_fs ?p = None" by (simp add: empty_fs_def)
  have g: "hm_get (ns_inner ?s) (replicate 16 255) = Some 1700000010" by code_simp
  from nonce_persist_load [OF run(1) iteration_order_rev w r] run(2) g
  show ?thesis unfolding Let_def by auto
qed

end
