(* ===== verification/Nonce_Spec.thy ===== *)
theory Nonce_Spec
  imports Nonce_Store
begin

text \<open>
  The replay store as its clients see it: a partial function from nonces to the time of their last
  acceptance, with unbounded integers and no counters. The store of \<^verbatim>\<open>src/nonce_store.rs\<close>, with its hash
  map, its saturating \<open>i64\<close> arithmetic and its two different comparisons (\<^verbatim>\<open><\<close> in the check, \<^verbatim>\<open>>=\<close>
  in the clean-up), refines it step by step, so a client may reason about the
  specification alone.
\<close>

datatype nonce_answer = Decision bool | Removed nat

fun spec_step :: "int \<Rightarrow> nonce_op \<Rightarrow> (bytes \<rightharpoonup> int) \<Rightarrow> nonce_answer \<times> (bytes \<rightharpoonup> int)" where
  "spec_step ttl (Check n t) m =
     (case m n of
        Some p \<Rightarrow> if t < p + ttl then (Decision False, m) else (Decision True, m(n \<mapsto> t))
      | None \<Rightarrow> (Decision True, m(n \<mapsto> t)))"
| "spec_step ttl (Cleanup t) m =
     (let old = {n. \<exists>p. m n = Some p \<and> p + ttl < t} in (Removed (card old), m |` (- old)))"

fun store_step :: "nonce_op \<Rightarrow> NonceStore \<Rightarrow> nonce_answer \<times> NonceStore" where
  "store_step (Check n t) s =
     (case NonceStore_check_and_record s n t of (r, s') \<Rightarrow> (Decision (r = Inr True), s'))"
| "store_step (Cleanup t) s = (case NonceStore_cleanup_expired s t of (k, s') \<Rightarrow> (Removed k, s'))"

fun answers :: "('op \<Rightarrow> 's \<Rightarrow> 'a \<times> 's) \<Rightarrow> 'op list \<Rightarrow> 's \<Rightarrow> 'a list" where
  "answers step [] s = []"
| "answers step (x # xs) s = (case step x s of (a, s') \<Rightarrow> a # answers step xs s')"

section \<open>Simulation\<close>

text \<open>
  A functional simulation between two machines that answer operations: where the invariant holds,
  the abstraction of the concrete step is the abstract step, with the same answer. Then all
  sequences of answers agree.
\<close>

locale machine_refinement =
  fixes concrete :: "'op \<Rightarrow> 's \<Rightarrow> 'a \<times> 's"
    and abstract :: "'op \<Rightarrow> 't \<Rightarrow> 'a \<times> 't"
    and abs :: "'s \<Rightarrow> 't"
    and inv :: "'s \<Rightarrow> bool"
    and legal :: "'op \<Rightarrow> bool"
  assumes simulates: "inv s \<Longrightarrow> legal x \<Longrightarrow> abstract x (abs s) = map_prod id abs (concrete x s)"
    and preserves: "inv s \<Longrightarrow> legal x \<Longrightarrow> inv (snd (concrete x s))"
begin

lemma same_answers: "inv s \<Longrightarrow> list_all legal xs \<Longrightarrow> answers concrete xs s = answers abstract xs (abs s)"
proof (induction xs arbitrary: s)
  case (Cons x xs)
  then show ?case
    using simulates [of s x] preserves [of s x] by (cases "concrete x s") simp
qed simp

end

definition nonce_inv :: "int \<Rightarrow> NonceStore \<Rightarrow> bool" where
  "nonce_inv ttl s \<longleftrightarrow> nonce_ok s \<and> ns_ttl_secs s = ttl"

lemma store_step_state: "snd (store_step x s) = nonce_exec x s"
  by (cases x) (simp_all add: case_prod_beta)

lemma store_step_inv: "nonce_inv ttl s \<Longrightarrow> op_ok x \<Longrightarrow> nonce_inv ttl (snd (store_step x s))"
  by (simp add: nonce_inv_def store_step_state nonce_exec_ok nonce_exec_ttl)

lemma check_refines:
  assumes "nonce_inv ttl s" and "op_ok (Check n t)"
  shows "spec_step ttl (Check n t) (hm_get (ns_inner s)) = map_prod id (\<lambda>s. hm_get (ns_inner s)) (store_step (Check n t) s)"
proof -
  have ok: "nonce_ok s" "ns_ttl_secs s = ttl" using assms(1) by (auto simp: nonce_inv_def)
  have wf: "hm_wf (ns_inner s)" by (rule nonce_okD [OF ok(1)])
  show ?thesis
    using check_and_record_result [OF ok(1), of n t] hm.get_insert [OF wf]
    by (cases "NonceStore_check_and_record s n t") (auto simp: replayed_def ok(2) split: option.splits)
qed

lemma cleanup_refines:
  assumes "nonce_inv ttl s" and "op_ok (Cleanup t)"
  shows "spec_step ttl (Cleanup t) (hm_get (ns_inner s)) = map_prod id (\<lambda>s. hm_get (ns_inner s)) (store_step (Cleanup t) s)"
proof -
  have ok: "nonce_ok s" "ns_ttl_secs s = ttl" using assms(1) by (auto simp: nonce_inv_def)
  have wf: "hm_wf (ns_inner s)" by (rule nonce_okD [OF ok(1)])
  let ?m = "hm_get (ns_inner s)" and ?s = "snd (NonceStore_cleanup_expired s t)"
  let ?old = "{n. \<exists>p. ?m n = Some p \<and> p + ttl < t}"
  have get: "hm_get (ns_inner ?s) n = (?m |` (- ?old)) n" for n
  proof (cases "?m n")
    case None
    then show ?thesis using wf by (simp add: cleanup_simps hm.get_retain restrict_map_def)
  next
    case (Some r)
    then show ?thesis
      using cleanup_get [OF ok(1) _ Some, of t] assms(2) ok(2) by (auto simp: restrict_map_def)
  qed
  have "dom (hm_get (ns_inner ?s)) = dom ?m - ?old" by (auto simp: get restrict_map_def split: if_splits)
  moreover have "?old \<subseteq> dom ?m" by auto
  ultimately have "card (dom ?m) - card (dom (hm_get (ns_inner ?s))) = card ?old"
    using hm.finite_get [of "ns_inner s"] by (simp add: card_Diff_subset finite_subset card_mono)
  moreover have "fst (NonceStore_cleanup_expired s t) = hm_len (ns_inner s) - hm_len (ns_inner ?s)"
    by (simp add: NonceStore_cleanup_expired_def Let_def)
  ultimately have "fst (NonceStore_cleanup_expired s t) = card ?old"
    by (simp add: hm.len_card [OF wf] hm.len_card [OF nonce_okD(1) [OF cleanup_ok [OF ok(1)]]])
  with get show ?thesis
    by (cases "NonceStore_cleanup_expired s t") (auto simp: Let_def fun_eq_iff)
qed

lemma store_step_refines:
  "nonce_inv ttl s \<Longrightarrow> op_ok x \<Longrightarrow>
   spec_step ttl x (hm_get (ns_inner s)) = map_prod id (\<lambda>s. hm_get (ns_inner s)) (store_step x s)"
  by (cases x) (simp_all only: check_refines cleanup_refines)

interpretation nonce_machine: machine_refinement store_step "spec_step ttl" "\<lambda>s. hm_get (ns_inner s)" "nonce_inv ttl" op_ok
  for ttl
  by unfold_locales (rule store_step_refines store_step_inv; assumption)+

text \<open>
  C11. The store refines its specification: on every history of checks and clean-ups, at any times and in any
  order, a new store gives the answers of the partial function that starts empty, the decision of
  each check and the number of entries each clean-up removes.
\<close>

theorem nonce_store_refines:
  assumes "is_i64 ttl" and "list_all op_ok ops"
  shows "answers store_step ops (NonceStore_new ttl) = answers (spec_step (if 0 < ttl then ttl else 60)) ops Map.empty"
proof -
  have "nonce_inv (if 0 < ttl then ttl else 60) (NonceStore_new ttl)"
    using nonce_ok_new [OF assms(1)] by (simp add: nonce_inv_def) (simp add: NonceStore_new_def)
  from nonce_machine.same_answers [OF this assms(2)] show ?thesis by (simp add: hm.get_new)
qed

theorem nonce_store_refines_witness:
  "answers store_step [Check (replicate 16 1) 1000, Check (replicate 16 1) 1059, Cleanup 1061, Check (replicate 16 1) 1062]
     (NonceStore_new 60) = [Decision True, Decision False, Removed 1, Decision True]"
proof -
  let ?n = "replicate 16 (1 :: u8)"
  have "answers (spec_step 60) [Check ?n 1000, Check ?n 1059, Cleanup 1061, Check ?n 1062] Map.empty =
      [Decision True, Decision False, Removed 1, Decision True]"
    by (simp add: Let_def restrict_map_def)
  then show ?thesis
    using nonce_store_refines [of 60 "[Check ?n 1000, Check ?n 1059, Cleanup 1061, Check ?n 1062]"]
    by (simp add: i64_simps)
qed

end
