(* ===== verification/Nonce_Load.thy ===== *)
theory Nonce_Load
  imports Nonce_Spec
begin

text \<open>
  Reading a nonce file (\<^verbatim>\<open>load_from\<close> of \<^verbatim>\<open>src/nonce_store.rs\<close>), against a description of what a file says that does not mention
  the reader. A loaded store is well-formed, so it refines the specification of \<open>Nonce_Spec\<close> from its first operation on.
\<close>

section \<open>Stores read from a file\<close>

lemma parse_digits_range: "parse_digits ok sg e acc s = Inr x \<Longrightarrow> ok acc \<Longrightarrow> ok x"
  by (induction s arbitrary: acc) (auto split: option.splits if_splits)

lemma parse_i64_range: "parse_i64 s = Inr x \<Longrightarrow> is_i64 x"
proof -
  have zero: "is_i64 0" by (simp add: i64_simps)
  assume "parse_i64 s = Inr x"
  then show ?thesis
    by (auto simp: parse_i64_def parse_int_def simp del: parse_digits.simps split: list.splits if_splits
        intro: parse_digits_range [where ok = is_i64, OF _ zero])
qed

lemma hex_pairs_length: "hex_pairs s = Inr bs \<Longrightarrow> length bs = length s div 2"
  by (induction s arbitrary: bs rule: hex_pairs.induct) (auto split: sum.splits)

lemma hex_decode_length: "hex_decode s = Inr bs \<Longrightarrow> length bs = 16"
  using hex_pairs_length [of s bs] by (simp add: hex_decode_def split: if_splits)

lemma load_entries_good:
  "try_for load_line ls [] = Inr entries \<Longrightarrow> list_all (\<lambda>(n, t). length n = 16 \<and> is_i64 t) entries"
  by (erule try_for_invariant)
    (auto simp: load_line_def Let_def dest: hex_decode_length parse_i64_range
      split: if_splits option.splits sum.splits prod.splits)

lemma load_ok:
  assumes "is_i64 ttl" and "NonceStore_load_from fs p ttl = Inr s"
  shows "nonce_ok s"
proof (cases "\<exists>raw. fs_read_to_string fs p = Inr raw")
  case True
  with assms(2) obtain ls entries where e: "try_for load_line ls [] = Inr entries"
      and s: "s = (NonceStore_new ttl)\<lparr>ns_inner := hm_collect entries\<rparr>"
    by (auto simp: NonceStore_load_from_def hm_collect_def Let_def split: sum.splits io_error.splits)
  have "length n = 16 \<and> is_i64 t" if "hm_get (hm_collect entries) n = Some t" for n t
    using that load_entries_good [OF e] by (auto simp: hm_get_collect list_all_iff dest!: map_of_SomeD)
  with nonce_ok_new [OF assms(1)] show ?thesis by (simp add: s nonce_ok_def)
next
  case False
  with assms nonce_ok_new show ?thesis
    by (auto simp: NonceStore_load_from_def split: sum.splits io_error.splits)
qed

section \<open>What a file says\<close>

text \<open>
  A line of a nonce file, independently of the reader: after trimming, the text that \<^verbatim>\<open>persist_to\<close> writes for the nonce, in
  lower or upper case, a colon and a decimal \<open>i64\<close>. Blank lines are allowed.
\<close>

definition hex_lower :: "char \<Rightarrow> char" where
  "hex_lower c = (let k = of_char c :: nat in if 65 \<le> k \<and> k \<le> 70 then char_of (k + 32) else c)"

definition nonce_text :: "string \<Rightarrow> bytes \<Rightarrow> int \<Rightarrow> bool" where
  "nonce_text l n t \<longleftrightarrow> length n = 16 \<and>
     (\<exists>hex ts. trim l = hex @ COLON # ts \<and> map hex_lower hex = hex_encode n \<and> parse_i64 ts = Inr t)"

definition acceptable_line :: "string \<Rightarrow> bool" where
  "acceptable_line l \<longleftrightarrow> trim l = [] \<or> (\<exists>n t. nonce_text l n t)"

fun fault_line :: "malformed_nonce \<Rightarrow> nat" where
  "fault_line (MissingColon i) = i"
| "fault_line (BadHex i _) = i"
| "fault_line (BadTimestamp i _) = i"

lemma nibble_nat:
  assumes "k < 256"
  shows "hex_nibble (of_nat k) = Inr d \<longleftrightarrow>
    (48 \<le> k \<and> k \<le> 57 \<and> unat d = k - 48 \<or> 97 \<le> k \<and> k \<le> 102 \<and> unat d = k - 87 \<or> 65 \<le> k \<and> k \<le> 70 \<and> unat d = k - 55)"
proof -
  have u: "unat (of_nat k :: u8) = k" using assms by (simp add: unat_of_nat)
  then show ?thesis
    by (auto simp: hex_nibble_def word_le_nat_alt word_unat_eq_iff unat_sub unat_word_ariths)
qed

lemma of_char_hex_lower: "(of_char (hex_lower c) :: nat) = (let k = of_char c in if 65 \<le> k \<and> k \<le> 70 then k + 32 else k)"
  by (simp add: hex_lower_def Let_def)

lemma of_char_hex_digit: "d < 16 \<Longrightarrow> (of_char (hex_digit d) :: nat) = (if d < 10 then 48 + d else 87 + d)"
  by (simp add: hex_digit_def)

lemma nibble_arith:
  "(48 \<le> k \<and> k \<le> 57 \<and> d = k - 48 \<or> 97 \<le> k \<and> k \<le> 102 \<and> d = k - 87 \<or> 65 \<le> k \<and> k \<le> 70 \<and> d = k - 55) \<longleftrightarrow>
     d < 16 \<and> (if 65 \<le> k \<and> k \<le> 70 then k + 32 else k) = (if d < 10 then 48 + d else 87 + d)" for d k :: nat
  by auto

lemma nibble_char: "hex_nibble (of_char c) = Inr d \<longleftrightarrow> unat d < 16 \<and> hex_lower c = hex_digit (unat d)"
proof -
  define k :: nat where "k = of_char c"
  have "k mod 256 = k" unfolding k_def by (rule of_char_mod_256)
  then have k: "k < 256" by (metis mod_less_divisor zero_less_numeral)
  have u8: "(of_char c :: u8) = of_nat k" by (simp add: k_def of_char_def)
  have "hex_lower c = hex_digit (unat d) \<longleftrightarrow> (of_char (hex_lower c) :: nat) = of_char (hex_digit (unat d))" by simp
  also have "\<dots> \<longleftrightarrow> (if 65 \<le> k \<and> k \<le> 70 then k + 32 else k) = (if unat d < 10 then 48 + unat d else 87 + unat d)" if "unat d < 16"
    unfolding of_char_hex_lower of_char_hex_digit [OF that] k_def [symmetric] Let_def by (rule refl)
  finally show ?thesis unfolding u8 nibble_nat [OF k] nibble_arith by blast
qed

lemma byte_of_two: "unat (hi :: u8) < 16 \<Longrightarrow> unat (lo :: u8) < 16 \<Longrightarrow>
    unat (push_bit 4 hi OR lo) div 16 = unat hi \<and> unat (push_bit 4 hi OR lo) mod 16 = unat lo"
proof -
  have all: "\<forall>a \<in> set [0..<16]. \<forall>b \<in> set [0..<16].
      unat (push_bit 4 (of_nat a) OR of_nat b :: u8) div 16 = a \<and> unat (push_bit 4 (of_nat a) OR of_nat b :: u8) mod 16 = b"
    by code_simp
  assume "unat hi < 16" "unat lo < 16"
  then show ?thesis using all [rule_format, of "unat hi" "unat lo"] by simp
qed

lemma hex_encode_Cons: "hex_encode (x # xs) = hex_digit (unat x div 16) # hex_digit (unat x mod 16) # hex_encode xs"
  by (simp add: hex_encode_def)

lemma nibbles_of_byte:
  "(\<exists>hi lo. hex_nibble (of_char a) = Inr hi \<and> hex_nibble (of_char b) = Inr lo \<and> push_bit 4 hi OR lo = (x :: u8)) \<longleftrightarrow>
     hex_lower a = hex_digit (unat x div 16) \<and> hex_lower b = hex_digit (unat x mod 16)" (is "?nibbles \<longleftrightarrow> ?text")
proof
  assume ?nibbles
  then show ?text using byte_of_two by (auto simp: nibble_char)
next
  have "unat x < 256" using unsigned_less [where ?'a = nat, of x] by simp
  then have small: "unat (of_nat (unat x div 16) :: u8) = unat x div 16" "unat (of_nat (unat x mod 16) :: u8) = unat x mod 16"
      "unat x div 16 < 16"
    by (simp_all add: unat_of_nat)
  assume ?text
  then show ?nibbles
    using small byte_of_nibbles [of x] by (intro exI [of _ "of_nat (unat x div 16)"] exI [of _ "of_nat (unat x mod 16)"])
      (simp add: nibble_char)
qed

lemma hex_pairs_iff: "even (length s) \<Longrightarrow> hex_pairs s = Inr n \<longleftrightarrow> map hex_lower s = hex_encode n"
proof (induction s arbitrary: n rule: induct_list012)
  case (3 a b s)
  show ?case
  proof (cases n)
    case Nil
    then show ?thesis by (auto simp: hex_encode_def split: sum.splits)
  next
    case (Cons x xs)
    have "hex_pairs (a # b # s) = Inr n \<longleftrightarrow>
        (\<exists>hi lo. hex_nibble (of_char a) = Inr hi \<and> hex_nibble (of_char b) = Inr lo \<and> push_bit 4 hi OR lo = x) \<and> hex_pairs s = Inr xs"
      using Cons by (auto split: sum.splits)
    also have "\<dots> \<longleftrightarrow> map hex_lower (a # b # s) = hex_encode n"
      unfolding nibbles_of_byte using 3 Cons by (simp add: hex_encode_Cons)
    finally show ?thesis .
  qed
next
  case 1
  show ?case by (cases n) (simp_all add: hex_encode_def)
qed simp

lemma hex_decode_iff: "hex_decode s = Inr n \<longleftrightarrow> length n = 16 \<and> map hex_lower s = hex_encode n"
proof -
  have "length s = 2 * length n" if "map hex_lower s = hex_encode n"
    using arg_cong [OF that, of length] by (simp add: length_hex_encode)
  then show ?thesis using hex_pairs_iff [of s n] by (auto simp: hex_decode_def split: if_splits)
qed

lemma hex_no_colon: "map hex_lower hex = hex_encode n \<Longrightarrow> COLON \<notin> set hex"
proof
  assume "map hex_lower hex = hex_encode n" "COLON \<in> set hex"
  then have "hex_lower COLON \<in> set (hex_encode n)" by (metis image_eqI set_map)
  moreover have "hex_lower COLON = COLON" by (simp add: hex_lower_def)
  ultimately show False using hex_encode_chars [of COLON n] by simp
qed

lemma load_line_iff:
  "load_line (i, l) acc = Inr acc' \<longleftrightarrow>
     (trim l = [] \<and> acc' = acc) \<or> (\<exists>n t. nonce_text l n t \<and> acc' = acc @ [(n, t)])"
proof -
  have "split_once COLON (trim l) = Some (hex, ts) \<and> hex_decode hex = Inr n \<longleftrightarrow>
      trim l = hex @ COLON # ts \<and> length n = 16 \<and> map hex_lower hex = hex_encode n" for hex ts n
    using split_once_append [of COLON hex ts] split_once_SomeD [of COLON "trim l" hex ts] hex_no_colon [of hex n]
    by (auto simp: hex_decode_iff)
  then have tx: "nonce_text l n t \<longleftrightarrow>
      (\<exists>hex ts. split_once COLON (trim l) = Some (hex, ts) \<and> hex_decode hex = Inr n \<and> parse_i64 ts = Inr t)" for n t
    unfolding nonce_text_def by blast
  show ?thesis
    unfolding tx by (auto simp: load_line_def Let_def split: option.splits sum.splits prod.splits)
qed

lemma load_line_acceptable: "is_ok (load_line (i, l) acc) \<longleftrightarrow> acceptable_line l"
proof -
  have "is_ok (load_line (i, l) acc) \<longleftrightarrow> (\<exists>acc'. load_line (i, l) acc = Inr acc')" by (cases "load_line (i, l) acc") auto
  then show ?thesis unfolding load_line_iff acceptable_line_def by blast
qed

lemma load_line_error:
  "load_line (i, l) acc = Inl e \<Longrightarrow> \<exists>f. e = MalformedLine f \<and> fault_line f = i"
  by (auto simp: load_line_def Let_def split: if_splits option.splits sum.splits prod.splits)

text \<open>The entries of a file are those of its lines, in order.\<close>

definition line_entries :: "string \<Rightarrow> (bytes \<times> int) list" where
  "line_entries l = projr (load_line (0, l) [])"

lemma load_line_append:
  "load_line x acc = (case load_line x [] of Inl e \<Rightarrow> Inl e | Inr es \<Rightarrow> Inr (acc @ es))"
  by (cases x) (simp add: load_line_def Let_def split: option.split sum.split prod.split)

lemma load_line_entries:
  assumes "acceptable_line l"
  shows "load_line (i, l) [] = Inr (line_entries l)"
proof -
  obtain es where es: "load_line (0, l) [] = Inr es"
    using assms load_line_acceptable [of 0 l "[]"] by (cases "load_line (0, l) []") auto
  then have "load_line (i, l) [] = Inr es" by (simp only: load_line_iff)
  with es show ?thesis by (simp add: line_entries_def)
qed

lemma nonce_text_entries: "nonce_text l n t \<Longrightarrow> line_entries l = [(n, t)]"
  using load_line_iff [of 0 l "[]" "[(n, t)]"] by (auto simp: line_entries_def)

lemma last_of_line:
  assumes "acceptable_line l"
  shows "map_of (rev (line_entries l)) n = Some t \<longleftrightarrow> nonce_text l n t"
proof (cases "trim l = []")
  case True
  then have "load_line (0, l) [] = Inr []" "\<not> nonce_text l n t" by (simp_all add: load_line_iff nonce_text_def)
  then show ?thesis by (simp add: line_entries_def)
next
  case False
  then obtain n' t' where "nonce_text l n' t'" using assms by (auto simp: acceptable_line_def)
  then show ?thesis using nonce_text_entries [of l n' t'] nonce_text_entries [of l n t] by auto
qed

lemma load_lines:
  assumes "length is = length ls"
  shows "try_for load_line (zip is ls) [] = Inr es \<longleftrightarrow>
     (\<forall>l \<in> set ls. acceptable_line l) \<and> es = concat (map line_entries ls)"
proof -
  have "concat (map (projr \<circ> (\<lambda>x. load_line x [])) (zip is ls)) = concat (map line_entries ls)" if "\<forall>l \<in> set ls. acceptable_line l"
    using assms that by (induction "is" ls rule: list_induct2) (simp_all add: load_line_entries)
  moreover have "(\<forall>x \<in> set (zip is ls). is_ok (load_line x [])) \<longleftrightarrow> (\<forall>l \<in> set ls. acceptable_line l)"
    using assms by (induction "is" ls rule: list_induct2) (simp_all add: load_line_acceptable)
  ultimately show ?thesis
    using try_for_append_iff [of load_line "\<lambda>x. load_line x []" "zip is ls" "[]" es, OF load_line_append] by auto
qed

lemma last_entry:
  assumes "\<forall>l \<in> set ls. acceptable_line l"
  shows "map_of (rev (concat (map line_entries ls))) n = Some t \<longleftrightarrow>
    (\<exists>pre l post. ls = pre @ l # post \<and> nonce_text l n t \<and> (\<forall>l' \<in> set post. \<forall>t'. \<not> nonce_text l' n t'))"
  using assms
proof (induction ls rule: rev_induct)
  case (snoc l ls)
  have split: "(\<exists>pre l' post. ls @ [l] = pre @ l' # post \<and> P l' \<and> (\<forall>x \<in> set post. Q x)) \<longleftrightarrow>
      P l \<or> (\<exists>pre l' post. ls = pre @ l' # post \<and> P l' \<and> (\<forall>x \<in> set post. Q x)) \<and> Q l" for P Q
  proof (intro iffI; (elim exE conjE disjE)?)
    fix pre l' post assume "ls @ [l] = pre @ l' # post" "P l'" "\<forall>x \<in> set post. Q x"
    then show "P l \<or> (\<exists>pre l' post. ls = pre @ l' # post \<and> P l' \<and> (\<forall>x \<in> set post. Q x)) \<and> Q l"
      by (cases post rule: rev_cases) auto
  next
    assume "P l"
    then show "\<exists>pre l' post. ls @ [l] = pre @ l' # post \<and> P l' \<and> (\<forall>x \<in> set post. Q x)"
      by (intro exI [of _ ls] exI [of _ l] exI [of _ "[]"]) simp
  next
    fix pre l' post assume "ls = pre @ l' # post" "P l'" "\<forall>x \<in> set post. Q x" "Q l"
    then show "\<exists>pre l' post. ls @ [l] = pre @ l' # post \<and> P l' \<and> (\<forall>x \<in> set post. Q x)"
      by (intro exI [of _ pre] exI [of _ l'] exI [of _ "post @ [l]"]) simp
  qed
  have l: "acceptable_line l" using snoc.prems by simp
  note one = last_of_line [OF l, of n]
  have none: "map_of (rev (line_entries l)) n = None \<longleftrightarrow> (\<forall>t'. \<not> nonce_text l n t')" using one by (metis not_Some_eq)
  have "map_of (rev (concat (map line_entries (ls @ [l])))) n = Some t \<longleftrightarrow>
      nonce_text l n t \<or> (\<forall>t'. \<not> nonce_text l n t') \<and> map_of (rev (concat (map line_entries ls))) n = Some t"
    by (simp add: map_add_Some_iff one none)
  with snoc show ?case unfolding split by auto
qed simp

lemma load_fails:
  assumes "try_for load_line (numbered_lines raw) [] = Inl e"
  shows "\<exists>pre l post f. lines raw = pre @ l # post \<and> (\<forall>l' \<in> set pre. acceptable_line l') \<and> \<not> acceptable_line l \<and>
    e = MalformedLine f \<and> fault_line f = Suc (length pre)"
proof -
  let ?ls = "lines raw"
  let ?is = "[1..<Suc (length ?ls)]"
  have len: "length ?is = length ?ls" by (simp del: upt_Suc)
  from try_for_Inl [OF assms] obtain pre i l post acc where x: "zip ?is ?ls = pre @ (i, l) # post"
    "try_for load_line pre [] = Inr acc" "load_line (i, l) acc = Inl e"
    by (auto simp: numbered_lines_def simp del: upt_Suc)
  have parts: "?ls = map snd pre @ l # map snd post" "?is = map fst pre @ i # map fst post"
    using arg_cong [OF x(1), of "map snd"] arg_cong [OF x(1), of "map fst"] len by (simp_all del: upt_Suc)
  have "i = Suc (length pre)"
    using arg_cong [OF parts(2), of "\<lambda>is. is ! length pre"] arg_cong [OF x(1), of length] len
    by (simp add: nth_append del: upt_Suc)
  moreover have "\<forall>l' \<in> set (map snd pre). acceptable_line l'"
    using load_lines [of "map fst pre" "map snd pre" acc] x(2) by (simp add: zip_map_fst_snd)
  moreover have "\<not> acceptable_line l" using x(3) load_line_acceptable [of i l acc] by simp
  ultimately show ?thesis using parts(1) load_line_error [OF x(3)] by (metis length_map)
qed

lemma load_read:
  assumes "try_for load_line (numbered_lines raw) [] = Inr es"
  shows "(\<forall>l \<in> set (lines raw). acceptable_line l) \<and> es = concat (map line_entries (lines raw))"
  using assms load_lines [of "[1..<Suc (length (lines raw))]" "lines raw" es] by (simp add: numbered_lines_def del: upt_Suc)

text \<open>
  C36. Loading a nonce file is exact, whatever the file contains. A missing file is an empty store, and any other failure to
  read it is reported. Otherwise either every line is blank or an entry, and the store has for each nonce the time of the last line
  that names it, with the TTL that was asked for (60 if it is not positive), and from then on answers every history of checks and
  clean-ups as the specification that starts with that map; or the load fails with the number of the first line that
  is neither. No line is dropped, and no line is read as anything but what \<^verbatim>\<open>persist_to\<close> would have written.
\<close>

theorem nonce_load_exact:
  assumes "is_i64 ttl"
  shows "case fs_read_to_string fs p of
      Inl err \<Rightarrow> NonceStore_load_from fs p ttl = (if err = NotFound then Inr (NonceStore_new ttl) else Inl (NonceIo p err))
    | Inr raw \<Rightarrow>
        (case NonceStore_load_from fs p ttl of
           Inr s \<Rightarrow> (\<forall>l \<in> set (lines raw). acceptable_line l) \<and>
             (\<forall>n t. hm_get (ns_inner s) n = Some t \<longleftrightarrow>
                (\<exists>pre l post. lines raw = pre @ l # post \<and> nonce_text l n t \<and> (\<forall>l' \<in> set post. \<forall>t'. \<not> nonce_text l' n t'))) \<and>
             (\<forall>ops. list_all op_ok ops \<longrightarrow>
                answers store_step ops s = answers (spec_step (if 0 < ttl then ttl else 60)) ops (hm_get (ns_inner s)))
         | Inl e \<Rightarrow> \<exists>pre l post f. lines raw = pre @ l # post \<and> (\<forall>l' \<in> set pre. acceptable_line l') \<and> \<not> acceptable_line l \<and>
             e = MalformedLine f \<and> fault_line f = Suc (length pre))"
proof (cases "fs_read_to_string fs p")
  case (Inl err)
  then show ?thesis by (cases err) (simp_all add: NonceStore_load_from_def)
next
  case (Inr raw)
  note read = this
  show ?thesis
  proof (cases "NonceStore_load_from fs p ttl")
    case (Inl e)
    with read have "try_for load_line (numbered_lines raw) [] = Inl e"
      by (auto simp: NonceStore_load_from_def Let_def split: sum.splits)
    from load_fails [OF this] show ?thesis using read Inl by simp
  next
    case (Inr s)
    with read obtain es where es: "try_for load_line (numbered_lines raw) [] = Inr es"
        and s: "s = (NonceStore_new ttl)\<lparr>ns_inner := hm_collect es\<rparr>"
      by (auto simp: NonceStore_load_from_def hm_collect_def Let_def split: sum.splits)
    note ok = load_read [OF es]
    have "nonce_inv (if 0 < ttl then ttl else 60) s"
      using load_ok [OF assms Inr] by (simp add: nonce_inv_def s NonceStore_new_def)
    then have "answers store_step ops s = answers (spec_step (if 0 < ttl then ttl else 60)) ops (hm_get (ns_inner s))"
      if "list_all op_ok ops" for ops by (rule nonce_machine.same_answers [OF _ that])
    moreover have "hm_get (ns_inner s) = map_of (rev (concat (map line_entries (lines raw))))" using ok by (simp add: s hm_get_collect)
    ultimately show ?thesis using Inr read ok last_entry [OF conjunct1 [OF ok]] by simp
  qed
qed

text \<open>A file with two entries for one nonce, in both cases and with a blank line between, and one whose second line has no colon.\<close>

definition demo_nonce_file :: string where
  "demo_nonce_file = ''0102030405060708090a0B0C0D0E0F10:99'' @ [LF, LF] @ ''0102030405060708090A0b0c0d0e0f10:120'' @ [LF]"

definition demo_bad_file :: string where
  "demo_bad_file = ''0102030405060708090a0B0C0D0E0F10:99'' @ [LF] @ ''0102'' @ [LF]"

theorem nonce_load_exact_witness:
  "(\<exists>s. NonceStore_load_from (empty_fs\<lparr>fs_file := [[''n''] \<mapsto> demo_nonce_file]\<rparr>) [''n''] 0 = Inr s \<and>
      list_all acceptable_line (lines demo_nonce_file) \<and>
      answers store_step [Check (replicate 16 1) 200] s = answers (spec_step 60) [Check (replicate 16 1) 200] (hm_get (ns_inner s))) \<and>
   (\<exists>pre l post f. NonceStore_load_from (empty_fs\<lparr>fs_file := [[''n''] \<mapsto> demo_bad_file]\<rparr>) [''n''] 0 = Inl (MalformedLine f) \<and>
      lines demo_bad_file = pre @ l # post \<and> \<not> acceptable_line l \<and> fault_line f = Suc (length pre))"
proof
  let ?good = "empty_fs\<lparr>fs_file := [[''n''] \<mapsto> demo_nonce_file]\<rparr>" and ?bad = "empty_fs\<lparr>fs_file := [[''n''] \<mapsto> demo_bad_file]\<rparr>"
  have zero: "is_i64 0" by (simp add: i64_simps)
  have r: "fs_read_to_string ?good [''n''] = Inr demo_nonce_file" "fs_read_to_string ?bad [''n''] = Inr demo_bad_file"
    by (simp_all add: fs_read_to_string_def empty_fs_def)
  have "is_ok (NonceStore_load_from ?good [''n''] 0)" by code_simp
  then obtain s where s: "NonceStore_load_from ?good [''n''] 0 = Inr s" by (cases "NonceStore_load_from ?good [''n''] 0") simp_all
  have "list_all op_ok [Check (replicate 16 1) 200]" by (simp add: i64_simps)
  moreover have all: "(\<forall>l \<in> set (lines demo_nonce_file). acceptable_line l) \<and> (\<forall>ops. list_all op_ok ops \<longrightarrow>
      answers store_step ops s = answers (spec_step 60) ops (hm_get (ns_inner s)))"
    using nonce_load_exact [OF zero, of ?good "[''n'']"] r(1) s by simp
  moreover have "list_all acceptable_line (lines demo_nonce_file)" using all by (simp add: list_all_iff)
  ultimately show "\<exists>s. NonceStore_load_from ?good [''n''] 0 = Inr s \<and> list_all acceptable_line (lines demo_nonce_file) \<and>
      answers store_step [Check (replicate 16 1) 200] s = answers (spec_step 60) [Check (replicate 16 1) 200] (hm_get (ns_inner s))"
    using s by blast
  have "\<not> is_ok (NonceStore_load_from ?bad [''n''] 0)" by code_simp
  then obtain e where "NonceStore_load_from ?bad [''n''] 0 = Inl e" by (cases "NonceStore_load_from ?bad [''n''] 0") simp_all
  with nonce_load_exact [OF zero, of ?bad "[''n'']"] r(2)
  show "\<exists>pre l post f. NonceStore_load_from ?bad [''n''] 0 = Inl (MalformedLine f) \<and>
      lines demo_bad_file = pre @ l # post \<and> \<not> acceptable_line l \<and> fault_line f = Suc (length pre)"
    by auto
qed

end
