(* ===== verification/Nonce_Threads.thy ===== *)
theory Nonce_Threads
  imports Nonce_Store
begin

text \<open>
  Threads that call \<^verbatim>\<open>check_and_record\<close> of \<^verbatim>\<open>src/nonce_store.rs\<close> on one shared store: the step relation, the
  race for one nonce and the calls for distinct nonces.
\<close>

section \<open>Concurrent checks\<close>

text \<open>
  Threads calling \<^verbatim>\<open>check_and_record\<close> on one shared store. A call is two atomic steps: the
  \<^verbatim>\<open>fetch_add\<close> on the call counter, and the critical section under the mutex. The scheduler
  may run any thread at any time.
\<close>

datatype check_thread =
    Waiting bytes int
  | Counted bytes int
  | Done bytes int bool

record nonce_sys =
  sys_store :: NonceStore
  sys_threads :: "check_thread list"

inductive nonce_step :: "nonce_sys \<Rightarrow> nonce_sys \<Rightarrow> bool" where
  count: "i < length (sys_threads S) \<Longrightarrow> sys_threads S ! i = Waiting n t \<Longrightarrow>
    nonce_step S (S\<lparr>sys_store := count_check (sys_store S),
      sys_threads := (sys_threads S)[i := Counted n t]\<rparr>)"
| lock: "i < length (sys_threads S) \<Longrightarrow> sys_threads S ! i = Counted n t \<Longrightarrow>
    check_locked (sys_store S) n t = (Inr b, st) \<Longrightarrow>
    nonce_step S (S\<lparr>sys_store := st, sys_threads := (sys_threads S)[i := Done n t b]\<rparr>)"

inductive_cases nonce_stepE: "nonce_step S S'"

fun is_waiting :: "check_thread \<Rightarrow> bool" where
  "is_waiting (Waiting _ _) = True"
| "is_waiting _ = False"

fun is_done :: "check_thread \<Rightarrow> bool" where
  "is_done (Done _ _ _) = True"
| "is_done _ = False"

fun is_accepted :: "check_thread \<Rightarrow> bool" where
  "is_accepted (Done _ _ b) = b"
| "is_accepted _ = False"

fun thread_call :: "check_thread \<Rightarrow> bytes \<times> int" where
  "thread_call (Waiting n t) = (n, t)"
| "thread_call (Counted n t) = (n, t)"
| "thread_call (Done n t _) = (n, t)"

lemma length_filter_update:
  "i < length xs \<Longrightarrow> \<not> P (xs ! i) \<Longrightarrow>
     length (filter P (xs[i := x])) = length (filter P xs) + (if P x then 1 else 0)"
proof (induction xs arbitrary: i)
  case Nil
  then show ?case by simp
next
  case (Cons y ys)
  then show ?case by (cases i) auto
qed

lemma length_filter_update_same:
  "i < length xs \<Longrightarrow> P (xs ! i) \<Longrightarrow> P x \<Longrightarrow> length (filter P (xs[i := x])) = length (filter P xs)"
proof (induction xs arbitrary: i)
  case Nil
  then show ?case by simp
next
  case (Cons y ys)
  then show ?case by (cases i) auto
qed

text \<open>
  What every reachable state satisfies when all threads present the same nonce \<open>n\<close> within one
  TTL window: the calls are unchanged, at most one thread is accepted, and one is as soon as
  the nonce is in the map, which it is once any thread is done.
\<close>

definition race_inv :: "bytes \<Rightarrow> int \<Rightarrow> int list \<Rightarrow> nonce_sys \<Rightarrow> bool" where
  "race_inv n ttl ts S \<longleftrightarrow>
     nonce_ok (sys_store S) \<and> ns_ttl_secs (sys_store S) = ttl \<and>
     map thread_call (sys_threads S) = map (Pair n) ts \<and>
     length (filter is_accepted (sys_threads S))
       = (if hm_get (ns_inner (sys_store S)) n = None then 0 else 1) \<and>
     (\<forall>r. hm_get (ns_inner (sys_store S)) n = Some r \<longrightarrow> r \<in> set ts) \<and>
     (hm_get (ns_inner (sys_store S)) n = None \<longrightarrow>
       length (filter is_done (sys_threads S)) = 0) \<and>
     ns_total_check_calls (sys_store S) =
       of_nat (length (filter (\<lambda>th. \<not> is_waiting th) (sys_threads S)))"

lemma thread_call_update:
  "i < length ths \<Longrightarrow> thread_call (ths ! i) = thread_call x \<Longrightarrow>
     map thread_call (ths[i := x]) = map thread_call ths"
  by (simp add: map_update) (metis length_map list_update_id nth_map)

lemma race_call:
  assumes "race_inv n ttl ts S" and "i < length (sys_threads S)"
  shows "\<exists>t \<in> set ts. thread_call (sys_threads S ! i) = (n, t)"
proof -
  have "thread_call (sys_threads S ! i) = map thread_call (sys_threads S) ! i"
    using assms(2) by simp
  moreover have "map thread_call (sys_threads S) = map (Pair n) ts" and "i < length ts"
    using assms by (auto simp: race_inv_def dest: map_eq_imp_length_eq)
  ultimately show ?thesis by force
qed

lemma check_locked_calls [simp]:
  "ns_total_check_calls (snd (check_locked s n t)) = ns_total_check_calls s"
  by (simp add: check_locked_def split: option.split)

lemma race_count:
  assumes "race_inv n ttl ts S" and "i < length (sys_threads S)"
    and "sys_threads S ! i = Waiting m t"
  shows "race_inv n ttl ts (S\<lparr>sys_store := count_check (sys_store S),
    sys_threads := (sys_threads S)[i := Counted m t]\<rparr>)"
  using assms length_filter_update [of i "sys_threads S" is_accepted "Counted m t"]
    length_filter_update [of i "sys_threads S" is_done "Counted m t"]
    length_filter_update [of i "sys_threads S" "\<lambda>th. \<not> is_waiting th" "Counted m t"]
  by (auto simp: race_inv_def thread_call_update count_check_simps(6) calls_count_check)

lemma race_lock:
  assumes inv: "race_inv n ttl ts S" and i: "i < length (sys_threads S)"
    and th: "sys_threads S ! i = Counted m t"
    and chk: "check_locked (sys_store S) m t = (Inr b, st)"
    and win: "\<forall>t \<in> set ts. \<forall>t' \<in> set ts. t - t' < ttl"
    and good: "length n = 16" "\<forall>t \<in> set ts. is_i64 t"
  shows "race_inv n ttl ts (S\<lparr>sys_store := st, sys_threads := (sys_threads S)[i := Done m t b]\<rparr>)"
proof -
  from race_call [OF inv i] th have m: "m = n" and t: "t \<in> set ts" by auto
  have ok: "nonce_ok (sys_store S)" using inv by (simp add: race_inv_def)
  note res = check_locked_result [OF ok, of m t, unfolded chk, simplified]
  have stok: "nonce_ok st" using check_locked_ok [OF ok, of m t] chk good m t by simp
  have calls: "ns_total_check_calls st = ns_total_check_calls (sys_store S)"
    using check_locked_calls [of "sys_store S" m t] chk by simp
  have rep: "replayed (sys_store S) n t \<longleftrightarrow> hm_get (ns_inner (sys_store S)) n \<noteq> None"
    using inv win t by (auto simp: replayed_def race_inv_def)
  note upd = length_filter_update [OF i, of is_accepted "Done m t b"]
  have nw: "length (filter (\<lambda>th. \<not> is_waiting th) ((sys_threads S)[i := Done m t b]))
      = length (filter (\<lambda>th. \<not> is_waiting th) (sys_threads S))"
    using i th by (intro length_filter_update_same) simp_all
  show ?thesis
    using inv i th m t stok calls res rep upd nw nonce_okD(1) [OF ok]
    by (auto simp: race_inv_def thread_call_update hm.get_insert)
qed

definition race_start :: "bytes \<Rightarrow> int \<Rightarrow> int list \<Rightarrow> nonce_sys" where
  "race_start n ttl ts = \<lparr>sys_store = NonceStore_new ttl, sys_threads = map (Waiting n) ts\<rparr>"

lemma race_start_inv: "0 < ttl \<Longrightarrow> is_i64 ttl \<Longrightarrow> race_inv n ttl ts (race_start n ttl ts)"
  by (simp add: race_inv_def race_start_def nonce_ok_new hm.get_new comp_def)
    (simp add: NonceStore_new_def)

lemma race_reachable:
  assumes "nonce_step\<^sup>*\<^sup>* (race_start n ttl ts) S"
    and "0 < ttl" and "is_i64 ttl" and "length n = 16"
    and "\<forall>t \<in> set ts. is_i64 t" and "\<forall>t \<in> set ts. \<forall>t' \<in> set ts. t - t' < ttl"
  shows "race_inv n ttl ts S"
  using assms(1)
proof (induction rule: rtranclp_induct)
  case base
  show ?case using assms(2,3) by (rule race_start_inv)
next
  case (step S S')
  from step.hyps(2) step.IH show ?case
    by (elim nonce_stepE) (use assms in \<open>auto intro!: race_count race_lock\<close>)
qed

lemma race_result:
  assumes "nonce_step\<^sup>*\<^sup>* (race_start n ttl ts) S" and "list_all is_done (sys_threads S)"
    and "0 < ttl" and "is_i64 ttl" and "length n = 16" and "ts \<noteq> []"
    and "\<forall>t \<in> set ts. is_i64 t" and "\<forall>t \<in> set ts. \<forall>t' \<in> set ts. t - t' < ttl"
  shows "length (filter is_accepted (sys_threads S)) = 1 \<and>
    ns_total_check_calls (sys_store S) = of_nat (length ts)"
proof -
  have inv: "race_inv n ttl ts S" using assms by (intro race_reachable) auto
  have len: "length (sys_threads S) = length ts"
    using inv by (auto simp: race_inv_def dest: map_eq_imp_length_eq)
  have all_done: "filter is_done (sys_threads S) = sys_threads S"
    and not_waiting: "filter (\<lambda>th. \<not> is_waiting th) (sys_threads S) = sys_threads S"
    using assms(2) by (auto simp: list_all_iff filter_id_conv elim!: is_done.elims)
  then have "hm_get (ns_inner (sys_store S)) n \<noteq> None"
    using inv len assms(6) by (auto simp: race_inv_def)
  with inv len not_waiting show ?thesis by (simp add: race_inv_def)
qed

text \<open>
  C18. Under every interleaving of threads that present the same fresh nonce within one TTL
  window, exactly one is accepted once all have finished, and the call counter has counted
  each of them.
\<close>

theorem concurrent_checks_accept_once:
  assumes "nonce_step\<^sup>*\<^sup>* (race_start n ttl ts) S" and "list_all is_done (sys_threads S)"
    and "0 < ttl" and "is_i64 ttl" and "length n = 16" and "ts \<noteq> []"
    and "\<forall>t \<in> set ts. is_i64 t" and "\<forall>t \<in> set ts. \<forall>t' \<in> set ts. t - t' < ttl"
  shows "length (filter is_accepted (sys_threads S)) = 1 \<and>
    ns_total_check_calls (sys_store S) = of_nat (length ts)"
  using assms by (rule race_result)

theorem concurrent_checks_accept_once_witness:
  "\<exists>S. nonce_step\<^sup>*\<^sup>* (race_start (replicate 16 99) 300 [1700000000, 1700000000]) S \<and>
     list_all is_done (sys_threads S) \<and> length (filter is_accepted (sys_threads S)) = 1"
proof -
  let ?n = "replicate 16 (99 :: u8)" and ?t = "1700000000 :: int"
  let ?S0 = "race_start ?n 300 [?t, ?t]"
  let ?S1 = "?S0\<lparr>sys_store := count_check (sys_store ?S0), sys_threads := [Counted ?n ?t, Waiting ?n ?t]\<rparr>"
  let ?S2 = "?S1\<lparr>sys_store := count_check (sys_store ?S1), sys_threads := [Counted ?n ?t, Counted ?n ?t]\<rparr>"
  let ?st3 = "snd (check_locked (sys_store ?S2) ?n ?t)"
  let ?S3 = "?S2\<lparr>sys_store := ?st3, sys_threads := [Counted ?n ?t, Done ?n ?t True]\<rparr>"
  let ?st4 = "snd (check_locked ?st3 ?n ?t)"
  let ?S4 = "?S3\<lparr>sys_store := ?st4, sys_threads := [Done ?n ?t False, Done ?n ?t True]\<rparr>"
  have chk: "check_locked (sys_store ?S2) ?n ?t = (Inr True, ?st3)"
      "check_locked ?st3 ?n ?t = (Inr False, ?st4)"
    by (simp_all add: check_locked_def count_check_def race_start_def NonceStore_new_def hm.get_new
        hm.get_insert i64_saturating_sub_def i64_simps)
  have "nonce_step ?S0 ?S1"
    using nonce_step.count [of 0 ?S0 ?n ?t] by (simp add: race_start_def)
  moreover have "nonce_step ?S1 ?S2"
    using nonce_step.count [of 1 ?S1 ?n ?t] by simp
  moreover have "nonce_step ?S2 ?S3"
    using nonce_step.lock [of 1 ?S2 ?n ?t, OF _ _ chk(1)] by simp
  moreover have "nonce_step ?S3 ?S4"
    using nonce_step.lock [of 0 ?S3 ?n ?t False ?st4] chk(2) by simp
  ultimately have run: "nonce_step\<^sup>*\<^sup>* ?S0 ?S4"
    by (meson converse_rtranclp_into_rtranclp rtranclp.rtrancl_refl)
  have "length (filter is_accepted (sys_threads ?S4)) = 1"
    using concurrent_checks_accept_once [OF run] by (simp add: i64_simps)
  with run show ?thesis by (intro exI [of _ ?S4]) simp
qed

section \<open>Distinct nonces\<close>

text \<open>
  What every reachable state satisfies when the threads present distinct nonces to a fresh store: a
  thread is done exactly when its nonce is in the map, it was accepted, and the counters and the size count
  the steps taken.
\<close>

definition load_inv :: "(bytes \<times> int) list \<Rightarrow> nonce_sys \<Rightarrow> bool" where
  "load_inv calls S \<longleftrightarrow>
     hm_wf (ns_inner (sys_store S)) \<and> map thread_call (sys_threads S) = calls \<and>
     (\<forall>i < length calls. if is_done (sys_threads S ! i) then is_accepted (sys_threads S ! i)
        else hm_get (ns_inner (sys_store S)) (fst (calls ! i)) = None) \<and>
     ns_total_check_calls (sys_store S) = of_nat (length (filter (\<lambda>th. \<not> is_waiting th) (sys_threads S))) \<and>
     ns_total_accepted (sys_store S) = of_nat (length (filter is_done (sys_threads S))) \<and>
     ns_total_rejected_replay (sys_store S) = 0 \<and> ns_total_accepted_after_ttl (sys_store S) = 0 \<and>
     NonceStore_len (sys_store S) = length (filter is_done (sys_threads S))"

definition load_start :: "int \<Rightarrow> (bytes \<times> int) list \<Rightarrow> nonce_sys" where
  "load_start ttl calls = \<lparr>sys_store = NonceStore_new ttl, sys_threads = map (\<lambda>(n, t). Waiting n t) calls\<rparr>"

lemma load_start_inv: "load_inv calls (load_start ttl calls)"
  by (auto simp: load_inv_def load_start_def hm.get_new comp_def case_prod_beta filter_False)

lemma load_count:
  assumes "load_inv calls S" and "i < length (sys_threads S)" and "sys_threads S ! i = Waiting n t"
  shows "load_inv calls (S\<lparr>sys_store := count_check (sys_store S), sys_threads := (sys_threads S)[i := Counted n t]\<rparr>)"
  using assms map_eq_imp_length_eq [of thread_call "sys_threads S" "\<lambda>c. c" calls]
    length_filter_update [of i "sys_threads S" is_done "Counted n t"]
    length_filter_update [of i "sys_threads S" "\<lambda>th. \<not> is_waiting th" "Counted n t"]
  by (auto simp: load_inv_def thread_call_update calls_count_check NonceStore_len_def nth_list_update)

lemma load_lock:
  assumes inv: "load_inv calls S" and i: "i < length (sys_threads S)" "sys_threads S ! i = Counted n t"
    and st: "check_locked (sys_store S) n t = (Inr b, st)" and d: "distinct (map fst calls)"
  shows "load_inv calls (S\<lparr>sys_store := st, sys_threads := (sys_threads S)[i := Done n t b]\<rparr>)"
proof -
  have len: "length (sys_threads S) = length calls" using inv by (auto simp: load_inv_def)
  have "thread_call (sys_threads S ! i) = calls ! i" using inv i(1) unfolding load_inv_def by (metis nth_map)
  then have call: "calls ! i = (n, t)" using i(2) by simp
  have other: "fst (calls ! j) \<noteq> n" if "j < length calls" "j \<noteq> i" for j
    using that d call i(1) len by (metis fst_conv length_map nth_eq_iff_index_eq nth_map)
  have "\<not> is_done (sys_threads S ! i)" "i < length calls" using i len by simp_all
  then have "hm_get (ns_inner (sys_store S)) n = None" using inv call unfolding load_inv_def by (metis fst_conv)
  then have st': "b" "st = (sys_store S)\<lparr>ns_total_accepted := ns_total_accepted (sys_store S) + 1,
      ns_inner := hm_insert n t (ns_inner (sys_store S))\<rparr>" and get: "hm_get (ns_inner (sys_store S)) n = None"
    using st by (auto simp: check_locked_def)
  have nw: "length (filter (\<lambda>th. \<not> is_waiting th) ((sys_threads S)[i := Done n t b])) =
      length (filter (\<lambda>th. \<not> is_waiting th) (sys_threads S))"
    using i by (intro length_filter_update_same) simp_all
  have dn: "length (filter is_done ((sys_threads S)[i := Done n t b])) = Suc (length (filter is_done (sys_threads S)))"
    using i length_filter_update [of i "sys_threads S" is_done "Done n t b"] by simp
  show ?thesis
    using inv i len other get nw dn
    by (auto simp: load_inv_def st' thread_call_update NonceStore_len_def hm.get_insert hm.len_insert nth_list_update)
qed

text \<open>Under every interleaving, calls for distinct nonces are all accepted and all counted.\<close>

lemma distinct_checks_all_accepted:
  assumes "nonce_step\<^sup>*\<^sup>* (load_start ttl calls) S" and "list_all is_done (sys_threads S)" and "distinct (map fst calls)"
  shows "list_all is_accepted (sys_threads S) \<and>
    NonceStore_metrics (sys_store S) = \<lparr>nm_total_check_calls = of_nat (length calls), nm_total_accepted = of_nat (length calls),
      nm_total_rejected_replay = 0, nm_total_accepted_after_ttl = 0, nm_current_size = length calls\<rparr>"
proof -
  have inv: "load_inv calls S" using assms(1)
  proof (induction rule: rtranclp_induct)
    case base
    show ?case by (rule load_start_inv)
  next
    case (step S S')
    from step.hyps(2) step.IH show ?case by (elim nonce_stepE) (use assms(3) in \<open>auto intro!: load_count load_lock\<close>)
  qed
  have f: "filter is_done (sys_threads S) = sys_threads S" "filter (\<lambda>th. \<not> is_waiting th) (sys_threads S) = sys_threads S"
    using assms(2) by (auto simp: list_all_iff filter_id_conv elim!: is_done.elims)
  have len: "length (sys_threads S) = length calls" using inv by (auto simp: load_inv_def)
  with inv f assms(2) show ?thesis by (auto simp: load_inv_def NonceStore_metrics_def list_all_length)
qed

end
