(* ===== verification/Sync.thy ===== *)
theory Sync
  imports Rust_Str Rust_Fs Rust_Map "HOL-Library.Char_ord" "HOL-Library.List_Lexorder"
begin

text \<open>
  \<^verbatim>\<open>src/sync.rs\<close>: file records, the directory walk, restoring modification times and the
  difference of two listings. The enumeration of \<^verbatim>\<open>walkdir\<close>, the schedule of \<^verbatim>\<open>rayon\<close> and the call
  of \<^verbatim>\<open>filetime\<close> are other crates and enter as arguments; the file system answers \<open>stat\<close> (which
  is \<^verbatim>\<open>std::fs::metadata\<close> and follows symbolic links). Path components are UTF-8 strings.
\<close>

section \<open>Modification times\<close>

datatype Mtime = Mtime (mt_secs: int) (mt_nanos: u32)

text \<open>The derived order compares the fields in their order.\<close>

definition Mtime_le :: "Mtime \<Rightarrow> Mtime \<Rightarrow> bool" where
  "Mtime_le a b \<longleftrightarrow> mt_secs a < mt_secs b \<or> mt_secs a = mt_secs b \<and> mt_nanos a \<le> mt_nanos b"

definition Mtime_lt :: "Mtime \<Rightarrow> Mtime \<Rightarrow> bool" where
  "Mtime_lt a b \<longleftrightarrow> mt_secs a < mt_secs b \<or> mt_secs a = mt_secs b \<and> mt_nanos a < mt_nanos b"

instantiation Mtime :: linorder
begin

definition less_eq_Mtime :: "Mtime \<Rightarrow> Mtime \<Rightarrow> bool" where
  "less_eq_Mtime = Mtime_le"

definition less_Mtime :: "Mtime \<Rightarrow> Mtime \<Rightarrow> bool" where
  "less_Mtime = Mtime_lt"

instance
  by standard (auto simp: less_eq_Mtime_def less_Mtime_def Mtime_le_def Mtime_lt_def intro: Mtime.expand)

end

definition Mtime_ZERO :: Mtime where
  "Mtime_ZERO = Mtime 0 0"

definition Mtime_from_system_time :: "system_time \<Rightarrow> Mtime option" where
  "Mtime_from_system_time t =
     (case duration_since_epoch t of
        None \<Rightarrow> None
      | Some dur \<Rightarrow> Some (Mtime (i64_wrap (int (as_secs dur))) (subsec_nanos dur)))"

definition Mtime_is_known :: "Mtime \<Rightarrow> bool" where
  "Mtime_is_known m \<longleftrightarrow> mt_secs m > 0 \<or> mt_nanos m > 0"

text \<open>The metadata the program reads; \<open>md_modified\<close> is \<open>None\<close> where the platform has no time.\<close>

record metadata =
  md_is_dir :: bool
  md_len :: u64
  md_modified :: "system_time option"
  md_mode :: u32

definition Mtime_from_metadata :: "metadata \<Rightarrow> Mtime option" where
  "Mtime_from_metadata meta = Option.bind (md_modified meta) Mtime_from_system_time"

section \<open>Records and errors\<close>

record FileEntry =
  fe_path :: string
  fe_size :: u64
  fe_mtime :: Mtime
  fe_executable :: bool
  fe_mode :: u32

datatype SyncError =
    NotADirectory path
  | SyncWalk path io_error
  | SyncMtime path io_error
  | PathEscape string

definition unix_mode :: "metadata \<Rightarrow> u32" where
  "unix_mode meta = md_mode meta"

definition build_entry :: "string \<Rightarrow> metadata \<Rightarrow> FileEntry" where
  "build_entry rel meta =
     (let mtime = (case Mtime_from_metadata meta of None \<Rightarrow> Mtime_ZERO | Some m \<Rightarrow> m);
          mode = unix_mode meta;
          executable = (mode AND 73 \<noteq> 0)
      in \<lparr>fe_path = rel, fe_size = md_len meta, fe_mtime = mtime, fe_executable = executable, fe_mode = mode\<rparr>)"

section \<open>The walk\<close>

type_synonym WalkPredicate = "string \<Rightarrow> bool \<Rightarrow> bool"

definition default_predicate :: WalkPredicate where
  "default_predicate rel is_dir \<longleftrightarrow>
     \<not> (starts_with ''.'' rel \<or> rel = ''.git'' \<or> contains_str ''/.'' rel \<or> starts_with ''./.git'' rel)"

record DirEntry =
  de_path :: path
  de_is_dir :: bool

definition path_strip_prefix :: "path \<Rightarrow> path \<Rightarrow> path option" where
  "path_strip_prefix root p = (if take (length root) p = root then Some (drop (length root) p) else None)"

fun path_to_string :: "path \<Rightarrow> string" where
  "path_to_string [] = []"
| "path_to_string [c] = c"
| "path_to_string (c # cs) = c @ CHR ''/'' # path_to_string cs"

definition rel_string :: "path \<Rightarrow> string" where
  "rel_string p = replace_char (CHR 0x5C) (CHR ''/'') (path_to_string p)"

text \<open>Phase one, on one result of the enumeration.\<close>

definition enumerate_step ::
  "path \<Rightarrow> WalkPredicate \<Rightarrow> (path option \<times> io_error) + DirEntry \<Rightarrow> DirEntry list \<Rightarrow> SyncError + DirEntry list" where
  "enumerate_step root keep item entries =
     (case item of
        Inl (p, err) \<Rightarrow> Inl (SyncWalk (case p of None \<Rightarrow> root | Some p' \<Rightarrow> p') err)
      | Inr entry \<Rightarrow>
          (case path_strip_prefix root (de_path entry) of
             None \<Rightarrow> Inr entries
           | Some rel \<Rightarrow>
               if keep (rel_string rel) (de_is_dir entry) then Inr (entries @ [entry]) else Inr entries))"

text \<open>Phase two, the loop over few entries.\<close>

definition collect_step ::
  "path \<Rightarrow> (path \<Rightarrow> io_error + metadata) \<Rightarrow> DirEntry \<Rightarrow> FileEntry list \<Rightarrow> SyncError + FileEntry list" where
  "collect_step root stat entry collected =
     (if de_is_dir entry then Inr collected
      else let p = de_path entry in
      case path_strip_prefix root p of
        None \<Rightarrow> Inl (PathEscape (path_display p))
      | Some rel' \<Rightarrow>
          let rel = rel_string rel' in
          if rel = [] then Inr collected
          else case stat p of
            Inl err \<Rightarrow> Inl (SyncWalk p err)
          | Inr meta \<Rightarrow> Inr (collected @ [build_entry rel meta]))"

text \<open>
  Phase two, the closure for many entries: its result, and the vector under the lock after it.
\<close>

definition collect_closure ::
  "path \<Rightarrow> (path \<Rightarrow> io_error + metadata) \<Rightarrow> DirEntry \<Rightarrow> FileEntry list \<Rightarrow> (SyncError + unit) \<times> FileEntry list" where
  "collect_closure root stat entry collected =
     (if de_is_dir entry then (Inr (), collected)
      else let p = de_path entry in
      case (case path_strip_prefix root p of
              None \<Rightarrow> Inl (PathEscape (path_display p))
            | Some rel' \<Rightarrow> Inr (rel_string rel')) of
        Inl e \<Rightarrow> (Inl e, collected)
      | Inr rel \<Rightarrow>
          if rel = [] then (Inr (), collected)
          else (case map_err (\<lambda>err. SyncWalk p err) (stat p) of
            Inl e \<Rightarrow> (Inl e, collected)
          | Inr entry_meta \<Rightarrow>
              let record = build_entry rel entry_meta in (Inr (), collected @ [record])))"

text \<open>
  The closures of \<^verbatim>\<open>try_for_each\<close> on the entries in the order in which they take effect on the vector. One that fails ends the
  call with its error, which is thus the error of some entry.
\<close>

fun run_closures :: "('x \<Rightarrow> 's \<Rightarrow> ('e + unit) \<times> 's) \<Rightarrow> 'x list \<Rightarrow> 's \<Rightarrow> ('e + unit) \<times> 's" where
  "run_closures f [] s = (Inr (), s)"
| "run_closures f (x # xs) s =
     (case f x s of
        (Inl e, s') \<Rightarrow> (Inl e, s')
      | (Inr _, s') \<Rightarrow> run_closures f xs s')"

definition PARALLEL_THRESHOLD :: nat where
  "PARALLEL_THRESHOLD = 100"

text \<open>
  \<open>walk root\<close> is the sequence of results of the enumeration, and \<open>par\<close> the order in which the
  parallel closures take effect.
\<close>

definition walk_dir_with ::
  "(path \<Rightarrow> ((path option \<times> io_error) + DirEntry) list) \<Rightarrow> (DirEntry list \<Rightarrow> DirEntry list) \<Rightarrow>
     (path \<Rightarrow> io_error + metadata) \<Rightarrow> path \<Rightarrow> WalkPredicate \<Rightarrow> SyncError + FileEntry list" where
  "walk_dir_with walk par stat root keep =
     (case stat root of
        Inl err \<Rightarrow> Inl (SyncWalk root err)
      | Inr meta \<Rightarrow>
     if \<not> md_is_dir meta then Inl (NotADirectory root)
     else case try_for (enumerate_step root keep) (walk root) [] of
        Inl e \<Rightarrow> Inl e
      | Inr entries \<Rightarrow>
     (case (if length entries > PARALLEL_THRESHOLD
            then (case run_closures (collect_closure root stat) (par entries) [] of
                    (Inl e, _) \<Rightarrow> Inl e
                  | (Inr _, collected) \<Rightarrow> Inr collected)
            else try_for (collect_step root stat) entries []) of
        Inl e \<Rightarrow> Inl e
      | Inr out \<Rightarrow> Inr (sort_key fe_path out)))"

definition walk_dir where
  "walk_dir walk par stat root = walk_dir_with walk par stat root default_predicate"

section \<open>Restoring times\<close>

text \<open>\<open>set_file_mtime\<close> is \<^verbatim>\<open>filetime::set_file_mtime\<close> on seconds and nanoseconds.\<close>

definition apply_mtime ::
  "(path \<Rightarrow> int \<Rightarrow> u32 \<Rightarrow> 'w \<Rightarrow> (io_error + unit) \<times> 'w) \<Rightarrow> path \<Rightarrow> Mtime \<Rightarrow> 'w \<Rightarrow> (SyncError + unit) \<times> 'w" where
  "apply_mtime set_file_mtime p m w =
     (if \<not> Mtime_is_known m then (Inr (), w)
      else case set_file_mtime p (mt_secs m) (mt_nanos m) w of
        (Inl err, w') \<Rightarrow> (Inl (SyncMtime p err), w')
      | (Inr u, w') \<Rightarrow> (Inr u, w'))"

section \<open>Differences\<close>

definition signature_changed :: "FileEntry \<Rightarrow> FileEntry \<Rightarrow> bool" where
  "signature_changed a b \<longleftrightarrow> fe_size a \<noteq> fe_size b \<or> fe_mtime a \<noteq> fe_mtime b \<or> fe_mode a \<noteq> fe_mode b"

text \<open>\<open>it\<close> is the iteration order of the two maps.\<close>

definition diff_entries ::
  "((string, FileEntry) hashmap \<Rightarrow> (string \<times> FileEntry) list) \<Rightarrow> FileEntry list \<Rightarrow> FileEntry list \<Rightarrow>
     FileEntry list \<times> FileEntry list \<times> (FileEntry \<times> FileEntry) list" where
  "diff_entries it source target =
     (let source_map = hm_collect (map (\<lambda>e. (fe_path e, e)) source);
          target_map = hm_collect (map (\<lambda>e. (fe_path e, e)) target);
          (added, modified) = fold (\<lambda>(p, entry) (added, modified).
             case hm_get source_map p of
               None \<Rightarrow> (added @ [entry], modified)
             | Some prev \<Rightarrow>
                 if signature_changed prev entry then (added, modified @ [(prev, entry)])
                 else (added, modified)) (it target_map) ([], []);
          removed = fold (\<lambda>(p, entry) removed.
             if \<not> hm_contains_key target_map p then removed @ [entry] else removed) (it source_map) []
      in (sort_key fe_path added, sort_key fe_path removed, sort_key (fe_path \<circ> fst) modified))"

section \<open>Times\<close>

lemma from_system_time:
  assumes "0 \<le> t" and "t < 9223372036854775808 * 1000000000"
  shows "Mtime_from_system_time t = Some (Mtime (t div 1000000000) (of_int (t mod 1000000000)))"
proof -
  have d: "0 \<le> t div 1000000000" "t div 1000000000 < 9223372036854775808"
    using assms zdiv_mono1 [of t "9223372036854775808 * 1000000000 - 1" 1000000000]
    by (simp_all add: pos_imp_zdiv_nonneg_iff)
  have "int (as_secs (nat t)) = t div 1000000000" using assms by (simp add: as_secs_def zdiv_int)
  then have "i64_wrap (int (as_secs (nat t))) = t div 1000000000"
    using d by (simp add: i64_wrap_def)
  moreover have "int (nat t mod 1000000000) = t mod 1000000000" using assms by (simp add: zmod_int)
  then have "subsec_nanos (nat t) = of_int (t mod 1000000000)"
    unfolding subsec_nanos_def by (metis of_int_of_nat_eq)
  ultimately show ?thesis using assms by (simp add: Mtime_from_system_time_def duration_since_epoch_def)
qed

lemma unat_nanos: "unat (of_int (t mod 1000000000) :: u32) = nat (t mod 1000000000)"
proof -
  have "0 \<le> t mod 1000000000" "t mod 1000000000 < 2 ^ 32" using pos_mod_bound [of 1000000000 t] by simp_all
  then show ?thesis by (simp add: unsigned_of_int take_bit_int_eq_self nat_take_bit_eq)
qed

text \<open>
  C38. Modification times keep their full precision: the seconds and nanoseconds recorded for a time
  since the epoch recombine to exactly that time, the derived order of two records is the order
  of the times, so two writes within a second are told apart, and every time after the epoch is
  restored by \<^verbatim>\<open>apply_mtime\<close> with exactly these two numbers. The epoch itself counts as unknown.
\<close>

theorem mtime_faithful:
  assumes "0 \<le> t" and "t < 9223372036854775808 * 1000000000"
    and "0 \<le> t'" and "t' < 9223372036854775808 * 1000000000"
  shows "\<exists>m m'. Mtime_from_system_time t = Some m \<and> Mtime_from_system_time t' = Some m' \<and>
    mt_secs m * 1000000000 + int (unat (mt_nanos m)) = t \<and> unat (mt_nanos m) < 1000000000 \<and>
    (m < m' \<longleftrightarrow> t < t') \<and> (Mtime_is_known m \<longleftrightarrow> 0 < t) \<and>
    (0 < t \<longrightarrow> fst (apply_mtime set_mtime p m w) =
       map_err (SyncMtime p) (fst (set_mtime p (t div 1000000000) (of_int (t mod 1000000000)) w)))"
proof -
  let ?m = "\<lambda>t. Mtime (t div 1000000000) (of_int (t mod 1000000000))"
  define q r q' r' where "q = t div 1000000000" and "r = t mod 1000000000"
    and "q' = t' div 1000000000" and "r' = t' mod 1000000000"
  note qr = this
  have eq: "t = 1000000000 * q + r" "t' = 1000000000 * q' + r'" unfolding qr by simp_all
  have bd: "0 \<le> r" "r < 1000000000" "0 \<le> r'" "r' < 1000000000" unfolding qr by simp_all
  have un: "unat (of_int r :: u32) = nat r" "unat (of_int r' :: u32) = nat r'" unfolding qr by (rule unat_nanos)+
  have less: "?m t < ?m t' \<longleftrightarrow> t < t'"
  proof -
    have "?m t < ?m t' \<longleftrightarrow> q < q' \<or> q = q' \<and> r < r'"
      using bd unfolding less_Mtime_def Mtime_lt_def word_less_nat_alt Mtime.sel qr [symmetric] un by auto
    also have "\<dots> \<longleftrightarrow> t < t'" unfolding eq using bd by linarith
    finally show ?thesis .
  qed
  have known: "Mtime_is_known (?m t) \<longleftrightarrow> 0 < t"
  proof -
    have "Mtime_is_known (?m t) \<longleftrightarrow> 0 < q \<or> 0 < r"
      using bd unfolding Mtime_is_known_def word_less_nat_alt Mtime.sel qr [symmetric] un by simp
    also have "\<dots> \<longleftrightarrow> 0 < t"
    proof (cases "q < 0")
      case True
      then have "1000000000 * q \<le> - 1000000000" by simp
      with assms(1) bd show ?thesis unfolding eq by linarith
    next
      case False
      with bd show ?thesis unfolding eq by linarith
    qed
    finally show ?thesis .
  qed
  have "unat (of_int (t mod 1000000000) :: u32) < 1000000000" and
    "t div 1000000000 * 1000000000 + int (unat (of_int (t mod 1000000000) :: u32)) = t"
    using bd eq unfolding qr [symmetric] un by simp_all
  then show ?thesis
    using from_system_time [OF assms(1,2)] from_system_time [OF assms(3,4)] less known
    by (auto simp: apply_mtime_def split: prod.splits sum.splits)
qed

theorem mtime_faithful_witness:
  "\<exists>m m'. Mtime_from_system_time 1700000000123456789 = Some m \<and> Mtime_from_system_time 1700000000123456790 = Some m' \<and> m < m'"
  using mtime_faithful [of 1700000000123456789 1700000000123456790 "\<lambda>p s n w. (Inr (), w)" "[]" "()"] by auto

section \<open>Differences\<close>

lemma update_fresh: "k \<notin> fst ` set m \<Longrightarrow> AList.update k v m = m @ [(k, v)]"
  by (induction m) auto

lemma hm_collect_distinct:
  assumes "distinct (map fst kvs)"
  shows "hm_collect kvs = kvs"
proof -
  have "distinct (map fst (acc @ kvs)) \<Longrightarrow> fold (\<lambda>(k, v). hm_insert k v) kvs acc = acc @ kvs" for acc
    by (induction kvs arbitrary: acc) (auto simp: hm_insert_def update_fresh)
  from this [of "[]"] assms show ?thesis by (simp add: hm_collect_def hm_new_def)
qed

abbreviation keyed :: "FileEntry list \<Rightarrow> (string \<times> FileEntry) list" where
  "keyed xs \<equiv> map (\<lambda>e. (fe_path e, e)) xs"

lemma hm_get_keyed:
  assumes "distinct (map fe_path xs)"
  shows "hm_get (keyed xs) p = Some e \<longleftrightarrow> e \<in> set xs \<and> fe_path e = p"
    and "hm_get (keyed xs) p = None \<longleftrightarrow> p \<notin> fe_path ` set xs"
proof -
  have "distinct (map fst (keyed xs))" using assms by (simp add: comp_def)
  then show "hm_get (keyed xs) p = Some e \<longleftrightarrow> e \<in> set xs \<and> fe_path e = p"
    by (auto simp: hm_get_def map_of_eq_Some_iff)
  show "hm_get (keyed xs) p = None \<longleftrightarrow> p \<notin> fe_path ` set xs"
    by (auto simp: hm_get_def map_of_eq_None_iff image_iff)
qed

text \<open>The loops of the difference as filters over the entries in iteration order.\<close>

lemma fold_added:
  "fold (\<lambda>(p, entry) (added, modified).
     case look p of None \<Rightarrow> (added @ [entry], modified)
     | Some prev \<Rightarrow> if signature_changed prev entry then (added, modified @ [(prev, entry)]) else (added, modified))
     kvs (a, m) =
   (a @ [e. (p, e) \<leftarrow> kvs, look p = None],
    m @ [(x, e). (p, e) \<leftarrow> kvs, x \<leftarrow> (case look p of None \<Rightarrow> [] | Some x \<Rightarrow> [x]), signature_changed x e])"
  by (induction kvs arbitrary: a m) (auto split: option.split)

lemma fold_removed:
  "fold (\<lambda>(p, entry) removed. if \<not> P p then removed @ [entry] else removed) kvs r = r @ [e. (p, e) \<leftarrow> kvs, \<not> P p]"
  by (induction kvs arbitrary: r) auto

lemma mset_concat_perm: "mset xs = mset ys \<Longrightarrow> mset (concat (map g xs)) = mset (concat (map g ys))"
  by (metis mset_concat mset_map map_map sum_mset_sum_list mset.simps)

lemma sort_key_perm:
  assumes "mset xs = mset ys" and "inj_on f (set ys)"
  shows "sort_key f xs = sort_key f ys"
  using assms by (intro sort_key_inj_key_eq) (auto dest: mset_eq_setD)

lemma diff_entries_eq:
  assumes "distinct (map fe_path source)" and "distinct (map fe_path target)" and "iteration_order it"
  shows "\<exists>ms. diff_entries it source target =
      (sort_key fe_path (filter (\<lambda>e. fe_path e \<notin> fe_path ` set source) target),
       sort_key fe_path (filter (\<lambda>e. fe_path e \<notin> fe_path ` set target) source), ms) \<and>
    set ms = {(x, e). x \<in> set source \<and> e \<in> set target \<and> fe_path x = fe_path e \<and> signature_changed x e} \<and>
    sorted (map (fe_path \<circ> fst) ms)"
proof -
  have c: "hm_collect (keyed xs) = keyed xs" if "distinct (map fe_path xs)" for xs
    using that by (intro hm_collect_distinct) (simp add: comp_def)
  have it: "mset (it m) = mset m" for m using assms(3) by (simp add: iteration_order_def)
  let ?look = "hm_get (keyed source)"
  let ?ms = "[(x, e). (p, e) \<leftarrow> it (keyed target), x \<leftarrow> (case ?look p of None \<Rightarrow> [] | Some x \<Rightarrow> [x]), signature_changed x e]"
  have inj: "inj_on fe_path (set (filter P xs))" if "distinct (map fe_path xs)" for P xs
    using that by (auto simp: distinct_map intro: inj_on_subset)
  have a: "mset [e. (p, e) \<leftarrow> it (keyed target), ?look p = None] =
      mset (filter (\<lambda>e. fe_path e \<notin> fe_path ` set source) target)"
  proof -
    have "concat (map (\<lambda>e. if fe_path e \<notin> fe_path ` set source then [e] else []) target) =
        filter (\<lambda>e. fe_path e \<notin> fe_path ` set source) target"
      by (induction target) auto
    then show ?thesis
      using mset_concat_perm [OF it, of "\<lambda>(p, e). if ?look p = None then [e] else []" "keyed target"]
      by (simp add: hm_get_keyed(2) [OF assms(1)] comp_def case_prod_beta)
  qed
  have r: "mset [e. (p, e) \<leftarrow> it (keyed source), \<not> hm_contains_key (keyed target) p] =
      mset (filter (\<lambda>e. fe_path e \<notin> fe_path ` set target) source)"
  proof -
    have "concat (map (\<lambda>e. if fe_path e \<notin> fe_path ` set target then [e] else []) source) =
        filter (\<lambda>e. fe_path e \<notin> fe_path ` set target) source"
      by (induction source) auto
    then show ?thesis
      using mset_concat_perm [OF it, of "\<lambda>(p, e). if \<not> hm_contains_key (keyed target) p then [e] else []" "keyed source"]
      by (simp add: hm_contains_key_def hm_get_keyed(2) [OF assms(2)] comp_def case_prod_beta)
  qed
  have look: "set (case ?look p of None \<Rightarrow> [] | Some x \<Rightarrow> [x]) = {x \<in> set source. fe_path x = p}" for p
  proof (cases "?look p")
    case None
    then show ?thesis using hm_get_keyed(2) [OF assms(1), of p] by auto
  next
    case (Some a)
    then have "e = a \<longleftrightarrow> e \<in> set source \<and> fe_path e = p" for e
      using hm_get_keyed(1) [OF assms(1), of p e] by auto
    with Some show ?thesis by auto
  qed
  have "set (it (keyed target)) = set (keyed target)" using iteration_set [OF assms(3)] .
  then have m: "set ?ms = {(x, e). x \<in> set source \<and> e \<in> set target \<and> fe_path x = fe_path e \<and> signature_changed x e}"
    by (auto simp: look)
  show ?thesis
    using m sort_key_perm [OF a inj [OF assms(2)]] sort_key_perm [OF r inj [OF assms(1)]]
    by (intro exI [of _ "sort_key (fe_path \<circ> fst) ?ms"])
      (simp add: diff_entries_def c [OF assms(1)] c [OF assms(2)] fold_added fold_removed)
qed

text \<open>
  C14. The difference is exact and deterministic. For listings without duplicate paths, and for every
  iteration order of the hash maps: \<open>added\<close> are the entries of the target with a path the source
  does not have, \<open>removed\<close> those of the source with a path the target does not have, both in path
  order; \<open>modified\<close> pairs exactly the entries with the same path and a different size, time or mode,
  in path order.
\<close>

theorem diff_entries_exact:
  assumes "distinct (map fe_path source)" and "distinct (map fe_path target)" and "iteration_order it"
  shows "\<exists>modified. diff_entries it source target =
      (sort_key fe_path (filter (\<lambda>e. fe_path e \<notin> fe_path ` set source) target),
       sort_key fe_path (filter (\<lambda>e. fe_path e \<notin> fe_path ` set target) source), modified) \<and>
    set modified = {(x, e). x \<in> set source \<and> e \<in> set target \<and> fe_path x = fe_path e \<and>
       (fe_size x \<noteq> fe_size e \<or> fe_mtime x \<noteq> fe_mtime e \<or> fe_mode x \<noteq> fe_mode e)} \<and>
    sorted (map (fe_path \<circ> fst) modified)"
  using diff_entries_eq [OF assms] by (simp only: signature_changed_def)

definition demo_entry :: "string \<Rightarrow> u64 \<Rightarrow> FileEntry" where
  "demo_entry p n = \<lparr>fe_path = p, fe_size = n, fe_mtime = Mtime 1700000000 5, fe_executable = False, fe_mode = 420\<rparr>"

theorem diff_entries_exact_witness:
  "\<exists>modified. diff_entries rev [demo_entry ''a'' 1, demo_entry ''b'' 2] [demo_entry ''c'' 3, demo_entry ''b'' 9] =
     ([demo_entry ''c'' 3], [demo_entry ''a'' 1], modified) \<and> set modified = {(demo_entry ''b'' 2, demo_entry ''b'' 9)}"
  using diff_entries_exact [of "[demo_entry ''a'' 1, demo_entry ''b'' 2]" "[demo_entry ''c'' 3, demo_entry ''b'' 9]" rev]
  by (auto simp: demo_entry_def)

text \<open>What a receiver does with a difference: drop, replace, add.\<close>

definition replay :: "FileEntry list \<times> FileEntry list \<times> (FileEntry \<times> FileEntry) list \<Rightarrow> FileEntry list \<Rightarrow> FileEntry list" where
  "replay = (\<lambda>(added, removed, modified) source.
     filter (\<lambda>e. fe_path e \<notin> fe_path ` set removed \<and> fe_path e \<notin> (fe_path \<circ> fst) ` set modified) source @
     map snd modified @ added)"

definition signatures :: "FileEntry list \<Rightarrow> (string \<times> u64 \<times> Mtime \<times> u32) set" where
  "signatures xs = (\<lambda>e. (fe_path e, fe_size e, fe_mtime e, fe_mode e)) ` set xs"

lemma unique_path: "x \<in> set xs \<Longrightarrow> y \<in> set xs \<Longrightarrow> fe_path x = fe_path y \<Longrightarrow> distinct (map fe_path xs) \<Longrightarrow> x = y"
  by (auto simp: distinct_map dest: inj_onD)

text \<open>The entries that are neither removed nor modified have an unchanged partner in the target.\<close>

lemma replay_keeps:
  assumes x: "x \<in> set source" and dist: "distinct (map fe_path source)" "distinct (map fe_path target)"
    and ms: "set ms = {(x, e). x \<in> set source \<and> e \<in> set target \<and> fe_path x = fe_path e \<and> signature_changed x e}"
  shows "fe_path x \<notin> fe_path ` {e \<in> set source. fe_path e \<notin> fe_path ` set target} \<and>
    fe_path x \<notin> (fe_path \<circ> fst) ` set ms \<longleftrightarrow>
    (\<exists>e \<in> set target. fe_path e = fe_path x \<and> \<not> signature_changed x e)"
proof -
  let ?changed = "\<exists>e \<in> set target. fe_path e = fe_path x \<and> signature_changed x e"
  have gone: "fe_path x \<notin> fe_path ` {e \<in> set source. fe_path e \<notin> fe_path ` set target} \<longleftrightarrow> fe_path x \<in> fe_path ` set target"
    using x by (auto simp: image_iff)
  have changed: "fe_path x \<in> (fe_path \<circ> fst) ` set ms \<longleftrightarrow> ?changed"
  proof
    assume "fe_path x \<in> (fe_path \<circ> fst) ` set ms"
    then obtain y e where y: "(y, e) \<in> set ms" "fe_path y = fe_path x" by auto
    then have "y \<in> set source" "e \<in> set target" "fe_path y = fe_path e" "signature_changed y e" by (auto simp: ms)
    with y(2) unique_path [OF \<open>y \<in> set source\<close> x y(2) dist(1)] show ?changed by auto
  next
    assume ?changed
    then obtain e where "e \<in> set target" "fe_path e = fe_path x" "signature_changed x e" by blast
    then have "(x, e) \<in> set ms" using x by (simp add: ms)
    then show "fe_path x \<in> (fe_path \<circ> fst) ` set ms" by (metis comp_apply fst_conv imageI)
  qed
  have "fe_path x \<in> fe_path ` set target \<and> \<not> ?changed \<longleftrightarrow>
      (\<exists>e \<in> set target. fe_path e = fe_path x \<and> \<not> signature_changed x e)"
  proof
    assume "fe_path x \<in> fe_path ` set target \<and> \<not> ?changed"
    then show "\<exists>e \<in> set target. fe_path e = fe_path x \<and> \<not> signature_changed x e" by (metis imageE)
  next
    assume "\<exists>e \<in> set target. fe_path e = fe_path x \<and> \<not> signature_changed x e"
    then obtain e where e: "e \<in> set target" "fe_path e = fe_path x" "\<not> signature_changed x e" by blast
    then have "e' = e" if "e' \<in> set target" "fe_path e' = fe_path x" for e'
      using that unique_path [of e' target e] dist(2) by simp
    with e show "fe_path x \<in> fe_path ` set target \<and> \<not> ?changed" by (metis imageI)
  qed
  with gone changed show ?thesis by simp
qed

text \<open>
  C15. The difference is complete: replaying it on the source gives a listing with exactly the
  signatures (path, size, time, mode) of the target. In particular a change is missed only if
  none of these differs.
\<close>

theorem diff_replay_reaches_target:
  assumes "distinct (map fe_path source)" and "distinct (map fe_path target)" and "iteration_order it"
  shows "signatures (replay (diff_entries it source target) source) = signatures target"
proof -
  obtain ms where d: "diff_entries it source target =
      (sort_key fe_path (filter (\<lambda>e. fe_path e \<notin> fe_path ` set source) target),
       sort_key fe_path (filter (\<lambda>e. fe_path e \<notin> fe_path ` set target) source), ms)"
    and ms: "set ms = {(x, e). x \<in> set source \<and> e \<in> set target \<and> fe_path x = fe_path e \<and> signature_changed x e}"
    using diff_entries_eq [OF assms] by blast
  let ?sig = "\<lambda>e. (fe_path e, fe_size e, fe_mtime e, fe_mode e)"
  let ?kept = "{x \<in> set source. \<exists>e \<in> set target. fe_path e = fe_path x \<and> \<not> signature_changed x e}"
  have "set (replay (diff_entries it source target) source) =
      ?kept \<union> snd ` set ms \<union> {e \<in> set target. fe_path e \<notin> fe_path ` set source}"
    using replay_keeps [OF _ assms(1,2) ms] by (auto simp: replay_def d)
  moreover have "?sig ` ?kept = ?sig ` {e \<in> set target. \<exists>x \<in> set source. fe_path x = fe_path e \<and> \<not> signature_changed x e}"
    by (force simp: signature_changed_def image_iff)
  moreover have "snd ` set ms = {e \<in> set target. \<exists>x \<in> set source. fe_path x = fe_path e \<and> signature_changed x e}"
    by (force simp: ms)
  moreover have "?sig ` set target =
      ?sig ` {e \<in> set target. \<exists>x \<in> set source. fe_path x = fe_path e \<and> \<not> signature_changed x e} \<union>
      ?sig ` {e \<in> set target. \<exists>x \<in> set source. fe_path x = fe_path e \<and> signature_changed x e} \<union>
      ?sig ` {e \<in> set target. fe_path e \<notin> fe_path ` set source}"
    unfolding image_Un [symmetric] by (rule arg_cong [where f = "image ?sig"]) (fastforce simp: image_iff)
  ultimately show ?thesis by (simp only: signatures_def image_Un)
qed

theorem diff_replay_reaches_target_witness:
  "signatures (replay (diff_entries rev [demo_entry ''a'' 1, demo_entry ''b'' 2] [demo_entry ''c'' 3, demo_entry ''b'' 9])
     [demo_entry ''a'' 1, demo_entry ''b'' 2]) = signatures [demo_entry ''c'' 3, demo_entry ''b'' 9]"
  by (rule diff_replay_reaches_target) (simp_all add: demo_entry_def)

section \<open>The walk\<close>

definition walk_item :: "path \<Rightarrow> WalkPredicate \<Rightarrow> (path option \<times> io_error) + DirEntry \<Rightarrow> SyncError + DirEntry list" where
  "walk_item root keep item = enumerate_step root keep item []"

definition entry_records :: "path \<Rightarrow> (path \<Rightarrow> io_error + metadata) \<Rightarrow> DirEntry \<Rightarrow> SyncError + FileEntry list" where
  "entry_records root stat d = collect_step root stat d []"

lemma enumerate_eq:
  "try_for (enumerate_step root keep) items [] = Inr es \<longleftrightarrow>
     (\<forall>x \<in> set items. is_ok (walk_item root keep x)) \<and> es = concat (map (projr \<circ> walk_item root keep) items)"
  by (subst try_for_append_iff [of _ "walk_item root keep"])
    (auto simp: walk_item_def enumerate_step_def split: sum.split option.split)

lemma collect_eq:
  "try_for (collect_step root stat) es [] = Inr out \<longleftrightarrow>
     (\<forall>d \<in> set es. is_ok (entry_records root stat d)) \<and> out = concat (map (projr \<circ> entry_records root stat) es)"
  by (subst try_for_append_iff [of _ "entry_records root stat"])
    (auto simp: entry_records_def collect_step_def Let_def split: sum.split option.split)

text \<open>The closure and the body of the loop do the same to an entry, so the parallel phase is the loop in the order of the schedule.\<close>

lemma collect_closure_eq:
  "collect_closure root stat d collected =
     (case collect_step root stat d collected of Inl e \<Rightarrow> (Inl e, collected) | Inr out \<Rightarrow> (Inr (), out))"
  by (auto simp: collect_closure_def collect_step_def Let_def split: option.split sum.split)

lemma par_collect_eq:
  "(case run_closures (collect_closure root stat) es acc of (Inl e, _) \<Rightarrow> Inl e | (Inr _, collected) \<Rightarrow> Inr collected) =
     try_for (collect_step root stat) es acc"
  by (induction es arbitrary: acc) (auto simp: collect_closure_eq split: sum.split)

lemma walk_dir_with_loop:
  "walk_dir_with walk par stat root keep =
     (case stat root of
        Inl err \<Rightarrow> Inl (SyncWalk root err)
      | Inr meta \<Rightarrow>
     if \<not> md_is_dir meta then Inl (NotADirectory root)
     else case try_for (enumerate_step root keep) (walk root) [] of
        Inl e \<Rightarrow> Inl e
      | Inr es \<Rightarrow>
     (case try_for (collect_step root stat) (if length es > PARALLEL_THRESHOLD then par es else es) [] of
        Inl e \<Rightarrow> Inl e
      | Inr out \<Rightarrow> Inr (sort_key fe_path out)))"
  unfolding walk_dir_with_def par_collect_eq by (simp add: if_distrib [of "\<lambda>es. try_for _ es _"] split: sum.split)

text \<open>The walk as a function of the kept entries \<open>es\<close> and the schedule.\<close>

definition schedule :: "(DirEntry list \<Rightarrow> DirEntry list) \<Rightarrow> bool" where
  "schedule par \<longleftrightarrow> (\<forall>es. mset (par es) = mset es)"

lemma walk_dir_with_eq:
  assumes "schedule par"
  shows "walk_dir_with walk par stat root keep = Inr out \<longleftrightarrow>
    (\<exists>meta. stat root = Inr meta \<and> md_is_dir meta) \<and> (\<forall>x \<in> set (walk root). is_ok (walk_item root keep x)) \<and>
    (let es = concat (map (projr \<circ> walk_item root keep) (walk root));
         es' = (if length es > PARALLEL_THRESHOLD then par es else es)
     in (\<forall>d \<in> set es. is_ok (entry_records root stat d)) \<and>
        out = sort_key fe_path (concat (map (projr \<circ> entry_records root stat) es')))"
proof -
  have set_par: "set (par es) = set es" for es using assms by (metis schedule_def set_mset_mset)
  let ?es = "concat (map (projr \<circ> walk_item root keep) (walk root))"
  let ?es' = "if length ?es > PARALLEL_THRESHOLD then par ?es else ?es"
  have "set ?es' = set ?es" by (simp add: set_par)
  show ?thesis
  proof (cases "(\<exists>meta. stat root = Inr meta \<and> md_is_dir meta) \<and> (\<forall>x \<in> set (walk root). is_ok (walk_item root keep x))")
    case False
    then show ?thesis
      using enumerate_eq [of root keep "walk root"] by (auto simp: walk_dir_with_loop split: sum.splits)
  next
    case True
    then obtain meta where "stat root = Inr meta" "md_is_dir meta"
        and e: "try_for (enumerate_step root keep) (walk root) [] = Inr ?es"
      using enumerate_eq [of root keep "walk root"] by auto
    then have "walk_dir_with walk par stat root keep = Inr out \<longleftrightarrow>
        (\<exists>o'. try_for (collect_step root stat) ?es' [] = Inr o' \<and> out = sort_key fe_path o')"
      by (auto simp: walk_dir_with_loop split: sum.splits)
    also have "\<dots> \<longleftrightarrow> (\<forall>d \<in> set ?es. is_ok (entry_records root stat d)) \<and>
        out = sort_key fe_path (concat (map (projr \<circ> entry_records root stat) ?es'))"
      unfolding collect_eq \<open>set ?es' = set ?es\<close> by blast
    finally show ?thesis using True unfolding Let_def by argo
  qed
qed

text \<open>What an entry of the listing comes from.\<close>

definition listed :: "path \<Rightarrow> (path \<Rightarrow> io_error + metadata) \<Rightarrow> WalkPredicate \<Rightarrow> DirEntry \<Rightarrow> FileEntry \<Rightarrow> bool" where
  "listed root stat keep d e \<longleftrightarrow> \<not> de_is_dir d \<and>
     (\<exists>rel meta. path_strip_prefix root (de_path d) = Some rel \<and> keep (rel_string rel) False \<and> rel_string rel \<noteq> [] \<and>
        stat (de_path d) = Inr meta \<and> e = build_entry (rel_string rel) meta)"

lemma listed_iff:
  assumes "is_ok (walk_item root keep (Inr d))"
    and "\<forall>x \<in> set (projr (walk_item root keep (Inr d))). is_ok (entry_records root stat x)"
  shows "(\<exists>x \<in> set (projr (walk_item root keep (Inr d))). e \<in> set (projr (entry_records root stat x))) \<longleftrightarrow>
    listed root stat keep d e"
  using assms
  by (auto simp: walk_item_def enumerate_step_def entry_records_def collect_step_def listed_def Let_def
      split: option.splits sum.splits if_splits)

lemma walk_members:
  assumes "schedule par" and "walk_dir_with walk par stat root keep = Inr out"
  shows "x \<in> set (walk root) \<Longrightarrow> is_ok x"
    and "e \<in> set out \<longleftrightarrow> (\<exists>d. Inr d \<in> set (walk root) \<and> listed root stat keep d e)"
proof -
  let ?es = "concat (map (projr \<circ> walk_item root keep) (walk root))"
  let ?es' = "if length ?es > PARALLEL_THRESHOLD then par ?es else ?es"
  have ok: "\<forall>x \<in> set (walk root). is_ok (walk_item root keep x)" "\<forall>d \<in> set ?es. is_ok (entry_records root stat d)"
      and out: "out = sort_key fe_path (concat (map (projr \<circ> entry_records root stat) ?es'))"
    using assms(2) unfolding walk_dir_with_eq [OF assms(1)] Let_def by blast+
  have "\<not> is_ok (walk_item root keep (Inl x))" for x
    by (cases x) (simp add: walk_item_def enumerate_step_def)
  then have items: "is_ok x" if "x \<in> set (walk root)" for x using ok(1) that by (cases x) auto
  have "set (par ?es) = set ?es" using assms(1) by (metis schedule_def set_mset_mset)
  then have "set ?es' = set ?es" by simp
  then have mem: "e \<in> set out \<longleftrightarrow>
      (\<exists>i \<in> set (walk root). \<exists>x \<in> set (projr (walk_item root keep i)). e \<in> set (projr (entry_records root stat x)))" for e
    unfolding out by simp
  have "\<exists>d. i = Inr d" if "i \<in> set (walk root)" for i using items [OF that] by (cases i) auto
  moreover have "(\<exists>x \<in> set (projr (walk_item root keep (Inr d))). e \<in> set (projr (entry_records root stat x))) \<longleftrightarrow>
      listed root stat keep d e" if "Inr d \<in> set (walk root)" for d e
    using ok that by (intro listed_iff) auto
  ultimately show "e \<in> set out \<longleftrightarrow> (\<exists>d. Inr d \<in> set (walk root) \<and> listed root stat keep d e)"
    unfolding mem by metis
  show "x \<in> set (walk root) \<Longrightarrow> is_ok x" by (rule items)
qed

text \<open>
  C16. A walk that succeeds is complete and correct, whatever the order in which the parallel phase
  ran: no result of the enumeration was an error, the listing is in path order, and its entries
  are exactly the records of the files (everything but directories) below the root that the
  predicate keeps, each built from the metadata of its file.
\<close>

theorem walk_complete:
  assumes "schedule par" and "walk_dir_with walk par stat root keep = Inr out"
  shows "(\<forall>x \<in> set (walk root). is_ok x) \<and> sorted (map fe_path out) \<and>
    (\<forall>e. e \<in> set out \<longleftrightarrow> (\<exists>d. Inr d \<in> set (walk root) \<and> listed root stat keep d e))"
proof -
  from assms(2) obtain xs where "out = sort_key fe_path xs" by (auto simp: walk_dir_with_loop split: sum.splits if_splits)
  then have "sorted (map fe_path out)" by simp
  with walk_members [OF assms] show ?thesis by blast
qed

text \<open>A tree with one file and one hidden file, enumerated in that order.\<close>

definition demo_walk :: "path \<Rightarrow> ((path option \<times> io_error) + DirEntry) list" where
  "demo_walk root = [Inr \<lparr>de_path = root, de_is_dir = True\<rparr>, Inr \<lparr>de_path = root @ [''a''], de_is_dir = False\<rparr>,
     Inr \<lparr>de_path = root @ [''.x''], de_is_dir = False\<rparr>]"

definition demo_meta :: "bool \<Rightarrow> metadata" where
  "demo_meta dir = \<lparr>md_is_dir = dir, md_len = 3, md_modified = Some 5000000000, md_mode = 493\<rparr>"

definition demo_stat :: "path \<Rightarrow> io_error + metadata" where
  "demo_stat p = Inr (demo_meta (p = []))"

lemma demo_walk_run:
  "walk_dir_with demo_walk rev demo_stat [] default_predicate = Inr [build_entry ''a'' (demo_meta False)]"
  by (simp add: walk_dir_with_def demo_walk_def demo_stat_def enumerate_step_def collect_step_def path_strip_prefix_def
      default_predicate_def starts_with_def rel_string_def replace_char_def PARALLEL_THRESHOLD_def demo_meta_def)

lemma schedule_rev: "schedule rev"
  by (simp add: schedule_def)

theorem walk_complete_witness:
  "\<exists>d. Inr d \<in> set (demo_walk []) \<and> listed [] demo_stat default_predicate d (build_entry ''a'' (demo_meta False))"
  using walk_complete [OF schedule_rev demo_walk_run] by (metis list.set_intros(1))

text \<open>
  Failures surface. If the enumeration reports an error anywhere, or the metadata of a file that
  the predicate keeps cannot be read, the whole walk fails: a listing is never silently
  incomplete.
\<close>

lemma walk_errors_surface:
  assumes "schedule par"
    and "(\<exists>x. Inl x \<in> set (walk root)) \<or>
      (\<exists>d rel err. Inr d \<in> set (walk root) \<and> \<not> de_is_dir d \<and> path_strip_prefix root (de_path d) = Some rel \<and>
         keep (rel_string rel) False \<and> rel_string rel \<noteq> [] \<and> stat (de_path d) = Inl err)"
  shows "\<exists>e. walk_dir_with walk par stat root keep = Inl e"
proof (rule ccontr)
  assume "\<not> ?thesis"
  then obtain out where "walk_dir_with walk par stat root keep = Inr out"
    by (cases "walk_dir_with walk par stat root keep") auto
  then have ok: "\<forall>x \<in> set (walk root). is_ok (walk_item root keep x)"
      "\<forall>d \<in> set (concat (map (projr \<circ> walk_item root keep) (walk root))). is_ok (entry_records root stat d)"
    unfolding walk_dir_with_eq [OF assms(1)] Let_def by blast+
  from assms(2) show False
  proof (elim disjE exE conjE)
    fix x assume "Inl x \<in> set (walk root)"
    with ok(1) show False by (cases x) (auto simp: walk_item_def enumerate_step_def)
  next
    fix d rel err
    assume d: "Inr d \<in> set (walk root)" "\<not> de_is_dir d" "path_strip_prefix root (de_path d) = Some rel"
      "keep (rel_string rel) False" "rel_string rel \<noteq> []" "stat (de_path d) = Inl err"
    then have "walk_item root keep (Inr d) = Inr [d]" by (simp add: walk_item_def enumerate_step_def)
    with d(1) have "d \<in> set (concat (map (projr \<circ> walk_item root keep) (walk root)))" by force
    with ok(2) have "is_ok (entry_records root stat d)" by blast
    with d show False by (simp add: entry_records_def collect_step_def)
  qed
qed

text \<open>The reference: the loop for every number of entries.\<close>

definition walk_sequential ::
  "(path \<Rightarrow> ((path option \<times> io_error) + DirEntry) list) \<Rightarrow> (path \<Rightarrow> io_error + metadata) \<Rightarrow> path \<Rightarrow> WalkPredicate \<Rightarrow>
     SyncError + FileEntry list" where
  "walk_sequential walk stat root keep =
     (case stat root of
        Inl err \<Rightarrow> Inl (SyncWalk root err)
      | Inr meta \<Rightarrow>
     if \<not> md_is_dir meta then Inl (NotADirectory root)
     else case try_for (enumerate_step root keep) (walk root) [] of
        Inl e \<Rightarrow> Inl e
      | Inr entries \<Rightarrow> map_sum id (sort_key fe_path) (try_for (collect_step root stat) entries []))"

lemma walk_sequential_eq: "walk_sequential walk stat root keep = walk_dir_with walk (\<lambda>es. es) stat root keep"
  by (auto simp: walk_sequential_def walk_dir_with_loop split: sum.split)

lemma schedule_id: "schedule (\<lambda>es. es)"
  by (simp add: schedule_def)

lemma walk_schedules_agree:
  assumes "schedule par" and "schedule par'" and "walk_dir_with walk par stat root keep = Inr out"
  shows "\<exists>out'. walk_dir_with walk par' stat root keep = Inr out' \<and> mset out' = mset out \<and>
    (distinct (map fe_path out) \<longrightarrow> out' = out)"
proof -
  let ?es = "concat (map (projr \<circ> walk_item root keep) (walk root))"
  let ?sched = "\<lambda>par. if length ?es > PARALLEL_THRESHOLD then par ?es else ?es"
  let ?f = "projr \<circ> entry_records root stat"
  let ?out' = "sort_key fe_path (concat (map ?f (?sched par')))"
  have ok: "(\<exists>meta. stat root = Inr meta \<and> md_is_dir meta) \<and> (\<forall>x \<in> set (walk root). is_ok (walk_item root keep x)) \<and>
      (\<forall>d \<in> set ?es. is_ok (entry_records root stat d))"
    and out: "out = sort_key fe_path (concat (map ?f (?sched par)))"
    using assms(3) unfolding walk_dir_with_eq [OF assms(1)] Let_def by blast+
  have "mset (?sched par) = mset (?sched par')" using assms(1,2) by (simp add: schedule_def)
  then have m: "mset (concat (map ?f (?sched par'))) = mset (concat (map ?f (?sched par)))"
    by (intro mset_concat_perm) simp
  have "?out' = out" if "distinct (map fe_path out)"
  proof -
    have "inj_on fe_path (set (concat (map ?f (?sched par))))" using that by (simp add: out distinct_map)
    from sort_key_perm [OF m this] show ?thesis by (simp only: out)
  qed
  moreover have "mset ?out' = mset out" using m by (simp only: out mset_sort)
  moreover have "walk_dir_with walk par' stat root keep = Inr ?out'"
    using ok unfolding walk_dir_with_eq [OF assms(2)] Let_def by blast
  ultimately show ?thesis by blast
qed

text \<open>
  C37. The parallel phase computes what the loop would. For every tree, predicate and order in which the closures take
  effect, the walk succeeds exactly when the sequential reference does, with the same records, and with the same listing
  if their paths are distinct; if it fails, the reference fails too. So the threshold is invisible: no
  closure loses a record or an error that the loop would have reported.
\<close>

theorem walk_parallel_equiv:
  assumes "schedule par"
  shows "(\<forall>out. walk_dir_with walk par stat root keep = Inr out \<longrightarrow>
      (\<exists>ref. walk_sequential walk stat root keep = Inr ref \<and> mset out = mset ref \<and> (distinct (map fe_path ref) \<longrightarrow> out = ref))) \<and>
    (\<forall>ref. walk_sequential walk stat root keep = Inr ref \<longrightarrow>
      (\<exists>out. walk_dir_with walk par stat root keep = Inr out \<and> mset out = mset ref \<and> (distinct (map fe_path ref) \<longrightarrow> out = ref)))"
proof -
  have same: "mset out = mset ref \<and> (distinct (map fe_path ref) \<longrightarrow> out = ref)"
    if "walk_dir_with walk par stat root keep = Inr out" "walk_sequential walk stat root keep = Inr ref" for out ref
    using walk_schedules_agree [OF schedule_id assms that(2) [unfolded walk_sequential_eq]] that(1) by auto
  show ?thesis
    using walk_schedules_agree [OF schedule_id assms, of walk stat root keep]
      walk_schedules_agree [OF assms schedule_id, of walk stat root keep] same
    unfolding walk_sequential_eq by blast
qed

text \<open>A directory with 150 files, above the threshold, and a closure order that is the reverse of the enumeration.\<close>

definition many_walk :: "path \<Rightarrow> ((path option \<times> io_error) + DirEntry) list" where
  "many_walk root = map (\<lambda>k. Inr \<lparr>de_path = root @ [replicate (Suc k) (CHR ''a'')], de_is_dir = False\<rparr>) [0..<150]"

lemma many_walk_run:
  "walk_sequential many_walk demo_stat [] (\<lambda>_ _. True) =
     Inr (sort_key fe_path (map (\<lambda>k. build_entry (replicate (Suc k) (CHR ''a'')) (demo_meta False)) [0..<150]))"
proof -
  let ?d = "\<lambda>k. \<lparr>de_path = [replicate (Suc k) (CHR ''a'')], de_is_dir = False\<rparr>"
  let ?e = "\<lambda>k. build_entry (replicate (Suc k) (CHR ''a'')) (demo_meta False)"
  have r: "replace_char (CHR 0x5C) (CHR ''/'') (replicate n (CHR ''a'')) = replicate n (CHR ''a'')" for n
    by (simp add: replace_char_def)
  have e: "try_for (enumerate_step [] (\<lambda>_ _. True)) (map (\<lambda>k. Inr (?d k)) ks) acc = Inr (acc @ map ?d ks)" for ks acc
    by (induction ks arbitrary: acc) (simp_all add: enumerate_step_def path_strip_prefix_def)
  have c: "try_for (collect_step [] demo_stat) (map ?d ks) acc = Inr (acc @ map ?e ks)" for ks acc
    by (induction ks arbitrary: acc)
      (simp_all add: collect_step_def path_strip_prefix_def rel_string_def r demo_stat_def del: replicate.simps)
  show ?thesis using e [of "[0..<150]" "[]"] c [of "[0..<150]" "[]"]
    by (simp add: walk_sequential_def many_walk_def demo_stat_def demo_meta_def del: upt_rec_numeral)
qed

theorem walk_parallel_equiv_witness:
  "\<exists>out. length out = 150 \<and> length out > PARALLEL_THRESHOLD \<and>
     walk_dir_with many_walk rev demo_stat [] (\<lambda>_ _. True) = Inr out \<and> walk_sequential many_walk demo_stat [] (\<lambda>_ _. True) = Inr out"
proof -
  let ?ref = "sort_key fe_path (map (\<lambda>k. build_entry (replicate (Suc k) (CHR ''a'')) (demo_meta False)) [0..<150])"
  have "inj (\<lambda>k. fe_path (build_entry (replicate (Suc k) (CHR ''a'')) (demo_meta False)))"
    by (auto simp: inj_def build_entry_def Let_def dest: arg_cong [where f = length])
  then have "distinct (map fe_path ?ref)"
    by (simp add: distinct_map inj_on_def comp_def inj_def del: upt_rec_numeral) metis
  then have "walk_dir_with many_walk rev demo_stat [] (\<lambda>_ _. True) = Inr ?ref"
    using walk_parallel_equiv [OF schedule_rev, of many_walk demo_stat "[]" "\<lambda>_ _. True"] many_walk_run by blast
  then show ?thesis using many_walk_run by (intro exI [of _ ?ref]) (simp add: PARALLEL_THRESHOLD_def del: upt_rec_numeral)
qed

section \<open>Hidden files\<close>

lemma contains_str_append: "contains_str p s \<Longrightarrow> contains_str p (t @ s)"
  by (induction t) simp_all

lemma contains_str_prefix: "p \<noteq> [] \<Longrightarrow> contains_str p (p @ s)"
  by (cases p) (simp_all add: starts_with_def)

text \<open>A component that starts with a dot shows in the relative path.\<close>

lemma dot_component:
  "c \<in> set rel \<Longrightarrow> starts_with ''.'' c \<Longrightarrow>
   starts_with ''.'' (path_to_string rel) \<or> contains_str ''/.'' (path_to_string rel)"
proof (induction rel rule: path_to_string.induct)
  case (3 a b cs)
  show ?case
  proof (cases "c = a")
    case True
    with 3(3) show ?thesis by (cases a) (auto simp: starts_with_def)
  next
    case False
    then have "starts_with ''.'' (path_to_string (b # cs)) \<or> contains_str ''/.'' (path_to_string (b # cs))"
      using 3 by auto
    then have "contains_str ''/.'' (CHR ''/'' # path_to_string (b # cs))"
      by (auto simp: starts_with_def)
    then show ?thesis using contains_str_append [of "''/.''" _ a] by simp
  qed
qed auto

lemma replace_backslash_dot:
  "starts_with ''.'' s \<Longrightarrow> starts_with ''.'' (replace_char (CHR 0x5C) (CHR ''/'') s)"
  "contains_str ''/.'' s \<Longrightarrow> contains_str ''/.'' (replace_char (CHR 0x5C) (CHR ''/'') s)"
proof -
  show "starts_with ''.'' s \<Longrightarrow> starts_with ''.'' (replace_char (CHR 0x5C) (CHR ''/'') s)"
    by (cases s) (auto simp: starts_with_def replace_char_def)
  have "starts_with ''/.'' s \<Longrightarrow> starts_with ''/.'' (map (\<lambda>c. if c = CHR 0x5C then CHR ''/'' else c) s)" for s
    by (cases s; cases "tl s") (auto simp: starts_with_def)
  then show "contains_str ''/.'' s \<Longrightarrow> contains_str ''/.'' (replace_char (CHR 0x5C) (CHR ''/'') s)"
    unfolding replace_char_def by (induction s) fastforce+
qed

text \<open>
  The default walk lists nothing hidden: no component below the root of a listed file starts
  with a dot, so neither dot files nor anything inside a dot directory such as \<open>.git\<close> is ever
  listed.
\<close>

lemma walk_dir_skips_hidden:
  assumes "schedule par" and "walk_dir walk par stat root = Inr out" and "e \<in> set out"
  shows "\<exists>d rel. Inr d \<in> set (walk root) \<and> path_strip_prefix root (de_path d) = Some rel \<and>
    fe_path e = rel_string rel \<and> (\<forall>c \<in> set rel. \<not> starts_with ''.'' c)"
proof -
  have "walk_dir_with walk par stat root default_predicate = Inr out" using assms(2) by (simp add: walk_dir_def)
  from walk_members(2) [OF assms(1) this, of e] assms(3) obtain d where i: "Inr d \<in> set (walk root)" "listed root stat default_predicate d e"
    by blast
  then obtain rel where "path_strip_prefix root (de_path d) = Some rel" "fe_path e = rel_string rel"
      "default_predicate (rel_string rel) False"
    by (auto simp: listed_def build_entry_def Let_def)
  moreover have "\<not> starts_with ''.'' c" if "c \<in> set rel" for c
    using dot_component [OF that] replace_backslash_dot [of "path_to_string rel"] calculation(3)
    by (auto simp: default_predicate_def rel_string_def)
  ultimately show ?thesis using i(1) by blast
qed

end
