(* ===== verification/F64.thy ===== *)
theory F64
  imports Prelude "HOL-Library.Log_Nat"
begin

text \<open>
  IEEE 754 binary64 as the rate limiter and the relay use it (\<^verbatim>\<open>f64\<close>): exact rational values,
  the two infinities and NaN, with every arithmetic result rounded to nearest, ties to even,
  in 53 bits with gradual underflow and overflow to infinity. \<open>Fin 0\<close> stands for both zeros,
  which no operation used here tells apart. The locale \<open>rounding\<close> is what the clients of the
  arithmetic rely on; it is interpreted on the executable rounding function \<open>rnd\<close>.
\<close>

section \<open>The contract of a rounding\<close>

locale rounding =
  fixes rn :: "rat \<Rightarrow> rat"
    and rp :: "rat \<Rightarrow> bool"
  assumes rn_mono: "x \<le> y \<Longrightarrow> rn x \<le> rn y"
    and rn_rp: "rp (rn x)"
    and rp_rn: "rp x \<Longrightarrow> rn x = x"
    and rp_int: "\<bar>n\<bar> \<le> 2 ^ 53 \<Longrightarrow> rp (of_int n)"
begin

lemma rp_0: "rp 0" and rp_1: "rp 1"
  using rp_int [of 0] rp_int [of 1] by simp_all

lemma rn_0: "rn 0 = 0"
  by (rule rp_rn) (rule rp_0)

lemma rn_le: "rp b \<Longrightarrow> x \<le> b \<Longrightarrow> rn x \<le> b"
  using rn_mono [of x b] rp_rn [of b] by simp

lemma rn_ge: "rp b \<Longrightarrow> b \<le> x \<Longrightarrow> b \<le> rn x"
  using rn_mono [of b x] rp_rn [of b] by simp

lemma rn_nonneg: "0 \<le> x \<Longrightarrow> 0 \<le> rn x"
  by (rule rn_ge [OF rp_0])

lemma rn_nonpos: "x \<le> 0 \<Longrightarrow> rn x \<le> 0"
  by (rule rn_le [OF rp_0])

lemma rp_nat: "n \<le> 2 ^ 53 \<Longrightarrow> rp (of_nat n)"
  using rp_int [of "int n"] by simp

end

section \<open>Powers of two and binary logarithms\<close>

definition pow2 :: "int \<Rightarrow> rat" where
  "pow2 e = (if 0 \<le> e then 2 ^ nat e else 1 / 2 ^ nat (- e))"

lemma pow2_pos [simp]: "0 < pow2 e"
  by (simp add: pow2_def)

lemma pow2_ne [simp]: "pow2 e \<noteq> 0"
  by (simp add: pow2_def)

lemma pow2_nonneg [simp]: "0 \<le> pow2 e" and pow2_not_neg [simp]: "\<not> pow2 e < 0"
  by (simp_all add: pow2_def)

lemma pow2_powi: "pow2 e = 2 powi e"
  by (simp add: pow2_def power_int_def inverse_eq_divide power_one_over)

lemma pow2_add: "pow2 (a + b) = pow2 a * pow2 b"
  by (simp add: pow2_powi power_int_add)

lemma pow2_diff: "pow2 (a - b) = pow2 a / pow2 b"
  by (simp add: pow2_powi power_int_diff)

lemma pow2_mono: "a \<le> b \<Longrightarrow> pow2 a \<le> pow2 b"
  by (simp add: pow2_powi power_int_increasing)

lemma pow2_less_iff: "pow2 a < pow2 b \<longleftrightarrow> a < b"
proof
  show "a < b" if "pow2 a < pow2 b" using that pow2_mono [of b a] by linarith
  show "pow2 a < pow2 b" if "a < b"
    using that power_int_strict_increasing [of a b "2 :: rat"] by (simp add: pow2_powi)
qed

lemma pow2_nat: "pow2 (int n) = 2 ^ n"
  by (simp add: pow2_def)

lemma pow2_0 [simp]: "pow2 0 = 1"
  by (simp add: pow2_def)

definition ilog2 :: "rat \<Rightarrow> int" where
  "ilog2 x = (case quotient_of x of (p, q) \<Rightarrow>
     let k = bitlen p - bitlen q in if pow2 k \<le> x then k else k - 1)"

lemma bitlen_pow2_bounds:
  assumes "0 < p"
  shows "pow2 (bitlen p - 1) \<le> of_int p" and "of_int p < pow2 (bitlen p)"
proof -
  have b: "0 \<le> bitlen p - 1" using assms bitlen_ge_iff_power [of 1 p] by simp
  have "2 ^ nat (bitlen p - 1) \<le> p \<and> p < 2 ^ nat (bitlen p)" using assms by (rule bitlen_bounds)
  then have "(2 :: rat) ^ nat (bitlen p - 1) \<le> of_int p \<and> (of_int p :: rat) < 2 ^ nat (bitlen p)"
    by (metis of_int_le_iff of_int_less_iff of_int_numeral of_int_power)
  then show "pow2 (bitlen p - 1) \<le> of_int p" and "of_int p < pow2 (bitlen p)"
    using b by (simp_all add: pow2_def)
qed

lemma ilog2_bounds:
  assumes "0 < x"
  shows "pow2 (ilog2 x) \<le> x" and "x < pow2 (ilog2 x + 1)"
proof -
  obtain p q where pq: "quotient_of x = (p, q)" by (cases "quotient_of x")
  then have q: "0 < q" and x: "x = of_int p / of_int q"
    by (auto simp: quotient_of_denom_pos quotient_of_div)
  with assms have p: "0 < p" by (simp add: zero_less_divide_iff)
  let ?k = "bitlen p - bitlen q"
  have "pow2 (?k - 1) * of_int q < pow2 (?k - 1) * pow2 (bitlen q)"
    using bitlen_pow2_bounds(2) [OF q] by simp
  also have "\<dots> = pow2 (bitlen p - 1)" by (simp flip: pow2_add)
  also have "\<dots> \<le> of_int p" by (rule bitlen_pow2_bounds(1) [OF p])
  finally have lo: "pow2 (?k - 1) < x" unfolding x using q by (simp add: pos_less_divide_eq)
  have "of_int p < pow2 (bitlen p)" by (rule bitlen_pow2_bounds(2) [OF p])
  also have "\<dots> = pow2 (?k + 1) * pow2 (bitlen q - 1)" by (simp flip: pow2_add)
  also have "\<dots> \<le> pow2 (?k + 1) * of_int q" using bitlen_pow2_bounds(1) [OF q] by simp
  finally have hi: "x < pow2 (?k + 1)" unfolding x using q by (simp add: pos_divide_less_eq)
  show "pow2 (ilog2 x) \<le> x" and "x < pow2 (ilog2 x + 1)"
    using lo hi by (auto simp: ilog2_def pq Let_def)
qed

lemma ilog2_unique: "pow2 k \<le> x \<Longrightarrow> x < pow2 (k + 1) \<Longrightarrow> ilog2 x = k"
proof -
  assume k: "pow2 k \<le> x" "x < pow2 (k + 1)"
  then have "0 < x" using pow2_pos [of k] by linarith
  from ilog2_bounds [OF this] k have "pow2 (ilog2 x) < pow2 (k + 1)" and "pow2 k < pow2 (ilog2 x + 1)"
    by linarith+
  then show ?thesis by (simp add: pow2_less_iff)
qed

lemma ilog2_mono: "0 < x \<Longrightarrow> x \<le> y \<Longrightarrow> ilog2 x \<le> ilog2 y"
proof -
  assume "0 < x" and "x \<le> y"
  then have "pow2 (ilog2 x) < pow2 (ilog2 y + 1)"
    using ilog2_bounds [of x] ilog2_bounds [of y] by linarith
  then show ?thesis by (simp add: pow2_less_iff)
qed

section \<open>Rounding to nearest, ties to even\<close>

definition rne :: "rat \<Rightarrow> int" where
  "rne x = (let f = \<lfloor>x\<rfloor>; d = x - of_int f in
     if d < 1 / 2 then f else if 1 / 2 < d then f + 1 else if even f then f else f + 1)"

definition f64_exp :: "rat \<Rightarrow> int" where
  "f64_exp x = max (ilog2 x - 52) (- 1074)"

definition rnd_pos :: "rat \<Rightarrow> rat" where
  "rnd_pos x = of_int (rne (x / pow2 (f64_exp x))) * pow2 (f64_exp x)"

definition rnd :: "rat \<Rightarrow> rat" where
  "rnd x = (if x = 0 then 0 else if 0 < x then rnd_pos x else - rnd_pos (- x))"

text \<open>The values with a 53-bit significand and an exponent of at least \<open>-1074\<close>.\<close>

definition rep :: "rat \<Rightarrow> bool" where
  "rep x \<longleftrightarrow> (\<exists>m e. x = of_int m * pow2 e \<and> \<bar>m\<bar> \<le> 2 ^ 53 \<and> - 1074 \<le> e)"

lemma rne_bounds: "of_int (rne x) \<le> x + 1 / 2" "x - 1 / 2 \<le> of_int (rne x)"
proof -
  define f where "f = \<lfloor>x\<rfloor>"
  have f: "of_int f \<le> x" "x < of_int f + 1" unfolding f_def by linarith+
  have r: "rne x = (if x - of_int f < 1 / 2 then f else if 1 / 2 < x - of_int f then f + 1
      else if even f then f else f + 1)"
    by (simp add: rne_def Let_def f_def)
  show "of_int (rne x) \<le> x + 1 / 2" and "x - 1 / 2 \<le> of_int (rne x)"
    using f unfolding r by (auto split: if_split)
qed

lemma rne_int: "rne (of_int n) = n"
  by (simp add: rne_def)

lemma rne_mono:
  assumes "x \<le> y"
  shows "rne x \<le> rne y"
proof (cases "\<lfloor>x\<rfloor> = \<lfloor>y\<rfloor>")
  case True
  with assms show ?thesis by (auto simp: rne_def Let_def)
next
  case False
  with assms have lt: "\<lfloor>x\<rfloor> + 1 \<le> \<lfloor>y\<rfloor>" using floor_mono [of x y] by linarith
  have "rne x \<le> \<lfloor>x\<rfloor> + 1" and "\<lfloor>y\<rfloor> \<le> rne y" by (auto simp: rne_def Let_def)
  with lt show ?thesis by linarith
qed

lemma rne_le_int: "x \<le> of_int n \<Longrightarrow> rne x \<le> n"
  using rne_mono [of x "of_int n"] by (simp add: rne_int)

lemma rne_ge_int: "of_int n \<le> x \<Longrightarrow> n \<le> rne x"
  using rne_mono [of "of_int n" x] by (simp add: rne_int)

lemma scaled_bound:
  assumes "0 < x"
  shows "x / pow2 (f64_exp x) < 2 ^ 53"
proof -
  have "x < pow2 (ilog2 x + 1)" by (rule ilog2_bounds(2) [OF assms])
  also have "\<dots> \<le> pow2 (f64_exp x + 53)" by (intro pow2_mono) (simp add: f64_exp_def)
  also have "\<dots> = pow2 (f64_exp x) * 2 ^ 53"
    using pow2_add [of "f64_exp x" 53] pow2_nat [of 53] by simp
  finally show ?thesis by (simp add: pos_divide_less_eq mult.commute)
qed

lemma rne_scaled:
  assumes "0 < x"
  shows "0 \<le> rne (x / pow2 (f64_exp x))" and "rne (x / pow2 (f64_exp x)) \<le> 2 ^ 53"
proof -
  show "0 \<le> rne (x / pow2 (f64_exp x))" using assms by (intro rne_ge_int) simp
  show "rne (x / pow2 (f64_exp x)) \<le> 2 ^ 53"
    using scaled_bound [OF assms] by (intro rne_le_int) simp
qed

lemma rnd_pos_nonneg: "0 < x \<Longrightarrow> 0 \<le> rnd_pos x"
  using rne_scaled(1) [of x] by (simp add: rnd_pos_def)

lemma rep_rnd_pos: "0 < x \<Longrightarrow> rep (rnd_pos x)"
  unfolding rep_def rnd_pos_def
  by (rule exI [of _ "rne (x / pow2 (f64_exp x))"], rule exI [of _ "f64_exp x"])
    (use rne_scaled [of x] in \<open>simp add: f64_exp_def\<close>)

lemma rep_uminus: "rep x \<Longrightarrow> rep (- x)"
  unfolding rep_def by (metis abs_minus_cancel mult_minus_left of_int_minus)

lemma rep_zero: "rep 0"
  unfolding rep_def by (rule exI [of _ 0], rule exI [of _ 0]) simp

lemma rep_rnd: "rep (rnd x)"
  using rep_rnd_pos [of x] rep_rnd_pos [of "- x"] rep_zero by (auto simp: rnd_def rep_uminus)

text \<open>A representable value is a multiple of the unit in its last place: it is not rounded.\<close>

lemma rnd_pos_exact:
  assumes x: "x = of_int m * pow2 e" and m: "0 < m" "m < 2 ^ 53" and e: "- 1074 \<le> e"
  shows "rnd_pos x = x"
proof -
  have "0 < x" using x m by simp
  have "(of_int m :: rat) < 2 ^ 53" using m(2) by (metis of_int_less_iff of_int_numeral of_int_power)
  then have "x < pow2 (e + 53)"
    using x pow2_add [of e 53] pow2_nat [of 53] by simp
  then have "pow2 (ilog2 x) < pow2 (e + 53)" using ilog2_bounds(1) [OF \<open>0 < x\<close>] by linarith
  then have E: "f64_exp x \<le> e" using e by (simp add: pow2_less_iff f64_exp_def)
  let ?k = "m * 2 ^ nat (e - f64_exp x)"
  have "x / pow2 (f64_exp x) = of_int m * pow2 (e - f64_exp x)"
    by (simp add: x pow2_diff)
  also have "\<dots> = of_int ?k" using E by (simp add: pow2_def)
  finally have "rne (x / pow2 (f64_exp x)) = ?k" by (simp only: rne_int)
  then show ?thesis
    using \<open>x / pow2 (f64_exp x) = of_int m * pow2 (e - f64_exp x)\<close>
      \<open>of_int m * pow2 (e - f64_exp x) = of_int ?k\<close>
    by (simp add: rnd_pos_def) (metis nonzero_eq_divide_eq pow2_ne)
qed

lemma rnd_pos_rep:
  assumes "rep x" and "0 < x"
  shows "rnd_pos x = x"
proof -
  from assms(1) obtain m e where x: "x = of_int m * pow2 e" and m: "\<bar>m\<bar> \<le> 2 ^ 53" and e: "- 1074 \<le> e"
    by (auto simp: rep_def)
  with assms(2) have pos: "0 < m" by (simp add: zero_less_mult_iff)
  show ?thesis
  proof (cases "m = 2 ^ 53")
    case True
    then have "x = of_int (2 ^ 52) * pow2 (e + 1)"
      using x pow2_add [of e 1] by (simp add: pow2_def)
    then show ?thesis by (rule rnd_pos_exact) (use e in auto)
  next
    case False
    with m pos show ?thesis using x e by (intro rnd_pos_exact) auto
  qed
qed

lemma rnd_rep: "rep x \<Longrightarrow> rnd x = x"
  using rnd_pos_rep [of x] rnd_pos_rep [of "- x"] rep_uminus [of x] by (auto simp: rnd_def)

lemma f64_exp_mono: "0 < x \<Longrightarrow> x \<le> y \<Longrightarrow> f64_exp x \<le> f64_exp y"
  using ilog2_mono [of x y] by (simp add: f64_exp_def)

lemma rnd_pos_mono:
  assumes "0 < x" and "x \<le> y"
  shows "rnd_pos x \<le> rnd_pos y"
proof (cases "f64_exp x = f64_exp y")
  case True
  have "rne (x / pow2 (f64_exp y)) \<le> rne (y / pow2 (f64_exp y))"
    using assms(2) by (intro rne_mono) (rule divide_right_mono, simp_all)
  with True show ?thesis by (simp add: rnd_pos_def)
next
  case False
  with f64_exp_mono [OF assms] have lt: "f64_exp x + 1 \<le> f64_exp y" by simp
  then have Ey: "f64_exp y = ilog2 y - 52" by (auto simp: f64_exp_def)
  have "0 < y" using assms by simp
  have "(of_int (rne (x / pow2 (f64_exp x))) :: rat) \<le> 2 ^ 53"
    using rne_scaled(2) [OF assms(1)] by (metis of_int_le_iff of_int_numeral of_int_power)
  then have "rnd_pos x \<le> 2 ^ 53 * pow2 (f64_exp x)" by (simp add: rnd_pos_def)
  also have "\<dots> = 2 ^ 52 * pow2 (f64_exp x + 1)" using pow2_add [of "f64_exp x" 1] by (simp add: pow2_def)
  also have "\<dots> \<le> 2 ^ 52 * pow2 (f64_exp y)" using pow2_mono [OF lt] by simp
  also have "\<dots> \<le> rnd_pos y"
  proof -
    have "pow2 (f64_exp y) * 2 ^ 52 \<le> y"
      using ilog2_bounds(1) [OF \<open>0 < y\<close>] pow2_add [of "f64_exp y" 52] pow2_nat [of 52] Ey by simp
    then have "of_int (2 ^ 52) \<le> y / pow2 (f64_exp y)"
      by (simp add: pos_le_divide_eq mult.commute)
    then have "(2 :: int) ^ 52 \<le> rne (y / pow2 (f64_exp y))" by (rule rne_ge_int)
    then have "(2 :: rat) ^ 52 \<le> of_int (rne (y / pow2 (f64_exp y)))"
      by (metis of_int_le_iff of_int_numeral of_int_power)
    then show ?thesis by (simp add: rnd_pos_def)
  qed
  finally show ?thesis .
qed

lemma rnd_mono:
  assumes "x \<le> y"
  shows "rnd x \<le> rnd y"
  using assms rnd_pos_mono [of x y] rnd_pos_mono [of "- y" "- x"] rnd_pos_nonneg [of y]
    rnd_pos_nonneg [of "- x"] by (auto simp: rnd_def)

lemma rep_of_int:
  assumes "\<bar>n\<bar> \<le> 2 ^ 53"
  shows "rep (of_int n)"
  unfolding rep_def by (rule exI [of _ n], rule exI [of _ 0]) (use assms in simp)

interpretation f64: rounding rnd rep
  by unfold_locales (simp_all add: rnd_mono rep_rnd rnd_rep rep_of_int)

text \<open>The error of one rounding: half a unit in the last place.\<close>

lemma rnd_upper:
  assumes "0 \<le> x"
  shows "rnd x \<le> x * (1 + 1 / 2 ^ 53) + pow2 (- 1075)"
proof (cases "x = 0")
  case True
  then show ?thesis by (simp add: rnd_def)
next
  case False
  with assms have pos: "0 < x" by simp
  let ?u = "pow2 (f64_exp x)"
  have "of_int (rne (x / ?u)) * ?u \<le> (x / ?u + 1 / 2) * ?u"
    by (intro mult_right_mono rne_bounds) simp
  also have "\<dots> = x + ?u / 2" by (simp add: field_simps)
  finally have r: "rnd x \<le> x + ?u / 2" using pos by (simp add: rnd_def rnd_pos_def)
  have "?u \<le> pow2 (ilog2 x - 52) + pow2 (- 1074)"
    by (cases "ilog2 x - 52 \<le> - 1074") (simp_all add: f64_exp_def max_def)
  moreover have "pow2 (ilog2 x - 52) \<le> x / 2 ^ 52"
    using ilog2_bounds(1) [OF pos] pow2_diff [of "ilog2 x" 52] pow2_nat [of 52]
    by (simp add: divide_right_mono)
  moreover have "pow2 (- 1074) = 2 * pow2 (- 1075)"
    using pow2_add [of 1 "- 1075"] by (simp add: pow2_def)
  ultimately have "?u / 2 \<le> x / 2 ^ 53 + pow2 (- 1075)" by simp
  with r show ?thesis by (simp add: algebra_simps)
qed

text \<open>Taking one from a value of at least one is exact up to \<open>2 ^ 53\<close>.\<close>

lemma rep_minus_one:
  assumes "rep t" and "1 \<le> t" and "t \<le> 2 ^ 53"
  shows "rep (t - 1)"
proof -
  from assms(1) obtain m e where t: "t = of_int m * pow2 e" and m: "\<bar>m\<bar> \<le> 2 ^ 53" and e: "- 1074 \<le> e"
    by (auto simp: rep_def)
  show ?thesis
  proof (cases "0 \<le> e")
    case True
    let ?n = "m * 2 ^ nat e"
    have tn: "t = of_int ?n" using t True by (simp add: pow2_def)
    have "?n \<le> 2 ^ 53" and "1 \<le> ?n"
      using assms(2,3) unfolding tn
      by (metis of_int_le_iff of_int_numeral of_int_power, metis of_int_1_le_iff)
    then have "\<bar>?n - 1\<bar> \<le> 2 ^ 53" by linarith
    from rep_of_int [OF this] show ?thesis by (simp add: tn)
  next
    case False
    let ?d = "2 ^ nat (- e) :: int"
    have pe: "pow2 e * of_int ?d = 1" using False by (simp add: pow2_def)
    have dm: "?d \<le> m"
    proof -
      have "of_int ?d * (of_int m * pow2 e) = (of_int m :: rat)"
        using pe by (simp add: mult.commute mult.left_commute)
      moreover have "of_int ?d * 1 \<le> of_int ?d * (of_int m * pow2 e)"
        using assms(2) t by (intro mult_left_mono) simp_all
      ultimately have "(of_int ?d :: rat) \<le> of_int m" by (simp only: mult.right_neutral)
      then show ?thesis by (simp only: of_int_le_iff)
    qed
    have "t - 1 = of_int (m - ?d) * pow2 e"
      using pe by (simp add: t algebra_simps)
    moreover have "\<bar>m - ?d\<bar> \<le> 2 ^ 53"
    proof -
      have "0 < ?d" by simp
      with m dm show ?thesis by linarith
    qed
    ultimately show ?thesis using e unfolding rep_def by blast
  qed
qed

section \<open>Values and operations\<close>

datatype f64 = Fin rat | PInf | NInf | NaN

text \<open>The magnitude at which a rounded result overflows to infinity.\<close>

definition f64_overflow :: rat where
  "f64_overflow = 2 ^ 1024"

definition f64_of_rat :: "rat \<Rightarrow> f64" where
  "f64_of_rat x =
     (let r = rnd x in if f64_overflow \<le> r then PInf else if r \<le> - f64_overflow then NInf else Fin r)"

fun f64_neg :: "f64 \<Rightarrow> f64" where
  "f64_neg (Fin x) = Fin (- x)"
| "f64_neg PInf = NInf"
| "f64_neg NInf = PInf"
| "f64_neg NaN = NaN"

fun f64_add :: "f64 \<Rightarrow> f64 \<Rightarrow> f64" where
  "f64_add (Fin x) (Fin y) = f64_of_rat (x + y)"
| "f64_add NaN _ = NaN"
| "f64_add _ NaN = NaN"
| "f64_add PInf NInf = NaN"
| "f64_add NInf PInf = NaN"
| "f64_add PInf _ = PInf"
| "f64_add _ PInf = PInf"
| "f64_add NInf _ = NInf"
| "f64_add _ NInf = NInf"

definition f64_sub :: "f64 \<Rightarrow> f64 \<Rightarrow> f64" where
  "f64_sub a b = f64_add a (f64_neg b)"

definition f64_inf :: "bool \<Rightarrow> f64" where
  "f64_inf pos = (if pos then PInf else NInf)"

fun f64_mul :: "f64 \<Rightarrow> f64 \<Rightarrow> f64" where
  "f64_mul (Fin x) (Fin y) = f64_of_rat (x * y)"
| "f64_mul NaN _ = NaN"
| "f64_mul _ NaN = NaN"
| "f64_mul (Fin x) b = (if x = 0 then NaN else f64_inf ((0 < x) = (b = PInf)))"
| "f64_mul a (Fin y) = (if y = 0 then NaN else f64_inf ((0 < y) = (a = PInf)))"
| "f64_mul a b = f64_inf (a = b)"

text \<open>Division by a finite divisor other than zero, the only kind in the source.\<close>

fun f64_div_by :: "f64 \<Rightarrow> rat \<Rightarrow> f64" where
  "f64_div_by (Fin x) d = f64_of_rat (x / d)"
| "f64_div_by NaN d = NaN"
| "f64_div_by a d = f64_inf ((0 < d) = (a = PInf))"

fun f64_le :: "f64 \<Rightarrow> f64 \<Rightarrow> bool" where
  "f64_le (Fin x) (Fin y) = (x \<le> y)"
| "f64_le NaN _ = False"
| "f64_le _ NaN = False"
| "f64_le NInf _ = True"
| "f64_le _ PInf = True"
| "f64_le _ _ = False"

text \<open>\<^verbatim>\<open>f64::min\<close> and \<^verbatim>\<open>f64::max\<close>: if one argument is NaN, the other is returned.\<close>

definition f64_min :: "f64 \<Rightarrow> f64 \<Rightarrow> f64" where
  "f64_min a b = (if a = NaN then b else if b = NaN then a else if f64_le a b then a else b)"

definition f64_max :: "f64 \<Rightarrow> f64 \<Rightarrow> f64" where
  "f64_max a b = (if a = NaN then b else if b = NaN then a else if f64_le a b then b else a)"

text \<open>The casts \<^verbatim>\<open>u32 as f64\<close> (exact), \<^verbatim>\<open>i64 as f64\<close> (rounded) and \<^verbatim>\<open>f64 as u64\<close> (truncated
  towards zero, saturated at the ends, NaN to zero).\<close>

definition f64_of_u32 :: "u32 \<Rightarrow> f64" where
  "f64_of_u32 w = Fin (of_nat (unat w))"

definition f64_of_i64 :: "int \<Rightarrow> f64" where
  "f64_of_i64 i = f64_of_rat (of_int i)"

fun f64_to_u64 :: "f64 \<Rightarrow> u64" where
  "f64_to_u64 (Fin x) =
     (if x \<le> 0 then 0 else if 18446744073709551615 \<le> x then - 1 else of_int \<lfloor>x\<rfloor>)"
| "f64_to_u64 PInf = - 1"
| "f64_to_u64 NInf = 0"
| "f64_to_u64 NaN = 0"

fun f64_finite :: "f64 \<Rightarrow> bool" where
  "f64_finite (Fin x) = rep x"
| "f64_finite _ = False"

lemma f64_overflow_large: "2 ^ 64 < f64_overflow"
  by (simp add: f64_overflow_def)

lemma f64_of_rat_nonneg:
  assumes "0 \<le> x"
  shows "0 \<le> rnd x" and "f64_of_rat x = (if f64_overflow \<le> rnd x then PInf else Fin (rnd x))"
proof -
  show r: "0 \<le> rnd x" using assms by (rule f64.rn_nonneg)
  show "f64_of_rat x = (if f64_overflow \<le> rnd x then PInf else Fin (rnd x))"
    using r f64_overflow_large by (auto simp: f64_of_rat_def Let_def)
qed

lemma rep_pow2: "- 1074 \<le> e \<Longrightarrow> rep (pow2 e)"
  unfolding rep_def by (rule exI [of _ 1], rule exI [of _ e]) simp

lemma f64_of_rat_Fin:
  assumes "0 \<le> x" and "x \<le> 2 ^ 100"
  shows "f64_of_rat x = Fin (rnd x)"
proof -
  have "rnd x \<le> pow2 100" using assms(2) by (intro f64.rn_le rep_pow2) (simp_all add: pow2_def)
  then have "rnd x < f64_overflow" by (simp add: f64_overflow_def pow2_def)
  with f64_of_rat_nonneg(2) [OF assms(1)] show ?thesis by simp
qed

lemma f64_of_rat_small: "0 \<le> x \<Longrightarrow> x \<le> 2 ^ 53 \<Longrightarrow> f64_of_rat x = Fin (rnd x)"
  by (rule f64_of_rat_Fin) simp_all

lemma rep_half: "rep (1 / 2)"
  unfolding rep_def by (rule exI [of _ 1], rule exI [of _ "- 1"]) (simp add: pow2_def)

lemma f64_exact: "rep x \<Longrightarrow> 0 \<le> x \<Longrightarrow> x \<le> 2 ^ 53 \<Longrightarrow> f64_of_rat x = Fin x"
  using f64_of_rat_small [of x] f64.rp_rn [of x] by simp

lemma rep_numeral [simp]: "rep (numeral k)" if "(numeral k :: nat) \<le> 2 ^ 53"
  using f64.rp_nat [OF that] by simp

lemma rep_halves: "\<bar>k\<bar> \<le> 2 ^ 53 \<Longrightarrow> rep (of_int k / 2)"
  unfolding rep_def by (rule exI [of _ k], rule exI [of _ "- 1"]) (simp add: pow2_def)

end
