(* ===== verification/Ticket.thy ===== *)
theory Ticket
  imports Rust_Str Rust_Fs
begin

text \<open>
  \<^verbatim>\<open>src/lib.rs\<close>: node identities, ticket claims, issuing, signing and verifying tickets, and
  the operator's relay configuration.

  The Ed25519 implementation (\<^verbatim>\<open>ed25519_dalek\<close>), the base64url codec (\<^verbatim>\<open>base64ct\<close>) and
  the JSON printer (\<^verbatim>\<open>serde_json\<close>) are other crates. They enter as the fields of the record
  \<open>crates\<close>, an argument of every operation that calls them; what the code relies on is
  stated by the predicates \<open>ed25519_correct\<close>, \<open>base64_roundtrip\<close> and \<open>json_total\<close>,
  hypotheses of the theorems that need them.
\<close>

section \<open>Data\<close>

definition TICKET_VERSION :: u8 where
  "TICKET_VERSION = 1"

definition DEFAULT_ALPN :: string where
  "DEFAULT_ALPN = ''/snappipe/0''"

definition DEFAULT_TICKET_TTL_SECS :: int where
  "DEFAULT_TICKET_TTL_SECS = 300"

datatype NodeId = NodeId (NodeId_as_str: string)

record TicketClaims =
  tc_version :: u8
  tc_issuer :: NodeId
  tc_subject :: NodeId
  tc_relay_url :: string
  tc_alpn :: string
  tc_issued_at :: int
  tc_expires_at :: int
  tc_nonce :: string

record SignedTicket =
  st_claims :: TicketClaims
  st_signature :: string

datatype TicketError =
    InvalidKeyEncoding
  | InvalidSignatureEncoding
  | InvalidSignature
  | Expired
  | UnsupportedVersion u8
  | Serialization string

section \<open>The crates the code calls\<close>

record ('sk, 'vk, 'sg) crates =
  verifying_key :: "'sk \<Rightarrow> 'vk"
  sk_to_keypair_bytes :: "'sk \<Rightarrow> bytes"
  sk_from_keypair_bytes :: "bytes \<Rightarrow> 'sk option"
  vk_as_bytes :: "'vk \<Rightarrow> bytes"
  vk_from_bytes :: "bytes \<Rightarrow> 'vk option"
  sign :: "'sk \<Rightarrow> string \<Rightarrow> 'sg"
  verify :: "'vk \<Rightarrow> string \<Rightarrow> 'sg \<Rightarrow> bool"
  sig_to_bytes :: "'sg \<Rightarrow> bytes"
  sig_from_bytes :: "bytes \<Rightarrow> 'sg"
  b64_encode_string :: "bytes \<Rightarrow> string"
  b64_decode :: "string \<Rightarrow> nat \<Rightarrow> bytes option"
  claims_to_json :: "TicketClaims \<Rightarrow> string + string"

text \<open>
  \<open>b64_decode s n\<close> is \<^verbatim>\<open>Base64UrlUnpadded::decode(s, &mut [0u8; n])\<close>: the buffer after a
  successful call, \<open>None\<close> for an error. Signing a message gives a signature that verifies
  under the public half of the key; keys and signatures survive their byte encodings.
\<close>

definition ed25519_correct :: "('sk, 'vk, 'sg, 'z) crates_scheme \<Rightarrow> bool" where
  "ed25519_correct cr \<longleftrightarrow>
     (\<forall>sk m. verify cr (verifying_key cr sk) m (sign cr sk m)) \<and>
     (\<forall>sg. length (sig_to_bytes cr sg) = 64 \<and> sig_from_bytes cr (sig_to_bytes cr sg) = sg) \<and>
     (\<forall>vk. length (vk_as_bytes cr vk) = 32 \<and> vk_from_bytes cr (vk_as_bytes cr vk) = Some vk) \<and>
     (\<forall>sk. length (sk_to_keypair_bytes cr sk) = 64 \<and>
        sk_from_keypair_bytes cr (sk_to_keypair_bytes cr sk) = Some sk)"

definition base64_roundtrip :: "('sk, 'vk, 'sg, 'z) crates_scheme \<Rightarrow> bool" where
  "base64_roundtrip cr \<longleftrightarrow>
     (\<forall>bs. b64_decode cr (b64_encode_string cr bs) (length bs) = Some bs)"

definition json_total :: "('sk, 'vk, 'sg, 'z) crates_scheme \<Rightarrow> bool" where
  "json_total cr \<longleftrightarrow> (\<forall>c. \<exists>s. claims_to_json cr c = Inr s)"

definition json_injective :: "('sk, 'vk, 'sg, 'z) crates_scheme \<Rightarrow> bool" where
  "json_injective cr \<longleftrightarrow>
     (\<forall>c c' s. claims_to_json cr c = Inr s \<longrightarrow> claims_to_json cr c' = Inr s \<longrightarrow> c = c')"

text \<open>
  \<open>forgery cr vk msgs m sg\<close>: a signature that verifies although its message is not among those the holder of
  the key signed. Forgeries exist, as signatures are finite strings, and Ed25519 makes them infeasible to find; the properties
  name the forgery that an attack would have to come with, and assume nothing about it.
\<close>

definition forgery :: "('sk, 'vk, 'sg, 'z) crates_scheme \<Rightarrow> 'vk \<Rightarrow> string set \<Rightarrow> string \<Rightarrow> 'sg \<Rightarrow> bool" where
  "forgery cr vk msgs m sg \<longleftrightarrow> verify cr vk m sg \<and> m \<notin> msgs"

definition payloads :: "('sk, 'vk, 'sg, 'z) crates_scheme \<Rightarrow> TicketClaims set \<Rightarrow> string set" where
  "payloads cr signed_claims = {m. \<exists>c \<in> signed_claims. claims_to_json cr c = Inr m}"

section \<open>Identities and key encodings\<close>

definition NodeId_from_verifying_key :: "('sk, 'vk, 'sg, 'z) crates_scheme \<Rightarrow> 'vk \<Rightarrow> NodeId" where
  "NodeId_from_verifying_key cr key = NodeId (b64_encode_string cr (vk_as_bytes cr key))"

definition NodeId_parse :: "('sk, 'vk, 'sg, 'z) crates_scheme \<Rightarrow> string \<Rightarrow> TicketError + NodeId" where
  "NodeId_parse cr value =
     (case b64_decode cr value 32 of
        None \<Rightarrow> Inl InvalidKeyEncoding
      | Some _ \<Rightarrow> Inr (NodeId value))"

definition encode_secret_key :: "('sk, 'vk, 'sg, 'z) crates_scheme \<Rightarrow> 'sk \<Rightarrow> string" where
  "encode_secret_key cr sk = b64_encode_string cr (sk_to_keypair_bytes cr sk)"

definition decode_secret_key :: "('sk, 'vk, 'sg, 'z) crates_scheme \<Rightarrow> string \<Rightarrow> TicketError + 'sk" where
  "decode_secret_key cr encoded =
     (case b64_decode cr encoded 64 of
        None \<Rightarrow> Inl InvalidKeyEncoding
      | Some bs \<Rightarrow> ok_or InvalidKeyEncoding (sk_from_keypair_bytes cr bs))"

definition encode_public_key :: "('sk, 'vk, 'sg, 'z) crates_scheme \<Rightarrow> 'vk \<Rightarrow> string" where
  "encode_public_key cr vk = b64_encode_string cr (vk_as_bytes cr vk)"

definition decode_public_key :: "('sk, 'vk, 'sg, 'z) crates_scheme \<Rightarrow> string \<Rightarrow> TicketError + 'vk" where
  "decode_public_key cr encoded =
     (case b64_decode cr encoded 32 of
        None \<Rightarrow> Inl InvalidKeyEncoding
      | Some bs \<Rightarrow> ok_or InvalidKeyEncoding (vk_from_bytes cr bs))"

definition decode_signature :: "('sk, 'vk, 'sg, 'z) crates_scheme \<Rightarrow> string \<Rightarrow> TicketError + 'sg" where
  "decode_signature cr encoded =
     (case b64_decode cr encoded 64 of
        None \<Rightarrow> Inl InvalidSignatureEncoding
      | Some bs \<Rightarrow> Inr (sig_from_bytes cr bs))"

section \<open>Tickets\<close>

definition canonical_ticket_payload ::
  "('sk, 'vk, 'sg, 'z) crates_scheme \<Rightarrow> TicketClaims \<Rightarrow> TicketError + string" where
  "canonical_ticket_payload cr claims = map_err Serialization (claims_to_json cr claims)"

definition sign_ticket ::
  "('sk, 'vk, 'sg, 'z) crates_scheme \<Rightarrow> TicketClaims \<Rightarrow> 'sk \<Rightarrow> TicketError + SignedTicket" where
  "sign_ticket cr claims sk =
     (case canonical_ticket_payload cr claims of
        Inl e \<Rightarrow> Inl e
      | Inr payload \<Rightarrow>
          Inr \<lparr>st_claims = claims,
               st_signature = b64_encode_string cr (sig_to_bytes cr (sign cr sk payload))\<rparr>)"

text \<open>
  \<open>random_nonce\<close> is the 16 bytes drawn from the operating system. \<open>None\<close> is the panic of
  \<^verbatim>\<open>now + ttl_seconds\<close> in a build with overflow checks.
\<close>

definition issue_ticket ::
  "('sk, 'vk, 'sg, 'z) crates_scheme \<Rightarrow> bool \<Rightarrow> bytes \<Rightarrow> 'sk \<Rightarrow> 'vk option \<Rightarrow> string \<Rightarrow> string \<Rightarrow>
     int \<Rightarrow> int \<Rightarrow> (TicketError + SignedTicket) option" where
  "issue_ticket cr checks random_nonce sk subject_key relay_url alpn ttl_seconds now =
     (let issuer = NodeId_from_verifying_key cr (verifying_key cr sk);
          subject = NodeId_from_verifying_key cr
            (case subject_key of None \<Rightarrow> verifying_key cr sk | Some k \<Rightarrow> k)
      in case i64_add checks now ttl_seconds of
           None \<Rightarrow> None
         | Some expires_at \<Rightarrow>
             Some (sign_ticket cr
               \<lparr>tc_version = TICKET_VERSION, tc_issuer = issuer, tc_subject = subject,
                tc_relay_url = relay_url, tc_alpn = alpn, tc_issued_at = now,
                tc_expires_at = expires_at,
                tc_nonce = b64_encode_string cr random_nonce\<rparr> sk))"

definition verify_ticket ::
  "('sk, 'vk, 'sg, 'z) crates_scheme \<Rightarrow> SignedTicket \<Rightarrow> 'vk \<Rightarrow> int \<Rightarrow> TicketError + TicketClaims" where
  "verify_ticket cr ticket vk now =
     (if tc_version (st_claims ticket) \<noteq> TICKET_VERSION
      then Inl (UnsupportedVersion (tc_version (st_claims ticket)))
      else if tc_expires_at (st_claims ticket) < now then Inl Expired
      else case canonical_ticket_payload cr (st_claims ticket) of
        Inl e \<Rightarrow> Inl e
      | Inr payload \<Rightarrow>
          (case decode_signature cr (st_signature ticket) of
             Inl e \<Rightarrow> Inl e
           | Inr sg \<Rightarrow>
               if verify cr vk payload sg then Inr (st_claims ticket)
               else Inl InvalidSignature))"

text \<open>\<^verbatim>\<open>now_unix_seconds\<close>: \<open>None\<close> is the panic for a clock before the epoch.\<close>

definition now_unix_seconds :: "system_time \<Rightarrow> int option" where
  "now_unix_seconds t =
     (case duration_since_epoch t of
        None \<Rightarrow> None
      | Some d \<Rightarrow> Some (i64_wrap (int (as_secs d))))"

section \<open>The operator's relay configuration\<close>

record RelayConfig =
  rc_node_name :: string
  rc_public_hostname :: string
  rc_quic_bind :: string
  rc_metrics_bind :: string
  rc_default_alpn :: string
  rc_stun_bind :: "string option"
  rc_default_ticket_ttl :: int
  rc_relay_mode :: string

definition RelayConfig_sample :: RelayConfig where
  "RelayConfig_sample =
     \<lparr>rc_node_name = ''snappipe-relay-prod-1'',
      rc_public_hostname = ''relay.example.net'',
      rc_quic_bind = ''0.0.0.0:4433'',
      rc_metrics_bind = ''127.0.0.1:9109'',
      rc_default_alpn = DEFAULT_ALPN,
      rc_stun_bind = Some ''0.0.0.0:3478'',
      rc_default_ticket_ttl = DEFAULT_TICKET_TTL_SECS,
      rc_relay_mode = ''identity-gated''\<rparr>"

definition quoted :: "string \<Rightarrow> string" where
  "quoted s = [DQUOTE] @ s @ [DQUOTE]"

definition RelayConfig_to_toml_like :: "RelayConfig \<Rightarrow> string" where
  "RelayConfig_to_toml_like c =
     ''node_name = '' @ quoted (rc_node_name c) @ [LF] @
     ''public_hostname = '' @ quoted (rc_public_hostname c) @ [LF] @
     ''quic_bind = '' @ quoted (rc_quic_bind c) @ [LF] @
     ''metrics_bind = '' @ quoted (rc_metrics_bind c) @ [LF] @
     ''default_alpn = '' @ quoted (rc_default_alpn c) @ [LF] @
     ''stun_bind = '' @ (case rc_stun_bind c of None \<Rightarrow> quoted [] | Some v \<Rightarrow> quoted v) @ [LF] @
     ''default_ticket_ttl = '' @ show_int (rc_default_ticket_ttl c) @ [LF] @
     ''relay_mode = '' @ quoted (rc_relay_mode c) @ [LF]"

section \<open>Lemmas\<close>

lemmas ticket_key_defs = NodeId_from_verifying_key_def NodeId_parse_def encode_secret_key_def
  decode_secret_key_def encode_public_key_def decode_public_key_def decode_signature_def

lemma decode_signature_encoded:
  "ed25519_correct cr \<Longrightarrow> base64_roundtrip cr \<Longrightarrow>
     decode_signature cr (b64_encode_string cr (sig_to_bytes cr sg)) = Inr sg"
  unfolding ed25519_correct_def base64_roundtrip_def decode_signature_def
  by (metis option.case(2))

lemma verify_ticket_Ok_iff:
  "verify_ticket cr t vk now = Inr c \<longleftrightarrow>
     c = st_claims t \<and> tc_version c = TICKET_VERSION \<and> now \<le> tc_expires_at c \<and>
     (\<exists>payload sg. claims_to_json cr c = Inr payload \<and>
        decode_signature cr (st_signature t) = Inr sg \<and> verify cr vk payload sg)"
  by (auto simp: verify_ticket_def canonical_ticket_payload_def split: sum.splits)

lemma accepted_claims_forged:
  assumes "json_injective cr" and "claims_to_json cr c = Inr m" "verify cr vk m sg" and "c \<notin> signed_claims"
  shows "forgery cr vk (payloads cr signed_claims) m sg"
  using assms by (auto simp: forgery_def payloads_def json_injective_def)

lemma verify_sign_ticket:
  assumes "ed25519_correct cr" and "base64_roundtrip cr"
    and "sign_ticket cr c sk = Inr t"
    and "tc_version c = TICKET_VERSION" and "now \<le> tc_expires_at c"
  shows "verify_ticket cr t (verifying_key cr sk) now = Inr c"
proof -
  from assms(3) obtain payload where p: "claims_to_json cr c = Inr payload"
    and t: "t = \<lparr>st_claims = c,
      st_signature = b64_encode_string cr (sig_to_bytes cr (sign cr sk payload))\<rparr>"
    by (auto simp: sign_ticket_def canonical_ticket_payload_def split: sum.splits)
  have "verify cr (verifying_key cr sk) payload (sign cr sk payload)"
    using assms(1) by (simp add: ed25519_correct_def)
  with p t assms show ?thesis
    by (auto simp: verify_ticket_Ok_iff decode_signature_encoded)
qed

lemma issue_ticket_claims:
  assumes "issue_ticket cr checks nonce sk sub url alpn ttl now = Some (Inr t)"
  shows "st_claims t = \<lparr>tc_version = TICKET_VERSION,
      tc_issuer = NodeId_from_verifying_key cr (verifying_key cr sk),
      tc_subject = NodeId_from_verifying_key cr (case sub of None \<Rightarrow> verifying_key cr sk | Some k \<Rightarrow> k),
      tc_relay_url = url, tc_alpn = alpn, tc_issued_at = now,
      tc_expires_at = the (i64_add checks now ttl), tc_nonce = b64_encode_string cr nonce\<rparr>"
    and "sign_ticket cr (st_claims t) sk = Inr t"
  using assms
  by (auto simp: issue_ticket_def sign_ticket_def canonical_ticket_payload_def Let_def
      split: option.splits sum.splits)

lemma sign_ticket_total: "json_total cr \<Longrightarrow> \<exists>t. sign_ticket cr c sk = Inr t"
proof -
  assume "json_total cr"
  then obtain m where "claims_to_json cr c = Inr m" by (auto simp: json_total_def)
  then show ?thesis by (simp add: sign_ticket_def canonical_ticket_payload_def)
qed

lemma issue_ticket_total:
  assumes "json_total cr" and "is_i64 (now + ttl)"
  shows "\<exists>t. issue_ticket cr checks nonce sk sub url alpn ttl now = Some (Inr t)"
  using sign_ticket_total [OF assms(1)] assms(2) by (simp add: issue_ticket_def i64_add_exact Let_def)

text \<open>
  Length-prefixed fields, a serialisation that is injective; the demonstration crates of
  the witnesses print claims with it.
\<close>

definition netstring :: "string \<Rightarrow> string" where
  "netstring s = show_nat (length s) @ COLON # s"

lemma show_nat_inj: "show_nat a = show_nat b \<Longrightarrow> a = b"
  using parse_digits_show_nat [of a "\<lambda>_. True" 1 Empty]
    parse_digits_show_nat [of b "\<lambda>_. True" 1 Empty]
  by (metis mult_1 of_nat_eq_iff sum.inject(2))

lemma netstring_inj: "netstring a @ r = netstring b @ q \<Longrightarrow> a = b \<and> r = q"
proof -
  assume eq: "netstring a @ r = netstring b @ q"
  have no: "COLON \<notin> set (show_nat n)" for n
    by (auto simp: is_digit_char_def dest!: show_nat_chars)
  have "split_once COLON (netstring s @ t) = Some (show_nat (length s), s @ t)" for s t
    using split_once_append [OF no, of "length s" "s @ t"] by (simp add: netstring_def)
  from this [of a r] this [of b q] eq
  have "show_nat (length a) = show_nat (length b)" and "a @ r = b @ q" by simp_all
  then show ?thesis using show_nat_inj by force
qed


section \<open>Demonstration crates\<close>

text \<open>
  Concrete functions that meet the hypotheses on the crates, at which the witnesses apply
  the theorems. Keys and signatures are single bytes, a signature is the key plus a
  checksum of the message, base64 is the identity on bytes. They stand for nothing in the
  program.
\<close>

definition demo_checksum :: "string \<Rightarrow> u8" where
  "demo_checksum m = sum_list (map of_char m)"

definition demo_json :: "TicketClaims \<Rightarrow> string" where
  "demo_json c = concat (map netstring
     [show_nat (unat (tc_version c)), NodeId_as_str (tc_issuer c), NodeId_as_str (tc_subject c),
      tc_relay_url c, tc_alpn c, show_int (tc_issued_at c), show_int (tc_expires_at c),
      tc_nonce c])"

definition demo_crates :: "(u8, u8, u8) crates" where
  "demo_crates =
     \<lparr>verifying_key = (\<lambda>sk. sk),
      sk_to_keypair_bytes = replicate 64,
      sk_from_keypair_bytes = (\<lambda>bs. Some (hd bs)),
      vk_as_bytes = replicate 32,
      vk_from_bytes = (\<lambda>bs. Some (hd bs)),
      sign = (\<lambda>sk m. sk + demo_checksum m),
      verify = (\<lambda>vk m sg. sg = vk + demo_checksum m),
      sig_to_bytes = replicate 64,
      sig_from_bytes = hd,
      b64_encode_string = map (\<lambda>b. char_of (unat b)),
      b64_decode = (\<lambda>s n. if length s = n then Some (map of_char s) else None),
      claims_to_json = (\<lambda>c. Inr (demo_json c))\<rparr>"

lemma demo_b64_inverse: "map of_char (map (\<lambda>b :: u8. char_of (unat b)) bs) = bs"
proof -
  have "of_char (char_of (unat b)) = b" for b :: u8
  proof -
    have "(of_char (char_of (unat b)) :: nat) = unat b"
      using unsigned_less [where ?'a = nat, of b] by simp
    then have "(of_nat (of_char (char_of (unat b))) :: u8) = of_nat (unat b)" by simp
    then show ?thesis by (simp add: of_char_def)
  qed
  then show ?thesis by (induction bs) simp_all
qed

lemma demo_ed25519 [simp]: "ed25519_correct demo_crates"
  by (simp add: ed25519_correct_def demo_crates_def)

lemma demo_base64 [simp]: "base64_roundtrip demo_crates"
  using demo_b64_inverse by (simp add: base64_roundtrip_def demo_crates_def)

lemma demo_json_total [simp]: "json_total demo_crates"
  by (simp add: json_total_def demo_crates_def)

lemma show_int_inj: "show_int a = show_int b \<Longrightarrow> a = b"
proof -
  have neg: "show_nat n \<noteq> CHR ''-'' # s" for n s
    using show_nat_hd [of n] by (auto simp: is_digit_char_def)
  assume "show_int a = show_int b"
  then show ?thesis
    using show_nat_inj [of "nat a" "nat b"] show_nat_inj [of "nat (- a)" "nat (- b)"] neg
    by (auto simp: show_int_def split: if_splits) (metis neg)+
qed

lemma demo_json_inj: "demo_json c = demo_json c' \<Longrightarrow> c = c'"
proof -
  assume "demo_json c = demo_json c'"
  then have "show_nat (unat (tc_version c)) = show_nat (unat (tc_version c'))"
    and "NodeId_as_str (tc_issuer c) = NodeId_as_str (tc_issuer c')"
    and "NodeId_as_str (tc_subject c) = NodeId_as_str (tc_subject c')"
    and "tc_relay_url c = tc_relay_url c'" and "tc_alpn c = tc_alpn c'"
    and "show_int (tc_issued_at c) = show_int (tc_issued_at c')"
    and "show_int (tc_expires_at c) = show_int (tc_expires_at c')"
    and "tc_nonce c = tc_nonce c'"
    using netstring_inj [of "tc_nonce c" "[]" "tc_nonce c'" "[]"]
    by (auto simp: demo_json_def dest!: netstring_inj)
  then show ?thesis
    using show_nat_inj show_int_inj
    by (intro TicketClaims.equality) (auto simp: word_unat_eq_iff intro: NodeId.expand)
qed

lemma demo_json_injective [simp]: "json_injective demo_crates"
  using demo_json_inj by (auto simp: json_injective_def demo_crates_def)


section \<open>Properties\<close>

text \<open>
  C4. A ticket made by \<^verbatim>\<open>issue_ticket\<close> is accepted by \<^verbatim>\<open>verify_ticket\<close> under the issuer's
  public key at every instant up to and including its expiry, and the claims that come back
  name the issuer, the chosen subject (the issuer itself when none is given), the relay, the
  ALPN and the time of issue. Issuing succeeds in both build modes when the expiry fits an
  \<open>i64\<close>.
\<close>

theorem issued_ticket_verifies:
  assumes "ed25519_correct cr" and "base64_roundtrip cr" and "json_total cr"
    and "is_i64 (now + ttl)"
  shows "\<exists>t. issue_ticket cr checks nonce sk sub url alpn ttl now = Some (Inr t) \<and>
    (\<forall>at \<le> now + ttl. verify_ticket cr t (verifying_key cr sk) at = Inr
       \<lparr>tc_version = 1, tc_issuer = NodeId_from_verifying_key cr (verifying_key cr sk),
        tc_subject = NodeId_from_verifying_key cr
          (case sub of None \<Rightarrow> verifying_key cr sk | Some k \<Rightarrow> k),
        tc_relay_url = url, tc_alpn = alpn, tc_issued_at = now, tc_expires_at = now + ttl,
        tc_nonce = b64_encode_string cr nonce\<rparr>) \<and>
    (\<forall>at > now + ttl. verify_ticket cr t (verifying_key cr sk) at = Inl Expired)"
proof -
  from assms(3,4) obtain t where t: "issue_ticket cr checks nonce sk sub url alpn ttl now = Some (Inr t)"
    using issue_ticket_total [of cr now ttl checks nonce sk sub url alpn] by blast
  note c = issue_ticket_claims [OF t]
  have "verify_ticket cr t (verifying_key cr sk) at = Inr (st_claims t)" if "at \<le> now + ttl" for at
    using that assms c by (intro verify_sign_ticket) (auto simp: i64_add_exact)
  moreover have "verify_ticket cr t (verifying_key cr sk) at = Inl Expired" if "at > now + ttl" for at
    using that assms(4) c(1) by (simp add: verify_ticket_def i64_add_exact)
  ultimately show ?thesis using t c(1) assms(4) by (auto simp: i64_add_exact TICKET_VERSION_def)
qed

theorem issued_ticket_verifies_witness:
  "\<exists>t. issue_ticket demo_crates True [1, 2] 7 (Some 9) ''quic://relay'' DEFAULT_ALPN 300 1700000000
      = Some (Inr t) \<and>
    verify_ticket demo_crates t 7 1700000300 = Inr
      \<lparr>tc_version = 1, tc_issuer = NodeId_from_verifying_key demo_crates 7,
       tc_subject = NodeId_from_verifying_key demo_crates 9, tc_relay_url = ''quic://relay'',
       tc_alpn = DEFAULT_ALPN, tc_issued_at = 1700000000, tc_expires_at = 1700000300,
       tc_nonce = b64_encode_string demo_crates [1, 2]\<rparr> \<and>
    verify_ticket demo_crates t 7 1700000301 = Inl Expired"
proof -
  have r: "is_i64 (1700000000 + 300)" by (simp add: i64_simps)
  have k: "verifying_key demo_crates 7 = 7" by (simp add: demo_crates_def)
  show ?thesis
    using issued_ticket_verifies [OF demo_ed25519 demo_base64 demo_json_total r,
        of True "[1, 2]" 7 "Some 9" "''quic://relay''" DEFAULT_ALPN]
    by (auto simp: k)
qed

text \<open>
  C5. Authenticity, by reduction to the signature scheme. A ticket accepted under a key carries a signature over exactly
  the canonical payload of the claims that are returned, has version 1 and has not expired. So whatever set of claims the holder
  of the key signed, a ticket accepted with other claims is a forgery of its signature on a payload that was never signed: no
  field can be altered without one. And a signature carried over to a ticket with other claims is accepted only if it
  verifies over two different messages.
\<close>

theorem verified_claims_were_signed:
  assumes "json_injective cr" and "verify_ticket cr t vk now = Inr c"
  shows "c = st_claims t \<and> tc_version c = 1 \<and> now \<le> tc_expires_at c \<and>
    (\<exists>m sg. canonical_ticket_payload cr c = Inr m \<and> decode_signature cr (st_signature t) = Inr sg \<and> verify cr vk m sg \<and>
       (\<forall>signed_claims. c \<in> signed_claims \<or> forgery cr vk (payloads cr signed_claims) m sg) \<and>
       (\<forall>t' now' c'. verify_ticket cr t' vk now' = Inr c' \<and> st_signature t' = st_signature t \<and> c' \<noteq> c \<longrightarrow>
          (\<exists>m'. canonical_ticket_payload cr c' = Inr m' \<and> m' \<noteq> m \<and> verify cr vk m' sg)))"
proof -
  from assms(2) obtain m sg where m: "claims_to_json cr c = Inr m" "decode_signature cr (st_signature t) = Inr sg" "verify cr vk m sg"
    and rest: "c = st_claims t" "tc_version c = 1" "now \<le> tc_expires_at c"
    by (auto simp: verify_ticket_Ok_iff TICKET_VERSION_def)
  have "\<exists>m'. canonical_ticket_payload cr c' = Inr m' \<and> m' \<noteq> m \<and> verify cr vk m' sg"
    if "verify_ticket cr t' vk now' = Inr c'" "st_signature t' = st_signature t" "c' \<noteq> c" for t' now' c'
  proof -
    from that obtain m' where "claims_to_json cr c' = Inr m'" "verify cr vk m' sg"
      using m(2) by (auto simp: verify_ticket_Ok_iff)
    moreover from this have "m' \<noteq> m" using m(1) that(3) assms(1) by (auto simp: json_injective_def)
    ultimately show ?thesis by (simp add: canonical_ticket_payload_def)
  qed
  moreover have "c \<in> signed_claims \<or> forgery cr vk (payloads cr signed_claims) m sg" for signed_claims
    using accepted_claims_forged [OF assms(1) m(1,3)] by blast
  ultimately show ?thesis using m rest by (auto simp: canonical_ticket_payload_def)
qed

definition demo_claims :: TicketClaims where
  "demo_claims = \<lparr>tc_version = 1, tc_issuer = NodeId ''op'', tc_subject = NodeId ''peer'',
     tc_relay_url = ''quic://relay'', tc_alpn = ''/snappipe/0'', tc_issued_at = 10,
     tc_expires_at = 20, tc_nonce = ''n''\<rparr>"

text \<open>
  The signatures of the demonstration crates can be forged: a permutation of the letters keeps the checksum. The
  key signed a ticket for one relay, and its signature is carried over to a ticket for another one.
\<close>

theorem verified_claims_were_signed_witness:
  "let forged = demo_claims\<lparr>tc_relay_url := ''quic://rylea''\<rparr>; sig = replicate 64 (char_of (unat (7 + demo_checksum (demo_json demo_claims))))
   in sign_ticket demo_crates demo_claims 7 = Inr \<lparr>st_claims = demo_claims, st_signature = sig\<rparr> \<and>
      verify_ticket demo_crates \<lparr>st_claims = forged, st_signature = sig\<rparr> 7 20 = Inr forged \<and>
      (\<exists>m sg. forgery demo_crates 7 (payloads demo_crates {demo_claims}) m sg)"
proof -
  let ?forged = "demo_claims\<lparr>tc_relay_url := ''quic://rylea''\<rparr>"
  let ?sg = "7 + demo_checksum (demo_json demo_claims)"
  let ?t = "\<lparr>st_claims = ?forged, st_signature = replicate 64 (char_of (unat ?sg))\<rparr>"
  have sum: "demo_checksum (demo_json ?forged) = demo_checksum (demo_json demo_claims)"
    by code_simp
  have s: "sign_ticket demo_crates demo_claims 7 = Inr \<lparr>st_claims = demo_claims, st_signature = replicate 64 (char_of (unat ?sg))\<rparr>"
    by (simp add: sign_ticket_def canonical_ticket_payload_def demo_crates_def)
  have "decode_signature demo_crates (replicate 64 (char_of (unat ?sg))) = Inr ?sg"
    using demo_b64_inverse [of "[?sg]"] by (simp add: decode_signature_def demo_crates_def)
  moreover have "verify demo_crates 7 (demo_json ?forged) ?sg" "claims_to_json demo_crates ?forged = Inr (demo_json ?forged)"
    using sum by (simp_all add: demo_crates_def)
  moreover have "tc_version ?forged = TICKET_VERSION" "20 \<le> tc_expires_at ?forged"
    by (simp_all add: demo_claims_def TICKET_VERSION_def)
  ultimately have v: "verify_ticket demo_crates ?t 7 20 = Inr ?forged"
    by (auto simp: verify_ticket_Ok_iff)
  have "?forged \<notin> {demo_claims}" by (simp add: demo_claims_def)
  then have "\<exists>m sg. forgery demo_crates 7 (payloads demo_crates {demo_claims}) m sg"
    using verified_claims_were_signed [OF demo_json_injective v] by blast
  with s v show ?thesis by (simp add: Let_def)
qed

text \<open>
  C40. When the expiry of a new ticket does not fit an \<open>i64\<close>, a build with overflow checks panics and a build without
  issues a ticket whose expiry is off by \<open>2\<^sup>64\<close>. Past the upper end the wrapped expiry lies before the time of issue: no key
  accepts the ticket then or later. Past the lower end, which takes a clock before the epoch and a negative lifetime, it lies far in
  the future: the issuer's key accepts the ticket until then.
\<close>

theorem issue_ticket_overflow:
  assumes "is_i64 now" and "is_i64 ttl" and "\<not> is_i64 (now + ttl)"
  shows "issue_ticket cr True nonce sk sub url alpn ttl now = None \<and>
    (json_total cr \<longrightarrow> (\<exists>t. issue_ticket cr False nonce sk sub url alpn ttl now = Some (Inr t))) \<and>
    (\<forall>t. issue_ticket cr False nonce sk sub url alpn ttl now = Some (Inr t) \<longrightarrow>
       (if i64_max < now + ttl
        then tc_expires_at (st_claims t) = now + ttl - 2 ^ 64 \<and> (\<forall>vk at. now \<le> at \<longrightarrow> verify_ticket cr t vk at = Inl Expired)
        else now < 0 \<and> ttl < 0 \<and> tc_expires_at (st_claims t) = now + ttl + 2 ^ 64 \<and> 0 \<le> tc_expires_at (st_claims t) \<and>
          (ed25519_correct cr \<and> base64_roundtrip cr \<longrightarrow>
             (\<forall>at \<le> now + ttl + 2 ^ 64. verify_ticket cr t (verifying_key cr sk) at = Inr (st_claims t)))))"
proof (intro conjI allI impI)
  show "issue_ticket cr True nonce sk sub url alpn ttl now = None"
    using assms(3) by (simp add: issue_ticket_def i64_add_def)
  have wrap: "i64_add False now ttl = Some (i64_wrap (now + ttl))" using assms(3) by (simp add: i64_add_def)
  show "\<exists>t. issue_ticket cr False nonce sk sub url alpn ttl now = Some (Inr t)" if "json_total cr"
    using sign_ticket_total [OF that] by (simp add: issue_ticket_def wrap Let_def)
  fix t assume t: "issue_ticket cr False nonce sk sub url alpn ttl now = Some (Inr t)"
  note c = issue_ticket_claims [OF t]
  have e: "tc_expires_at (st_claims t) = i64_wrap (now + ttl)" by (simp add: c(1) wrap)
  show "if i64_max < now + ttl
        then tc_expires_at (st_claims t) = now + ttl - 2 ^ 64 \<and> (\<forall>vk at. now \<le> at \<longrightarrow> verify_ticket cr t vk at = Inl Expired)
        else now < 0 \<and> ttl < 0 \<and> tc_expires_at (st_claims t) = now + ttl + 2 ^ 64 \<and> 0 \<le> tc_expires_at (st_claims t) \<and>
          (ed25519_correct cr \<and> base64_roundtrip cr \<longrightarrow>
             (\<forall>at \<le> now + ttl + 2 ^ 64. verify_ticket cr t (verifying_key cr sk) at = Inr (st_claims t)))"
  proof (cases "i64_max < now + ttl")
    case True
    then have "tc_expires_at (st_claims t) = now + ttl - 2 ^ 64"
      using assms e by (simp add: i64_wrap_overflow i64_simps)
    moreover from this have "tc_expires_at (st_claims t) < now" using assms by (simp add: i64_simps)
    ultimately show ?thesis using True c(1) by (auto simp: verify_ticket_def)
  next
    case False
    then have low: "now + ttl < i64_min" using assms(3) by (auto simp: is_i64_def)
    then have "now < 0" "ttl < 0" "tc_expires_at (st_claims t) = now + ttl + 2 ^ 64" "0 \<le> now + ttl + 2 ^ 64"
      using assms e by (simp_all add: i64_wrap_underflow i64_simps)
    moreover have "verify_ticket cr t (verifying_key cr sk) at = Inr (st_claims t)"
      if "ed25519_correct cr" "base64_roundtrip cr" "at \<le> now + ttl + 2 ^ 64" for at
      using that c \<open>tc_expires_at (st_claims t) = now + ttl + 2 ^ 64\<close> by (intro verify_sign_ticket) simp_all
    ultimately show ?thesis using False by simp
  qed
qed

theorem issue_ticket_overflow_witness:
  "issue_ticket demo_crates True [] 7 None [] [] 300 9223372036854775800 = None \<and>
   (\<exists>t. issue_ticket demo_crates False [] 7 None [] [] 300 9223372036854775800 = Some (Inr t) \<and>
      verify_ticket demo_crates t 7 9223372036854775800 = Inl Expired) \<and>
   (\<exists>t. issue_ticket demo_crates False [] 7 None [] [] i64_min (- 1) = Some (Inr t) \<and>
      verify_ticket demo_crates t 7 i64_max = Inr (st_claims t))"
proof -
  have k: "verifying_key demo_crates 7 = 7" by (simp add: demo_crates_def)
  show ?thesis
    using issue_ticket_overflow [of 9223372036854775800 300 demo_crates "[]" 7 None "[]" "[]"]
      issue_ticket_overflow [of "- 1" i64_min demo_crates "[]" 7 None "[]" "[]"] k
    by (auto simp: i64_simps)
qed

end
