(* ===== verification/Rate_Limit.thy ===== *)
theory Rate_Limit
  imports F64 Ticket Rust_Map
begin

text \<open>
  \<^verbatim>\<open>src/rate_limit.rs\<close>: the token bucket and the per-node limiter. Token counts, times and
  rates are \<open>f64\<close> values with the rounding of every operation. \<^verbatim>\<open>&mut self\<close> methods return
  the new bucket with their result.
\<close>

section \<open>Data\<close>

definition DEFAULT_RATE_PER_MIN :: u32 where
  "DEFAULT_RATE_PER_MIN = 100"

record TokenBucket =
  tb_tokens :: f64
  tb_last_refill_unix :: f64
  tb_capacity :: f64
  tb_refill_per_sec :: f64

record RateLimiterMetrics =
  rm_total_try_consume_calls :: u64
  rm_total_allowed :: u64
  rm_total_denied :: u64
  rm_total_set_limit_calls :: u64
  rm_tracked_nodes :: nat

record RateLimiter =
  rl_inner :: "(NodeId, TokenBucket) hashmap"
  rl_default_per_min :: u32
  rl_total_try_consume_calls :: u64
  rl_total_allowed :: u64
  rl_total_denied :: u64
  rl_total_set_limit_calls :: u64

section \<open>The token bucket\<close>

definition TokenBucket_full :: "u32 \<Rightarrow> f64 \<Rightarrow> TokenBucket" where
  "TokenBucket_full per_min now_unix =
     (let capacity = f64_of_u32 per_min in
      \<lparr>tb_tokens = capacity, tb_last_refill_unix = now_unix, tb_capacity = capacity,
       tb_refill_per_sec = f64_div_by capacity 60\<rparr>)"

definition TokenBucket_refill :: "TokenBucket \<Rightarrow> f64 \<Rightarrow> f64 \<times> TokenBucket" where
  "TokenBucket_refill b now_unix =
     (if f64_le now_unix (tb_last_refill_unix b) then (tb_tokens b, b)
      else let elapsed = f64_sub now_unix (tb_last_refill_unix b);
               tokens = f64_min (f64_add (tb_tokens b) (f64_mul elapsed (tb_refill_per_sec b)))
                          (tb_capacity b)
           in (tokens, b\<lparr>tb_tokens := tokens, tb_last_refill_unix := now_unix\<rparr>))"

definition TokenBucket_try_consume :: "TokenBucket \<Rightarrow> f64 \<Rightarrow> bool \<times> TokenBucket" where
  "TokenBucket_try_consume b now_unix =
     (let b1 = snd (TokenBucket_refill b now_unix) in
      if f64_le (Fin 1) (tb_tokens b1)
      then (True, b1\<lparr>tb_tokens := f64_sub (tb_tokens b1) (Fin 1)\<rparr>)
      else (False, b1))"

definition TokenBucket_retune :: "TokenBucket \<Rightarrow> u32 \<Rightarrow> f64 \<Rightarrow> TokenBucket" where
  "TokenBucket_retune b per_min now_unix =
     (let b1 = snd (TokenBucket_refill b now_unix);
          capacity = f64_of_u32 per_min
      in b1\<lparr>tb_capacity := capacity, tb_refill_per_sec := f64_div_by capacity 60,
            tb_tokens := f64_min (tb_tokens b1) capacity\<rparr>)"

section \<open>The limiter\<close>

definition RateLimiter_new :: "u32 \<Rightarrow> RateLimiter" where
  "RateLimiter_new default_per_min =
     \<lparr>rl_inner = hm_new,
      rl_default_per_min = (if default_per_min = 0 then DEFAULT_RATE_PER_MIN else default_per_min),
      rl_total_try_consume_calls = 0, rl_total_allowed = 0, rl_total_denied = 0,
      rl_total_set_limit_calls = 0\<rparr>"

definition RateLimiter_tracked_nodes :: "RateLimiter \<Rightarrow> nat" where
  "RateLimiter_tracked_nodes l = hm_len (rl_inner l)"

text \<open>\<^verbatim>\<open>entry(node).or_insert_with(init)\<close>: the bucket found, or the initial one.\<close>

definition bucket_or :: "RateLimiter \<Rightarrow> NodeId \<Rightarrow> TokenBucket \<Rightarrow> TokenBucket" where
  "bucket_or l node init = (case hm_get (rl_inner l) node of None \<Rightarrow> init | Some b \<Rightarrow> b)"

definition RateLimiter_try_consume :: "RateLimiter \<Rightarrow> NodeId \<Rightarrow> f64 \<Rightarrow> bool \<times> RateLimiter" where
  "RateLimiter_try_consume l node now_unix =
     (let l1 = l\<lparr>rl_total_try_consume_calls := rl_total_try_consume_calls l + 1\<rparr>;
          bucket = bucket_or l1 node (TokenBucket_full (rl_default_per_min l1) now_unix);
          (allowed, bucket') = TokenBucket_try_consume bucket now_unix;
          l2 = l1\<lparr>rl_inner := hm_insert node bucket' (rl_inner l1)\<rparr>
      in if allowed then (True, l2\<lparr>rl_total_allowed := rl_total_allowed l2 + 1\<rparr>)
         else (False, l2\<lparr>rl_total_denied := rl_total_denied l2 + 1\<rparr>))"

definition RateLimiter_set_limit :: "RateLimiter \<Rightarrow> NodeId \<Rightarrow> u32 \<Rightarrow> f64 \<Rightarrow> RateLimiter" where
  "RateLimiter_set_limit l node per_min now_unix =
     (let l1 = l\<lparr>rl_total_set_limit_calls := rl_total_set_limit_calls l + 1\<rparr>;
          effective = (if per_min = 0 then DEFAULT_RATE_PER_MIN else per_min);
          bucket = bucket_or l1 node (TokenBucket_full effective now_unix)
      in l1\<lparr>rl_inner := hm_insert node (TokenBucket_retune bucket effective now_unix) (rl_inner l1)\<rparr>)"

definition RateLimiter_snapshot :: "RateLimiter \<Rightarrow> NodeId \<Rightarrow> TokenBucket option" where
  "RateLimiter_snapshot l node = hm_get (rl_inner l) node"

definition RateLimiter_metrics :: "RateLimiter \<Rightarrow> RateLimiterMetrics" where
  "RateLimiter_metrics l =
     \<lparr>rm_total_try_consume_calls = rl_total_try_consume_calls l,
      rm_total_allowed = rl_total_allowed l,
      rm_total_denied = rl_total_denied l,
      rm_total_set_limit_calls = rl_total_set_limit_calls l,
      rm_tracked_nodes = RateLimiter_tracked_nodes l\<rparr>"

section \<open>Well-formed buckets\<close>

text \<open>
  \<open>bucket_inv c t l b\<close>: a bucket of capacity \<open>c\<close> requests per minute that holds \<open>t\<close> tokens
  and was last refilled at \<open>l\<close>.
\<close>

definition bucket_inv :: "nat \<Rightarrow> rat \<Rightarrow> rat \<Rightarrow> TokenBucket \<Rightarrow> bool" where
  "bucket_inv c t l b \<longleftrightarrow>
     tb_capacity b = Fin (of_nat c) \<and> c < 2 ^ 32 \<and>
     tb_tokens b = Fin t \<and> rep t \<and> 0 \<le> t \<and> t \<le> of_nat c \<and>
     tb_last_refill_unix b = Fin l \<and> rep l \<and>
     tb_refill_per_sec b = Fin (rnd (of_nat c / 60))"

definition bucket_ok :: "TokenBucket \<Rightarrow> bool" where
  "bucket_ok b \<longleftrightarrow> (\<exists>c t l. bucket_inv c t l b)"

lemma two_pow_cap: "c < 2 ^ 32 \<Longrightarrow> (of_nat c :: rat) \<le> 2 ^ 32"
  by (metis less_imp_le of_nat_le_iff of_nat_numeral of_nat_power)

lemma div60:
  assumes "c < 2 ^ 32"
  shows "f64_div_by (Fin (of_nat c)) 60 = Fin (rnd (of_nat c / 60))" and "0 \<le> rnd (of_nat c / 60)"
  using f64_of_rat_small [of "of_nat c / 60"] f64.rn_nonneg [of "of_nat c / 60"] two_pow_cap [OF assms]
  by simp_all

lemma rep_cap: "c < 2 ^ 32 \<Longrightarrow> rep (of_nat c)"
  by (rule f64.rp_nat) simp

lemma full_inv:
  assumes "rep l"
  shows "bucket_inv (unat w) (of_nat (unat w)) l (TokenBucket_full w (Fin l))"
proof -
  obtain c where c: "c = unat w" "c < 2 ^ 32" using unat_lt2p32 [of w] by simp
  with assms rep_cap div60(1) show ?thesis
    by (simp add: bucket_inv_def TokenBucket_full_def f64_of_u32_def Let_def del: of_nat_unat flip: c(1))
qed

text \<open>
  What a refill adds is a non-negative finite value, infinity, or NaN; taking the minimum
  with the capacity afterwards always gives a value between the old count and the capacity.
\<close>

fun f64_nonneg :: "f64 \<Rightarrow> bool" where
  "f64_nonneg (Fin x) = (0 \<le> x)"
| "f64_nonneg NInf = False"
| "f64_nonneg _ = True"

lemma f64_nonneg_of_rat: "0 \<le> x \<Longrightarrow> f64_nonneg (f64_of_rat x)"
  by (simp add: f64_of_rat_nonneg)

lemma f64_nonneg_mul: "f64_nonneg a \<Longrightarrow> 0 \<le> r \<Longrightarrow> f64_nonneg (f64_mul a (Fin r))"
  by (cases a) (auto simp: f64_nonneg_of_rat f64_inf_def)

lemma refill_amount:
  assumes "rep t" and "0 \<le> t" and "t \<le> of_nat c" and "c < 2 ^ 32" and "f64_nonneg d"
  shows "\<exists>t'. f64_min (f64_add (Fin t) d) (Fin (of_nat c)) = Fin t' \<and> rep t' \<and> t \<le> t' \<and> t' \<le> of_nat c"
proof (cases d)
  case (Fin x)
  then have "t \<le> rnd (t + x)" using assms(1,5) by (intro f64.rn_ge) simp_all
  moreover have "f64_of_rat (t + x) = (if f64_overflow \<le> rnd (t + x) then PInf else Fin (rnd (t + x)))"
    using Fin assms(2,5) by (intro f64_of_rat_nonneg) simp
  ultimately show ?thesis
    using Fin assms(3) rep_cap [OF assms(4)] f64.rn_rp [of "t + x"]
    by (auto simp: f64_min_def)
qed (use assms rep_cap [OF assms(4)] in \<open>auto simp: f64_min_def\<close>)

lemma refill_inv:
  assumes inv: "bucket_inv c t l b" and now: "rep n"
  shows "\<exists>t'. bucket_inv c t' (max n l) (snd (TokenBucket_refill b (Fin n))) \<and> t \<le> t' \<and>
    fst (TokenBucket_refill b (Fin n)) = Fin t'"
proof (cases "n \<le> l")
  case True
  with inv show ?thesis by (auto simp: TokenBucket_refill_def bucket_inv_def max_def)
next
  case False
  note i = inv [unfolded bucket_inv_def]
  let ?d = "f64_mul (f64_sub (Fin n) (Fin l)) (Fin (rnd (of_nat c / 60)))"
  have "f64_nonneg (f64_sub (Fin n) (Fin l))"
    using False by (simp add: f64_sub_def f64_nonneg_of_rat)
  then have "f64_nonneg ?d" using i div60(2) by (intro f64_nonneg_mul) auto
  with i obtain t' where "f64_min (f64_add (Fin t) ?d) (Fin (of_nat c)) = Fin t'"
      and "rep t'" and "t \<le> t'" and "t' \<le> of_nat c"
    using refill_amount [of t c ?d] by auto
  with i False now show ?thesis
    by (intro exI [of _ t']) (auto simp: TokenBucket_refill_def bucket_inv_def Let_def max_def)
qed

lemma sub_one:
  assumes "rep t" and "1 \<le> t" and "t \<le> of_nat c" and "c < 2 ^ 32"
  shows "f64_sub (Fin t) (Fin 1) = Fin (t - 1)" and "rep (t - 1)"
proof -
  have le: "t \<le> 2 ^ 53" using two_pow_cap [OF assms(4)] assms(3) by simp
  then show r: "rep (t - 1)" using assms by (intro rep_minus_one)
  show "f64_sub (Fin t) (Fin 1) = Fin (t - 1)"
    using f64_of_rat_small [of "t - 1"] le assms(2) f64.rp_rn [OF r] by (simp add: f64_sub_def)
qed

lemma consume_inv:
  assumes "bucket_inv c t l b" and "rep n"
  shows "\<exists>t'. t \<le> t' \<and> t' \<le> of_nat c \<and> fst (TokenBucket_refill b (Fin n)) = Fin t' \<and>
    fst (TokenBucket_try_consume b (Fin n)) = (1 \<le> t') \<and>
    bucket_inv c (if 1 \<le> t' then t' - 1 else t') (max n l) (snd (TokenBucket_try_consume b (Fin n)))"
proof -
  obtain t' where i: "bucket_inv c t' (max n l) (snd (TokenBucket_refill b (Fin n)))" and "t \<le> t'"
      and "fst (TokenBucket_refill b (Fin n)) = Fin t'"
    using refill_inv [OF assms] by blast
  moreover note j = i [unfolded bucket_inv_def]
  ultimately show ?thesis
    using sub_one [of t' c]
    by (intro exI [of _ t']) (auto simp: TokenBucket_try_consume_def bucket_inv_def Let_def)
qed

lemma retune_inv:
  assumes "bucket_inv c t l b" and "rep n"
  shows "\<exists>t'. bucket_inv (unat w) t' (max n l) (TokenBucket_retune b w (Fin n))"
proof -
  obtain t' where i: "bucket_inv c t' (max n l) (snd (TokenBucket_refill b (Fin n)))"
    using refill_inv [OF assms] by blast
  obtain k where k: "k = unat w" "k < 2 ^ 32" using unat_lt2p32 [of w] by simp
  show ?thesis
    using i rep_cap [OF k(2)] div60(1) [OF k(2)] k(2)
    by (intro exI [of _ "if t' \<le> of_nat k then t' else of_nat k"])
      (auto simp: TokenBucket_retune_def bucket_inv_def f64_of_u32_def f64_min_def Let_def
        simp del: of_nat_unat simp flip: k(1))
qed

section \<open>Histories of the limiter\<close>

datatype limiter_op = Consume NodeId f64 | SetLimit NodeId u32 f64

fun limiter_node :: "limiter_op \<Rightarrow> NodeId" where
  "limiter_node (Consume x _) = x"
| "limiter_node (SetLimit x _ _) = x"

fun limiter_clock :: "limiter_op \<Rightarrow> f64" where
  "limiter_clock (Consume _ n) = n"
| "limiter_clock (SetLimit _ _ n) = n"

fun limiter_exec :: "limiter_op \<Rightarrow> RateLimiter \<Rightarrow> RateLimiter" where
  "limiter_exec (Consume x n) l = snd (RateLimiter_try_consume l x n)"
| "limiter_exec (SetLimit x w n) l = RateLimiter_set_limit l x w n"

definition limiter_run :: "limiter_op list \<Rightarrow> RateLimiter \<Rightarrow> RateLimiter" where
  "limiter_run ops l = fold limiter_exec ops l"

lemma limiter_run_simps [simp]:
  "limiter_run [] l = l" "limiter_run (x # xs) l = limiter_run xs (limiter_exec x l)"
  by (simp_all add: limiter_run_def)

definition limiter_ok :: "RateLimiter \<Rightarrow> bool" where
  "limiter_ok l \<longleftrightarrow> hm_wf (rl_inner l) \<and> rl_default_per_min l \<noteq> 0 \<and>
     (\<forall>x b. hm_get (rl_inner l) x = Some b \<longrightarrow> bucket_ok b)"

lemma limiter_ok_wf: "limiter_ok l \<Longrightarrow> hm_wf (rl_inner l)"
  by (simp add: limiter_ok_def)

lemma limiter_ok_new: "limiter_ok (RateLimiter_new w)"
  by (simp add: limiter_ok_def RateLimiter_new_def hm.get_new DEFAULT_RATE_PER_MIN_def)

lemma bucket_or_counted [simp]:
  "bucket_or (l\<lparr>rl_total_try_consume_calls := k\<rparr>) = bucket_or l"
  "bucket_or (l\<lparr>rl_total_set_limit_calls := k\<rparr>) = bucket_or l"
  by (simp_all add: bucket_or_def fun_eq_iff)

text \<open>One call replaces one bucket: by the consumed bucket, or by the retuned one.\<close>

lemma try_consume_inner:
  "rl_inner (snd (RateLimiter_try_consume l x n)) =
     hm_insert x (snd (TokenBucket_try_consume (bucket_or l x (TokenBucket_full (rl_default_per_min l) n)) n))
       (rl_inner l)"
  "rl_default_per_min (snd (RateLimiter_try_consume l x n)) = rl_default_per_min l"
  "fst (RateLimiter_try_consume l x n) =
     fst (TokenBucket_try_consume (bucket_or l x (TokenBucket_full (rl_default_per_min l) n)) n)"
  by (simp_all add: RateLimiter_try_consume_def bucket_or_counted Let_def case_prod_beta)

lemma set_limit_inner:
  "rl_inner (RateLimiter_set_limit l x w n) =
     (let e = if w = 0 then DEFAULT_RATE_PER_MIN else w
      in hm_insert x (TokenBucket_retune (bucket_or l x (TokenBucket_full e n)) e n) (rl_inner l))"
  "rl_default_per_min (RateLimiter_set_limit l x w n) = rl_default_per_min l"
  by (simp_all add: RateLimiter_set_limit_def bucket_or_def Let_def)

lemma bucket_or_ok:
  assumes "limiter_ok l" and "rep n"
  shows "bucket_ok (bucket_or l x (TokenBucket_full w (Fin n)))"
  using assms full_inv [of n w] by (auto simp: bucket_or_def limiter_ok_def bucket_ok_def split: option.split)

lemma f64_finiteD: "f64_finite n \<Longrightarrow> \<exists>q. n = Fin q \<and> rep q"
  by (cases n) auto

lemma limiter_exec_ok:
  assumes "limiter_ok l" and "f64_finite (limiter_clock x)"
  shows "limiter_ok (limiter_exec x l)"
proof -
  obtain q where q: "limiter_clock x = Fin q" "rep q" using f64_finiteD [OF assms(2)] by blast
  show ?thesis
  proof (cases x)
    case (Consume y n)
    have "bucket_ok (snd (TokenBucket_try_consume (bucket_or l y (TokenBucket_full w (Fin q))) (Fin q)))" for w
      using bucket_or_ok [OF assms(1) q(2)] consume_inv q(2) by (meson bucket_ok_def)
    with Consume q assms(1) show ?thesis
      by (auto simp: limiter_ok_def try_consume_inner hm.get_insert)
  next
    case (SetLimit y w n)
    have "bucket_ok (TokenBucket_retune (bucket_or l y (TokenBucket_full e (Fin q))) e (Fin q))" for e
      using bucket_or_ok [OF assms(1) q(2)] retune_inv q(2) by (meson bucket_ok_def)
    with SetLimit q assms(1) show ?thesis
      by (auto simp: limiter_ok_def set_limit_inner hm.get_insert Let_def)
  qed
qed

lemma limiter_run_ok:
  "limiter_ok l \<Longrightarrow> list_all (\<lambda>x. f64_finite (limiter_clock x)) ops \<Longrightarrow> limiter_ok (limiter_run ops l)"
  by (induction ops arbitrary: l) (auto simp: limiter_exec_ok)

lemma bucket_ok_bounds:
  "bucket_ok b \<Longrightarrow> f64_le (Fin 0) (tb_tokens b) \<and> f64_le (tb_tokens b) (tb_capacity b)"
  by (auto simp: bucket_ok_def bucket_inv_def)

text \<open>
  C22. In every history of \<^verbatim>\<open>try_consume\<close> and \<^verbatim>\<open>set_limit\<close> calls with finite clock readings,
  going forward or back, every bucket holds at least zero and at most its capacity of tokens,
  in spite of the rounding of every \<open>f64\<close> operation.
\<close>

theorem limiter_tokens_bounded:
  assumes "list_all (\<lambda>x. f64_finite (limiter_clock x)) ops"
    and "RateLimiter_snapshot (limiter_run ops (RateLimiter_new w)) node = Some b"
  shows "f64_le (Fin 0) (tb_tokens b) \<and> f64_le (tb_tokens b) (tb_capacity b)"
proof -
  have "limiter_ok (limiter_run ops (RateLimiter_new w))"
    using limiter_run_ok [OF limiter_ok_new assms(1)] .
  with assms(2) have "bucket_ok b" by (simp add: limiter_ok_def RateLimiter_snapshot_def)
  then show ?thesis by (rule bucket_ok_bounds)
qed

text \<open>The calls for other nodes leave a node's bucket as it is.\<close>

lemma limiter_exec_inner:
  "\<exists>b. rl_inner (limiter_exec x l) = hm_insert (limiter_node x) b (rl_inner l)"
  "rl_default_per_min (limiter_exec x l) = rl_default_per_min l"
  by (cases x; auto simp: try_consume_inner set_limit_inner Let_def)+

lemma limiter_exec_wf: "hm_wf (rl_inner l) \<Longrightarrow> hm_wf (rl_inner (limiter_exec x l))"
  using limiter_exec_inner(1) [of x l] by auto

lemma limiter_exec_other:
  "hm_wf (rl_inner l) \<Longrightarrow> limiter_node x \<noteq> node \<Longrightarrow>
   hm_get (rl_inner (limiter_exec x l)) node = hm_get (rl_inner l) node"
  using limiter_exec_inner(1) [of x l] by (auto simp: hm.get_insert)

text \<open>Two limiters that agree on a node and on the default take the same steps for it.\<close>

definition same_for :: "NodeId \<Rightarrow> RateLimiter \<Rightarrow> RateLimiter \<Rightarrow> bool" where
  "same_for node l l' \<longleftrightarrow> hm_wf (rl_inner l) \<and> hm_wf (rl_inner l') \<and>
     hm_get (rl_inner l) node = hm_get (rl_inner l') node \<and>
     rl_default_per_min l = rl_default_per_min l'"

lemma same_for_decision:
  "same_for node l l' \<Longrightarrow>
   fst (RateLimiter_try_consume l node n) = fst (RateLimiter_try_consume l' node n)"
  by (simp add: same_for_def try_consume_inner bucket_or_def)

lemma same_for_step:
  assumes "same_for node l l'" and "limiter_node x = node"
  shows "same_for node (limiter_exec x l) (limiter_exec x l')"
  using assms limiter_exec_wf
  by (cases x) (auto simp: same_for_def try_consume_inner set_limit_inner bucket_or_def hm.get_insert Let_def)

lemma same_for_skip:
  "same_for node l l' \<Longrightarrow> limiter_node x \<noteq> node \<Longrightarrow> same_for node (limiter_exec x l) l'"
  using limiter_exec_wf by (simp add: same_for_def limiter_exec_other limiter_exec_inner(2))

lemma same_for_run:
  "same_for node l l' \<Longrightarrow>
   same_for node (limiter_run ops l) (limiter_run [x \<leftarrow> ops. limiter_node x = node] l')"
  by (induction ops arbitrary: l l') (simp_all add: same_for_step same_for_skip)

lemma same_for_refl: "hm_wf (rl_inner l) \<Longrightarrow> same_for node l l"
  by (simp add: same_for_def)

text \<open>
  C21. Buckets are isolated: the decision about a node's next request is the one a limiter
  would take that had seen only that node's calls. Requests and overrides of other nodes, in
  any number and order and at any clock reading, NaN and infinities included, never take
  tokens from it or give it any.
\<close>

theorem limiter_isolates_nodes:
  "fst (RateLimiter_try_consume (limiter_run ops (RateLimiter_new w)) node now) =
   fst (RateLimiter_try_consume
          (limiter_run [x \<leftarrow> ops. limiter_node x = node] (RateLimiter_new w)) node now)"
  by (intro same_for_decision same_for_run same_for_refl limiter_ok_wf limiter_ok_new)

section \<open>Bursts\<close>

fun limiter_decisions :: "RateLimiter \<Rightarrow> NodeId \<Rightarrow> f64 list \<Rightarrow> bool list" where
  "limiter_decisions l node [] = []"
| "limiter_decisions l node (n # ns) =
     (case RateLimiter_try_consume l node n of (d, l') \<Rightarrow> d # limiter_decisions l' node ns)"

fun bucket_decisions :: "TokenBucket \<Rightarrow> f64 list \<Rightarrow> bool list" where
  "bucket_decisions b [] = []"
| "bucket_decisions b (n # ns) =
     (case TokenBucket_try_consume b n of (d, b') \<Rightarrow> d # bucket_decisions b' ns)"

lemma limiter_decisions_tracked:
  "hm_wf (rl_inner l) \<Longrightarrow> hm_get (rl_inner l) node = Some b \<Longrightarrow>
   limiter_decisions l node ns = bucket_decisions b ns"
proof (induction ns arbitrary: l b)
  case (Cons n ns)
  then show ?case
    using try_consume_inner [of l node n]
    by (cases "RateLimiter_try_consume l node n"; cases "TokenBucket_try_consume b n")
      (simp add: bucket_or_def hm.get_insert)
qed simp

lemma limiter_decisions_bucket:
  assumes "hm_wf (rl_inner l)"
  shows "limiter_decisions l node (n # ns) =
    bucket_decisions (bucket_or l node (TokenBucket_full (rl_default_per_min l) n)) (n # ns)"
  using try_consume_inner [of l node n] assms
  by (cases "RateLimiter_try_consume l node n")
    (simp add: limiter_decisions_tracked hm.get_insert case_prod_beta)

lemma consume_same_instant:
  assumes "bucket_inv c (of_nat j) n b"
  shows "fst (TokenBucket_try_consume b (Fin n)) = (0 < j)"
    and "bucket_inv c (of_nat (j - 1)) n (snd (TokenBucket_try_consume b (Fin n)))"
proof -
  note i = assms [unfolded bucket_inv_def]
  have j: "of_nat (j - 1) = (of_nat j - 1 :: rat)" if "0 < j" using that by (simp add: of_nat_diff)
  have d: "(1 \<le> (of_nat j :: rat)) = (0 < j)" by (cases j) simp_all
  show "fst (TokenBucket_try_consume b (Fin n)) = (0 < j)"
    using i by (auto simp: TokenBucket_try_consume_def TokenBucket_refill_def Let_def d)
  show "bucket_inv c (of_nat (j - 1)) n (snd (TokenBucket_try_consume b (Fin n)))"
    using i sub_one [of "of_nat j" c] j f64.rp_0
    by (auto simp: TokenBucket_try_consume_def TokenBucket_refill_def bucket_inv_def Let_def d)
qed

lemma bucket_burst:
  "bucket_inv c (of_nat j) n b \<Longrightarrow>
   bucket_decisions b (replicate k (Fin n)) = replicate (min k j) True @ replicate (k - j) False"
proof (induction k arbitrary: j b)
  case (Suc k)
  show ?case
    using Suc.IH [OF consume_same_instant(2) [OF Suc.prems]] consume_same_instant(1) [OF Suc.prems]
    by (cases j; cases "TokenBucket_try_consume b (Fin n)") simp_all
qed simp

lemma RateLimiter_new_simps [simp]:
  "hm_get (rl_inner (RateLimiter_new w)) node = None"
  "rl_default_per_min (RateLimiter_new w) = (if w = 0 then DEFAULT_RATE_PER_MIN else w)"
  by (simp_all add: RateLimiter_new_def hm.get_new)

text \<open>
  A burst from a node never seen before is served exactly up to the configured rate: of
  \<open>k\<close> requests at one instant the first \<open>c\<close> are allowed and all others denied, where \<open>c\<close> is
  the limiter's per-minute budget (100 if it was configured as zero).
\<close>

lemma limiter_burst_exact:
  assumes "f64_finite now"
  shows "let c = unat (if w = 0 then DEFAULT_RATE_PER_MIN else w) in
    limiter_decisions (RateLimiter_new w) node (replicate k now) =
      replicate (min k c) True @ replicate (k - c) False"
proof (cases k)
  case (Suc m)
  obtain q where q: "now = Fin q" "rep q" using f64_finiteD [OF assms] by blast
  define c where "c = (if w = 0 then DEFAULT_RATE_PER_MIN else w)"
  have "limiter_decisions (RateLimiter_new w) node (replicate k now) =
      bucket_decisions (TokenBucket_full c now) (replicate k now)"
    using limiter_decisions_bucket [OF limiter_ok_wf [OF limiter_ok_new [of w]], of node now "replicate m now"] Suc
    by (simp add: bucket_or_def c_def)
  then show ?thesis
    using bucket_burst [OF full_inv [OF q(2), of c], of k] q(1) by (simp add: Let_def flip: c_def)
qed simp

lemma f64_finite_nat: "n \<le> 2 ^ 53 \<Longrightarrow> f64_finite (Fin (of_nat n))"
  by (simp add: f64.rp_nat)

theorem limiter_tokens_bounded_witness:
  "\<exists>b. RateLimiter_snapshot
         (limiter_run [SetLimit (NodeId ''n'') 5 (Fin (of_nat 10)), Consume (NodeId ''n'') (Fin (of_nat 7))]
           (RateLimiter_new 3)) (NodeId ''n'') = Some b \<and>
       f64_le (Fin 0) (tb_tokens b) \<and> f64_le (tb_tokens b) (tb_capacity b)"
proof -
  let ?x = "(NodeId ''n'')"
  let ?ops = "[SetLimit ?x 5 (Fin (of_nat 10)), Consume ?x (Fin (of_nat 7))]"
  have "list_all (\<lambda>x. f64_finite (limiter_clock x)) ?ops"
    using f64_finite_nat [of 10] f64_finite_nat [of 7] by simp
  moreover have "\<exists>b. RateLimiter_snapshot (limiter_run ?ops (RateLimiter_new 3)) ?x = Some b"
    by (simp add: RateLimiter_snapshot_def try_consume_inner set_limit_inner Let_def hm.get_insert hm.wf_insert
        limiter_ok_wf limiter_ok_new)
  ultimately show ?thesis using limiter_tokens_bounded by blast
qed

section \<open>The rate over a window\<close>

text \<open>
  One refill adds the tokens earned since the last one, up to the four roundings: a relative
  error of less than \<open>2 ^ -50\<close> and an absolute one of less than \<open>2 ^ -20\<close> of a token.
\<close>

lemma rnd_upper_simple: "0 \<le> x \<Longrightarrow> rnd x \<le> x * (1 + 1 / 2 ^ 53) + 1 / 2 ^ 100"
  using rnd_upper [of x] pow2_mono [of "- 1075" "- 100"] by (simp add: pow2_def)

lemma product_error:
  assumes d: "0 \<le> d" "d \<le> 2 ^ 53" and q: "0 \<le> q" "q \<le> (2 ^ 32 :: rat)"
    and a: "0 \<le> a" "a \<le> d * (1 + 1 / 2 ^ 53) + 1 / 2 ^ 100"
    and r: "0 \<le> r" "r \<le> q * (1 + 1 / 2 ^ 53) + 1 / 2 ^ 100"
  shows "a * r \<le> d * q * (1 + 1 / 2 ^ 53) ^ 2 + 1 / 2 ^ 45" and "a * r \<le> 2 ^ 90"
proof -
  let ?u = "1 + 1 / 2 ^ 53 :: rat" and ?e = "1 / 2 ^ 100 :: rat"
  have "a * r \<le> (d * ?u + ?e) * (q * ?u + ?e)" using a r d q by (intro mult_mono) simp_all
  also have "\<dots> = d * q * ?u ^ 2 + (?e * ?u * d + ?e * ?u * q + ?e * ?e)"
    by (simp add: power2_eq_square field_simps)
  finally have ar: "a * r \<le> d * q * ?u ^ 2 + (?e * ?u * d + ?e * ?u * q + ?e * ?e)" .
  have "?e * ?u * d + ?e * ?u * q + ?e * ?e \<le> ?e * ?u * 2 ^ 53 + ?e * ?u * 2 ^ 32 + ?e * ?e"
    using d q by (intro add_mono mult_left_mono) simp_all
  also have "\<dots> \<le> 1 / 2 ^ 45" by simp
  finally show le: "a * r \<le> d * q * ?u ^ 2 + 1 / 2 ^ 45" using ar by linarith
  have "d * q * ?u ^ 2 \<le> 2 ^ 53 * 2 ^ 32 * ?u ^ 2" using d q by (intro mult_right_mono mult_mono) simp_all
  then have "d * q * ?u ^ 2 + 1 / 2 ^ 45 \<le> 2 ^ 53 * 2 ^ 32 * ?u ^ 2 + 1 / 2 ^ 45" by simp
  also have "\<dots> \<le> 2 ^ 90" by (simp add: power2_eq_square)
  finally show "a * r \<le> 2 ^ 90" using le by linarith
qed

lemma sum_error:
  assumes p: "0 \<le> p" and t: "0 \<le> t" "t \<le> (2 ^ 32 :: rat)"
    and m: "m \<le> (p * (1 + 1 / 2 ^ 53) ^ 2 + 1 / 2 ^ 45) * (1 + 1 / 2 ^ 53) + 1 / 2 ^ 100"
    and s: "s \<le> (t + m) * (1 + 1 / 2 ^ 53) + 1 / 2 ^ 100"
  shows "s \<le> t + p * (1 + 1 / 2 ^ 50) + 1 / 2 ^ 20"
proof -
  let ?u = "1 + 1 / 2 ^ 53 :: rat"
  have "(t + m) * ?u \<le> (t + ((p * ?u ^ 2 + 1 / 2 ^ 45) * ?u + 1 / 2 ^ 100)) * ?u"
    using m by (intro mult_right_mono) simp_all
  also have "\<dots> = t * ?u + p * ?u ^ 4 + (1 / 2 ^ 45 * ?u + 1 / 2 ^ 100) * ?u"
    by (simp add: algebra_simps power2_eq_square power4_eq_xxxx)
  finally have "s \<le> t * ?u + p * ?u ^ 4 + (1 / 2 ^ 45 * ?u + 1 / 2 ^ 100) * ?u + 1 / 2 ^ 100"
    using s by linarith
  moreover have "t * ?u \<le> t + 1 / 2 ^ 21" using t by (simp add: algebra_simps)
  moreover have "p * ?u ^ 4 \<le> p * (1 + 1 / 2 ^ 50)"
    using p by (intro mult_left_mono) (simp_all add: power4_eq_xxxx)
  moreover have "1 / 2 ^ 21 + (1 / 2 ^ 45 * ?u + 1 / 2 ^ 100) * ?u + 1 / 2 ^ 100 \<le> (1 / 2 ^ 20 :: rat)"
    by simp
  ultimately show ?thesis by linarith
qed

lemma refill_gain:
  assumes inv: "bucket_inv c t l b" and l: "0 \<le> l" "l < n" and n: "n \<le> 2 ^ 53"
    and t': "fst (TokenBucket_refill b (Fin n)) = Fin t'"
  shows "t' \<le> t + (n - l) * (of_nat c / 60) * (1 + 1 / 2 ^ 50) + 1 / 2 ^ 20"
proof -
  note i = inv [unfolded bucket_inv_def]
  let ?q = "of_nat c / 60 :: rat" and ?d = "n - l"
  have d: "0 \<le> ?d" "?d \<le> 2 ^ 53" using l n by simp_all
  have q: "0 \<le> ?q" "?q \<le> 2 ^ 32" using i two_pow_cap [of c] by simp_all
  have sub: "f64_sub (Fin n) (Fin l) = Fin (rnd ?d)"
    using f64_of_rat_small [OF d] by (simp add: f64_sub_def)
  note pr = product_error [OF d q f64.rn_nonneg [OF d(1)] rnd_upper_simple [OF d(1)]
      f64.rn_nonneg [OF q(1)] rnd_upper_simple [OF q(1)]]
  let ?p = "rnd ?d * rnd ?q"
  have p0: "0 \<le> ?p" using d q by (intro mult_nonneg_nonneg f64.rn_nonneg)
  have mul: "f64_mul (Fin (rnd ?d)) (Fin (rnd ?q)) = Fin (rnd ?p)"
    using f64_of_rat_Fin [OF p0] pr(2) by simp
  have m: "rnd ?p \<le> (?d * ?q * (1 + 1 / 2 ^ 53) ^ 2 + 1 / 2 ^ 45) * (1 + 1 / 2 ^ 53) + 1 / 2 ^ 100"
    using order_trans [OF rnd_upper_simple [OF p0] add_right_mono [OF mult_right_mono [OF pr(1)]]] by simp
  have m0: "0 \<le> rnd ?p" using p0 by (rule f64.rn_nonneg)
  have "rnd ?p \<le> pow2 90" using pr(2) by (intro f64.rn_le rep_pow2) (simp_all add: pow2_def)
  then have sum: "f64_add (Fin t) (Fin (rnd ?p)) = Fin (rnd (t + rnd ?p))"
    using f64_of_rat_Fin [of "t + rnd ?p"] m0 i two_pow_cap [of c] by (simp add: pow2_def)
  have "Fin t' = f64_min (Fin (rnd (t + rnd ?p))) (Fin (of_nat c))"
    using i l t' sub mul sum by (simp add: TokenBucket_refill_def Let_def)
  then have le: "t' \<le> rnd (t + rnd ?p)" by (auto simp: f64_min_def split: if_splits)
  have t: "0 \<le> t" "t \<le> 2 ^ 32" using i two_pow_cap [of c] by linarith+
  have "rnd (t + rnd ?p) \<le> (t + rnd ?p) * (1 + 1 / 2 ^ 53) + 1 / 2 ^ 100"
    using t m0 by (intro rnd_upper_simple) simp
  from sum_error [OF mult_nonneg_nonneg [OF d(1) q(1)] t m this] le show ?thesis by linarith
qed

definition token_rate :: "nat \<Rightarrow> rat" where
  "token_rate c = of_nat c / 60 * (1 + 1 / 2 ^ 50)"

lemma token_rate_nonneg: "0 \<le> token_rate c"
  by (simp add: token_rate_def)

definition allowed_count :: "bool list \<Rightarrow> rat" where
  "allowed_count ds = of_nat (length (filter id ds))"

lemma allowed_count_simps [simp]:
  "allowed_count [] = 0"
  "allowed_count (d # ds) = (if d then 1 else 0) + allowed_count ds"
  by (simp_all add: allowed_count_def)

lemma consume_gain:
  assumes "bucket_inv c t l b" and "0 \<le> l" and "rep n" and "n \<le> 2 ^ 53"
  shows "\<exists>t'. t' \<le> t + (max n l - l) * token_rate c + 1 / 2 ^ 20 \<and> t' \<le> of_nat c \<and>
    fst (TokenBucket_try_consume b (Fin n)) = (1 \<le> t') \<and>
    bucket_inv c (if 1 \<le> t' then t' - 1 else t') (max n l) (snd (TokenBucket_try_consume b (Fin n)))"
proof -
  from consume_inv [OF assms(1,3)] obtain t' where
    r: "fst (TokenBucket_refill b (Fin n)) = Fin t'" and "t' \<le> of_nat c"
    and "fst (TokenBucket_try_consume b (Fin n)) = (1 \<le> t')"
    and "bucket_inv c (if 1 \<le> t' then t' - 1 else t') (max n l) (snd (TokenBucket_try_consume b (Fin n)))"
    by blast
  moreover have "t' \<le> t + (max n l - l) * token_rate c + 1 / 2 ^ 20"
  proof (cases "n \<le> l")
    case True
    with r assms(1) show ?thesis by (simp add: TokenBucket_refill_def bucket_inv_def)
  next
    case False
    then have "max n l = n" and "l < n" by simp_all
    with refill_gain [OF assms(1,2) _ assms(4) r] show ?thesis by (simp only: token_rate_def mult.assoc)
  qed
  ultimately show ?thesis by blast
qed

lemma bucket_window:
  "bucket_inv c t l b \<Longrightarrow> 0 \<le> l \<Longrightarrow> list_all (\<lambda>n. rep n \<and> n \<le> T1) ns \<Longrightarrow> T1 \<le> 2 ^ 53 \<Longrightarrow>
   allowed_count (bucket_decisions b (map Fin ns)) \<le>
     t + max 0 (T1 - l) * token_rate c + of_nat (length ns) / 2 ^ 20"
proof (induction ns arbitrary: t l b)
  case Nil
  then show ?case by (simp add: bucket_inv_def token_rate_nonneg)
next
  case (Cons n ns)
  then have n: "rep n" "n \<le> T1" "n \<le> 2 ^ 53" by auto
  from consume_gain [OF Cons.prems(1,2) n(1,3)] obtain t' where
    t': "t' \<le> t + (max n l - l) * token_rate c + 1 / 2 ^ 20"
    and d: "fst (TokenBucket_try_consume b (Fin n)) = (1 \<le> t')"
    and i: "bucket_inv c (if 1 \<le> t' then t' - 1 else t') (max n l) (snd (TokenBucket_try_consume b (Fin n)))"
    by blast
  have "allowed_count (bucket_decisions (snd (TokenBucket_try_consume b (Fin n))) (map Fin ns)) \<le>
      (if 1 \<le> t' then t' - 1 else t') + max 0 (T1 - max n l) * token_rate c + of_nat (length ns) / 2 ^ 20"
    using Cons.prems(2,3,4) by (intro Cons.IH [OF i]) auto
  moreover have "(max n l - l) * token_rate c + max 0 (T1 - max n l) * token_rate c = max 0 (T1 - l) * token_rate c"
    using n(2) by (auto simp: max_def simp flip: distrib_right)
  ultimately show ?case
    using t' d by (cases "1 \<le> t'") (simp_all add: case_prod_beta add_divide_distrib)
qed

text \<open>The budget in force for a node after a history: its last override, or the default.\<close>

fun node_limit :: "NodeId \<Rightarrow> u32 \<Rightarrow> limiter_op list \<Rightarrow> u32" where
  "node_limit node w [] = w"
| "node_limit node w (Consume _ _ # ops) = node_limit node w ops"
| "node_limit node w (SetLimit y v _ # ops) =
     node_limit node (if y = node then (if v = 0 then DEFAULT_RATE_PER_MIN else v) else w) ops"

definition limit_known :: "NodeId \<Rightarrow> u32 \<Rightarrow> RateLimiter \<Rightarrow> bool" where
  "limit_known node w l \<longleftrightarrow> hm_wf (rl_inner l) \<and>
     (case hm_get (rl_inner l) node of None \<Rightarrow> rl_default_per_min l = w
      | Some b \<Rightarrow> \<exists>t n. bucket_inv (unat w) t n b)"

lemma limit_known_bucket:
  assumes "limit_known node w l" and "rep q"
  shows "\<exists>t n. bucket_inv (unat w) t n (bucket_or l node (TokenBucket_full (rl_default_per_min l) (Fin q)))"
  using assms full_inv [OF assms(2), of w] by (auto simp: limit_known_def bucket_or_def split: option.splits)

lemma limit_known_tracked:
  assumes "limit_known node w l" and "rep q"
  shows "\<exists>c t n. bucket_inv c t n (bucket_or l node (TokenBucket_full e (Fin q)))"
  using assms full_inv [OF assms(2), of e] by (auto simp: limit_known_def bucket_or_def split: option.splits)

lemma limit_known_run:
  "limit_known node w l \<Longrightarrow> list_all (\<lambda>x. f64_finite (limiter_clock x)) ops \<Longrightarrow>
   limit_known node (node_limit node w ops) (limiter_run ops l)"
proof (induction ops arbitrary: w l)
  case (Cons x ops)
  then have wf: "hm_wf (rl_inner l)" and "f64_finite (limiter_clock x)" by (simp_all add: limit_known_def)
  then obtain q where q: "limiter_clock x = Fin q" "rep q" using f64_finiteD by blast
  have "limit_known node (node_limit node w [x]) (limiter_exec x l)"
  proof (cases "limiter_node x = node")
    case False
    with Cons.prems(1) wf show ?thesis
      by (cases x) (auto simp: limit_known_def limiter_exec_other limiter_exec_inner limiter_exec_wf
          simp del: limiter_exec.simps split: option.splits)
  next
    case True
    show ?thesis
    proof (cases x)
      case (Consume y n)
      with True q wf show ?thesis
        using limit_known_bucket [OF Cons.prems(1) q(2)] consume_inv [OF _ q(2)]
        by (fastforce simp: limit_known_def try_consume_inner hm.get_insert hm.wf_insert)
    next
      case (SetLimit y v n)
      with True q wf show ?thesis
        using limit_known_tracked [OF Cons.prems(1) q(2)] retune_inv [OF _ q(2)]
        by (fastforce simp: limit_known_def set_limit_inner hm.get_insert hm.wf_insert Let_def)
    qed
  qed
  from Cons.IH [OF this] Cons.prems(2) show ?case by (cases x) simp_all
qed simp

lemma limit_known_new:
  "limit_known node (if w = 0 then DEFAULT_RATE_PER_MIN else w) (RateLimiter_new w)"
  using limiter_ok_wf [OF limiter_ok_new [of w]] by (simp add: limit_known_def)

text \<open>
  C3. The limit is enforced over every window of time. Take any history of requests and
  overrides, and then any requests of one node at clock readings within \<open>[T0, T1]\<close>, in any
  order. With \<open>c\<close> the node's budget per minute, at most \<open>c\<close> requests (the burst) plus the
  tokens earned in the window, \<open>(T1 - T0) * c / 60\<close>, are allowed. The floating-point error is
  accounted for: a factor of \<open>1 + 2 ^ -50\<close> on the earned tokens and \<open>2 ^ -20\<close> of a token per
  request. The clock may go up to \<open>2 ^ 53\<close> seconds.
\<close>

theorem limiter_window_rate:
  assumes "list_all (\<lambda>x. f64_finite (limiter_clock x)) ops"
    and "list_all (\<lambda>n. rep n \<and> T0 \<le> n \<and> n \<le> T1) ns" and "0 \<le> T0" and "T0 \<le> T1" and "T1 \<le> 2 ^ 53"
    and "c = unat (node_limit node (if w = 0 then DEFAULT_RATE_PER_MIN else w) ops)"
  shows "allowed_count (limiter_decisions (limiter_run ops (RateLimiter_new w)) node (map Fin ns)) \<le>
    of_nat c + (T1 - T0) * (of_nat c / 60 * (1 + 1 / 2 ^ 50)) + of_nat (length ns) / 2 ^ 20"
proof (cases ns)
  case Nil
  with assms(4) show ?thesis by simp
next
  case (Cons n ms)
  let ?l = "limiter_run ops (RateLimiter_new w)"
  let ?b = "bucket_or ?l node (TokenBucket_full (rl_default_per_min ?l) (Fin n))"
  have known: "limit_known node (node_limit node (if w = 0 then DEFAULT_RATE_PER_MIN else w) ops) ?l"
    using limit_known_run [OF limit_known_new assms(1)] .
  have n: "rep n" "T0 \<le> n" "n \<le> T1" using assms(2) Cons by auto
  from limit_known_bucket [OF known n(1)] obtain t l where "bucket_inv c t l ?b" using assms(6) by blast
  from consume_inv [OF this n(1)] obtain t' where "t' \<le> of_nat c"
    and d: "fst (TokenBucket_try_consume ?b (Fin n)) = (1 \<le> t')"
    and i: "bucket_inv c (if 1 \<le> t' then t' - 1 else t') (max n l) (snd (TokenBucket_try_consume ?b (Fin n)))"
    by blast
  moreover have "allowed_count (bucket_decisions (snd (TokenBucket_try_consume ?b (Fin n))) (map Fin ms)) \<le>
      (if 1 \<le> t' then t' - 1 else t') + max 0 (T1 - max n l) * token_rate c + of_nat (length ms) / 2 ^ 20"
    using assms(2,3,5) n Cons by (intro bucket_window [OF i]) (auto simp: list_all_iff)
  moreover have "max 0 (T1 - max n l) * token_rate c \<le> (T1 - T0) * token_rate c"
    using n assms(4) by (intro mult_right_mono token_rate_nonneg) auto
  moreover have "limiter_decisions ?l node (map Fin ns) = bucket_decisions ?b (map Fin ns)"
    using limiter_decisions_bucket [of ?l node "Fin n" "map Fin ms"] known Cons by (simp add: limit_known_def)
  ultimately have "allowed_count (limiter_decisions ?l node (map Fin ns)) \<le>
      of_nat c + (T1 - T0) * token_rate c + of_nat (length ns) / 2 ^ 20"
    using Cons by (cases "1 \<le> t'") (simp_all add: case_prod_beta add_divide_distrib)
  then show ?thesis by (simp only: token_rate_def)
qed

theorem limiter_window_rate_witness:
  "allowed_count (limiter_decisions
     (limiter_run [SetLimit (NodeId ''n'') 60 (Fin (of_nat 5))] (RateLimiter_new 1)) (NodeId ''n'')
     (map Fin [of_nat 10, of_nat 12])) \<le>
   of_nat (unat (60 :: u32)) + (12 - 10) * (of_nat (unat (60 :: u32)) / 60 * (1 + 1 / 2 ^ 50)) + of_nat 2 / 2 ^ 20"
  using limiter_window_rate [of "[SetLimit (NodeId ''n'') 60 (Fin (of_nat 5))]" 10 12
      "[of_nat 10, of_nat 12]" "unat (60 :: u32)" "NodeId ''n''" 1]
    f64.rp_nat [of 5] f64.rp_nat [of 10] f64.rp_nat [of 12]
  by simp

section \<open>Counters and overrides\<close>

fun consume_outcomes :: "limiter_op list \<Rightarrow> RateLimiter \<Rightarrow> bool list" where
  "consume_outcomes [] l = []"
| "consume_outcomes (Consume x n # ops) l =
     fst (RateLimiter_try_consume l x n) # consume_outcomes ops (limiter_exec (Consume x n) l)"
| "consume_outcomes (SetLimit x w n # ops) l = consume_outcomes ops (limiter_exec (SetLimit x w n) l)"

fun set_limit_calls :: "limiter_op list \<Rightarrow> nat" where
  "set_limit_calls [] = 0"
| "set_limit_calls (Consume _ _ # ops) = set_limit_calls ops"
| "set_limit_calls (SetLimit _ _ _ # ops) = Suc (set_limit_calls ops)"

lemma consume_outcomes_append:
  "consume_outcomes (xs @ ys) l = consume_outcomes xs l @ consume_outcomes ys (limiter_run xs l)"
  by (induction xs l rule: consume_outcomes.induct) simp_all

lemma consume_outcomes_node:
  "consume_outcomes (map (Consume node) ts) l = limiter_decisions l node ts"
  by (induction ts arbitrary: l) (auto split: prod.splits)

lemma consume_outcomes_replicate:
  "consume_outcomes (replicate k (Consume node n)) l = limiter_decisions l node (replicate k n)"
  using consume_outcomes_node [of node "replicate k n"] by (simp add: map_replicate)

lemma try_consume_counters:
  "rl_total_try_consume_calls (snd (RateLimiter_try_consume l x n)) = rl_total_try_consume_calls l + 1"
  "rl_total_allowed (snd (RateLimiter_try_consume l x n)) =
     rl_total_allowed l + (if fst (RateLimiter_try_consume l x n) then 1 else 0)"
  "rl_total_denied (snd (RateLimiter_try_consume l x n)) =
     rl_total_denied l + (if fst (RateLimiter_try_consume l x n) then 0 else 1)"
  "rl_total_set_limit_calls (snd (RateLimiter_try_consume l x n)) = rl_total_set_limit_calls l"
  by (auto simp: RateLimiter_try_consume_def Let_def case_prod_beta)

lemma set_limit_counters:
  "rl_total_try_consume_calls (RateLimiter_set_limit l x w n) = rl_total_try_consume_calls l"
  "rl_total_allowed (RateLimiter_set_limit l x w n) = rl_total_allowed l"
  "rl_total_denied (RateLimiter_set_limit l x w n) = rl_total_denied l"
  "rl_total_set_limit_calls (RateLimiter_set_limit l x w n) = rl_total_set_limit_calls l + 1"
  by (simp_all add: RateLimiter_set_limit_def Let_def)

lemma limiter_counters_run:
  "rl_total_try_consume_calls (limiter_run ops l) =
     rl_total_try_consume_calls l + of_nat (length (consume_outcomes ops l))"
  "rl_total_allowed (limiter_run ops l) =
     rl_total_allowed l + of_nat (length (filter id (consume_outcomes ops l)))"
  "rl_total_denied (limiter_run ops l) =
     rl_total_denied l + of_nat (length (filter Not (consume_outcomes ops l)))"
  "rl_total_set_limit_calls (limiter_run ops l) = rl_total_set_limit_calls l + of_nat (set_limit_calls ops)"
  by (induction ops l rule: consume_outcomes.induct)
    (simp_all add: try_consume_counters set_limit_counters)

lemma limiter_exec_dom:
  assumes "hm_wf (rl_inner l)"
  shows "dom (hm_get (rl_inner (limiter_exec x l))) = insert (limiter_node x) (dom (hm_get (rl_inner l)))"
  using limiter_exec_inner(1) [of x l] assms by (auto simp: hm.get_insert)

lemma limiter_run_dom:
  "hm_wf (rl_inner l) \<Longrightarrow> hm_wf (rl_inner (limiter_run ops l)) \<and>
   dom (hm_get (rl_inner (limiter_run ops l))) = limiter_node ` set ops \<union> dom (hm_get (rl_inner l))"
  by (induction ops arbitrary: l) (auto simp: limiter_exec_dom limiter_exec_wf)

text \<open>
  The metrics snapshot accounts for a whole history: calls, allowed, denied and overrides
  (modulo the counters' \<open>2 ^ 64\<close>), with calls the sum of allowed and denied, and the number
  of distinct nodes that were named.
\<close>

lemma limiter_metrics_account:
  "RateLimiter_metrics (limiter_run ops (RateLimiter_new w)) =
     (let ds = consume_outcomes ops (RateLimiter_new w) in
      \<lparr>rm_total_try_consume_calls = of_nat (length (filter id ds)) + of_nat (length (filter Not ds)),
       rm_total_allowed = of_nat (length (filter id ds)),
       rm_total_denied = of_nat (length (filter Not ds)),
       rm_total_set_limit_calls = of_nat (set_limit_calls ops),
       rm_tracked_nodes = card (limiter_node ` set ops)\<rparr>)"
proof -
  let ?l = "limiter_run ops (RateLimiter_new w)"
  have wf: "hm_wf (rl_inner ?l)" and dom: "dom (hm_get (rl_inner ?l)) = limiter_node ` set ops"
    using limiter_run_dom [OF limiter_ok_wf [OF limiter_ok_new [of w]], of ops] by (auto simp: dom_def)
  have "length ds = length (filter id ds) + length (filter Not ds)" for ds :: "bool list"
    by (induction ds) auto
  then have len: "(of_nat (length (consume_outcomes ops l)) :: u64) =
      of_nat (length (filter id (consume_outcomes ops l))) + of_nat (length (filter Not (consume_outcomes ops l)))"
    for l by (metis of_nat_add)
  have new: "rl_total_try_consume_calls (RateLimiter_new w) = 0" "rl_total_allowed (RateLimiter_new w) = 0"
    "rl_total_denied (RateLimiter_new w) = 0" "rl_total_set_limit_calls (RateLimiter_new w) = 0"
    by (simp_all add: RateLimiter_new_def)
  show ?thesis
    using hm.len_card [OF wf]
    by (simp add: RateLimiter_metrics_def RateLimiter_tracked_nodes_def Let_def dom limiter_counters_run new len)
qed

text \<open>
  An override always leaves the node limited, to the given budget or to the default if it
  is zero, at a finite rate: its capacity is that budget, it refills by a sixtieth of it each
  second, and its tokens are at most the capacity. A node first named by the override starts
  with that budget in full, not the limiter's default.
\<close>

lemma set_limit_effective:
  assumes "list_all (\<lambda>x. f64_finite (limiter_clock x)) ops" and "f64_finite now"
    and "e = (if v = 0 then DEFAULT_RATE_PER_MIN else v)"
    and "l = limiter_run ops (RateLimiter_new w)"
  shows "\<exists>b. RateLimiter_snapshot (RateLimiter_set_limit l node v now) node = Some b \<and>
    tb_capacity b = f64_of_u32 e \<and> tb_refill_per_sec b = f64_div_by (f64_of_u32 e) 60 \<and>
    f64_le (Fin 0) (tb_tokens b) \<and> f64_le (tb_tokens b) (f64_of_u32 e) \<and>
    (RateLimiter_snapshot l node = None \<longrightarrow> b = TokenBucket_full e now)"
proof -
  obtain q where q: "now = Fin q" "rep q" using f64_finiteD [OF assms(2)] by blast
  have ok: "limiter_ok l" unfolding assms(4) by (rule limiter_run_ok [OF limiter_ok_new assms(1)])
  let ?b = "TokenBucket_retune (bucket_or l node (TokenBucket_full e now)) e now"
  have some: "RateLimiter_snapshot (RateLimiter_set_limit l node v now) node = Some ?b"
    using limiter_ok_wf [OF ok]
    by (simp add: RateLimiter_snapshot_def set_limit_inner assms(3) Let_def hm.get_insert)
  have "\<exists>c t n. bucket_inv c t n (bucket_or l node (TokenBucket_full e now))"
    using bucket_or_ok [OF ok q(2)] by (simp add: bucket_ok_def q(1))
  then obtain t n where i: "bucket_inv (unat e) t n ?b" using retune_inv [OF _ q(2)] q(1) by blast
  obtain k where k: "k = unat e" "k < 2 ^ 32" using unat_lt2p32 [of e] by simp
  have fresh: "?b = TokenBucket_full e now" if "RateLimiter_snapshot l node = None"
    using that q(1) by (simp add: RateLimiter_snapshot_def bucket_or_def TokenBucket_retune_def
        TokenBucket_refill_def TokenBucket_full_def f64_of_u32_def f64_min_def Let_def)
  show ?thesis
    using some i fresh div60(1) [OF k(2)]
    by (intro exI [of _ ?b]) (simp add: bucket_inv_def f64_of_u32_def flip: k(1) del: of_nat_unat)
qed

end
