(* ===== verification/Rust_Io.thy ===== *)
theory Rust_Io
  imports Prelude
begin

text \<open>
  Effectful code. A computation transforms a world \<open>'w\<close>, whatever its operations depend on
  (streams, the peer, the network), and ends with a result or, as \<open>None\<close>, with a panic.
  \<open>io_bind\<close> is the \<^verbatim>\<open>?\<close> operator: it goes on after success and stops at the first error or
  panic. A future does nothing before it is awaited, so an operation is run where the source
  awaits it.

  The QUIC streams of \<^verbatim>\<open>quinn\<close> are another crate. They enter as the record \<open>quinn\<close> of
  operations on the world, an argument of the code that calls them; an error of the crate is
  represented by its message, the only thing the program uses of it. A stream is named by its
  number. Between two calls the peer and the network may do anything: an operation may change
  any part of the world.
\<close>

type_synonym ('w, 'e, 'a) io = "'w \<Rightarrow> ('e + 'a) option \<times> 'w"

definition io_ok :: "'a \<Rightarrow> ('w, 'e, 'a) io" where
  "io_ok a w = (Some (Inr a), w)"

definition io_err :: "'e \<Rightarrow> ('w, 'e, 'a) io" where
  "io_err e w = (Some (Inl e), w)"

definition io_panic :: "('w, 'e, 'a) io" where
  "io_panic w = (None, w)"

definition io_bind :: "('w, 'e, 'a) io \<Rightarrow> ('a \<Rightarrow> ('w, 'e, 'b) io) \<Rightarrow> ('w, 'e, 'b) io" where
  "io_bind m f w =
     (case m w of
        (None, w') \<Rightarrow> (None, w')
      | (Some (Inl e), w') \<Rightarrow> (Some (Inl e), w')
      | (Some (Inr a), w') \<Rightarrow> f a w')"

text \<open>A call that cannot panic, and a pure result; the error is converted by \<open>conv\<close>.\<close>

definition io_call :: "('f \<Rightarrow> 'e) \<Rightarrow> ('w \<Rightarrow> ('f + 'a) \<times> 'w) \<Rightarrow> ('w, 'e, 'a) io" where
  "io_call conv f w = (case f w of (r, w') \<Rightarrow> (Some (map_err conv r), w'))"

definition io_result :: "'e + 'a \<Rightarrow> ('w, 'e, 'a) io" where
  "io_result r w = (Some r, w)"

text \<open>\<^verbatim>\<open>map_err\<close> on the result of a computation that may panic.\<close>

definition io_map_err :: "('f \<Rightarrow> 'e) \<Rightarrow> ('w, 'f, 'a) io \<Rightarrow> ('w, 'e, 'a) io" where
  "io_map_err conv m w = (case m w of (r, w') \<Rightarrow> (map_option (map_err conv) r, w'))"

text \<open>A future that is dropped without having been awaited.\<close>

definition drop_future :: "('w, 'e, 'a) io \<Rightarrow> ('w, 'f, unit) io" where
  "drop_future m = io_ok ()"

text \<open>Code that runs when the scope of \<open>m\<close> is left, also by an error or a panic.\<close>

definition io_finally :: "('w, 'e, 'a) io \<Rightarrow> ('w \<Rightarrow> 'w) \<Rightarrow> ('w, 'e, 'a) io" where
  "io_finally m f w = (case m w of (r, w') \<Rightarrow> (r, f w'))"

lemma io_run_simps [simp]:
  "io_ok a w = (Some (Inr a), w)"
  "io_err e w = (Some (Inl e), w)"
  "io_panic w = (None, w)"
  "io_result r w = (Some r, w)"
  "drop_future m w = (Some (Inr ()), w)"
  by (simp_all add: io_ok_def io_err_def io_panic_def io_result_def drop_future_def)

lemma io_bind_Inr: "m w = (Some (Inr a), w') \<Longrightarrow> io_bind m f w = f a w'"
  and io_bind_Inl: "m w = (Some (Inl e), w') \<Longrightarrow> io_bind m f w = (Some (Inl e), w')"
  and io_bind_None: "m w = (None, w') \<Longrightarrow> io_bind m f w = (None, w')"
  by (simp_all add: io_bind_def)

lemma io_bind_unit [simp]:
  "io_bind (io_ok a) f = f a" "io_bind (io_err e) f = io_err e" "io_bind io_panic f = io_panic"
  by (simp_all add: io_bind_def fun_eq_iff)

lemma io_bind_drop_future [simp]: "io_bind (drop_future m) f = f ()"
  by (simp add: io_bind_def fun_eq_iff)

lemma io_bind_assoc: "io_bind (io_bind m f) g = io_bind m (\<lambda>a. io_bind (f a) g)"
  by (auto simp: io_bind_def fun_eq_iff split: prod.splits option.splits sum.splits)

lemma io_bind_eq_Inr:
  "io_bind m f w = (Some (Inr b), w') \<longleftrightarrow> (\<exists>a w1. m w = (Some (Inr a), w1) \<and> f a w1 = (Some (Inr b), w'))"
  by (auto simp: io_bind_def split: prod.splits option.splits sum.splits)

lemma io_call_Inr: "f w = (Inr a, w') \<Longrightarrow> io_call conv f w = (Some (Inr a), w')"
  and io_call_Inl: "f w = (Inl e, w') \<Longrightarrow> io_call conv f w = (Some (Inl (conv e)), w')"
  by (simp_all add: io_call_def)

lemma io_call_eq_Inr: "io_call conv f w = (Some (Inr a), w') \<longleftrightarrow> f w = (Inr a, w')"
  by (auto simp: io_call_def split: prod.splits)

lemma io_map_err_eq_Inr: "io_map_err conv m w = (Some (Inr a), w') \<longleftrightarrow> m w = (Some (Inr a), w')"
  by (auto simp: io_map_err_def split: prod.splits)

lemma io_finally_eq:
  "io_finally m f w = (r, w') \<longleftrightarrow> (\<exists>w1. m w = (r, w1) \<and> w' = f w1)"
  by (auto simp: io_finally_def split: prod.splits)

text \<open>An observation \<open>f\<close> of the world that a computation does not change.\<close>

definition io_keeps :: "('w \<Rightarrow> 'o) \<Rightarrow> ('w, 'e, 'a) io \<Rightarrow> bool" where
  "io_keeps f m \<longleftrightarrow> (\<forall>w. f (snd (m w)) = f w)"

lemma io_keepsD: "io_keeps f m \<Longrightarrow> m w = (r, w') \<Longrightarrow> f w' = f w"
  by (metis io_keeps_def snd_conv)

lemma io_keeps_intros:
  "io_keeps f (io_ok a)" "io_keeps f (io_err e)" "io_keeps f io_panic" "io_keeps f (io_result r)"
  "(\<And>w. f (snd (g w)) = f w) \<Longrightarrow> io_keeps f (io_call conv g)"
  "io_keeps f m \<Longrightarrow> (\<And>a. io_keeps f (k a)) \<Longrightarrow> io_keeps f (io_bind m k)"
  "io_keeps f m \<Longrightarrow> (\<And>w. f (d w) = f w) \<Longrightarrow> io_keeps f (io_finally m d)"
  by (auto simp: io_keeps_def io_call_def io_bind_def io_finally_def split: prod.splits option.splits sum.splits)
    (metis snd_conv)+

text \<open>The continuation matters only for the results that the first computation can give.\<close>

lemma io_keeps_bind:
  assumes "io_keeps f m" and "\<And>a w w'. m w = (Some (Inr a), w') \<Longrightarrow> io_keeps f (k a)"
  shows "io_keeps f (io_bind m k)"
  unfolding io_keeps_def
proof
  fix w
  obtain r w1 where r: "m w = (r, w1)" by (cases "m w")
  then have "f w1 = f w" using io_keepsD [OF assms(1)] by blast
  with r assms(2) [of w _ w1] show "f (snd (io_bind m k w)) = f w"
    by (cases r rule: option.exhaust; simp add: io_bind_def io_keeps_def split: sum.split)
qed

section \<open>QUIC streams\<close>

type_synonym quinn_error = string
type_synonym stream_id = nat

record 'w quinn =
  q_open_bi :: "'w \<Rightarrow> (quinn_error + stream_id) \<times> 'w"
  q_accept_bi :: "'w \<Rightarrow> (quinn_error + stream_id) \<times> 'w"
  q_write_all :: "stream_id \<Rightarrow> bytes \<Rightarrow> 'w \<Rightarrow> (quinn_error + unit) \<times> 'w"
  q_finish :: "stream_id \<Rightarrow> 'w \<Rightarrow> (quinn_error + unit) \<times> 'w"
  q_read_exact :: "stream_id \<Rightarrow> nat \<Rightarrow> 'w \<Rightarrow> (quinn_error + bytes) \<times> 'w"
  q_read :: "stream_id \<Rightarrow> nat \<Rightarrow> 'w \<Rightarrow> (quinn_error + bytes option) \<times> 'w"
  q_drop :: "stream_id \<Rightarrow> 'w \<Rightarrow> 'w"

lemma truncate_simps [simp]:
  "q_open_bi (quinn.truncate q) = q_open_bi q" "q_accept_bi (quinn.truncate q) = q_accept_bi q"
  "q_write_all (quinn.truncate q) = q_write_all q" "q_finish (quinn.truncate q) = q_finish q"
  "q_read_exact (quinn.truncate q) = q_read_exact q" "q_read (quinn.truncate q) = q_read q"
  "q_drop (quinn.truncate q) = q_drop q"
  by (simp_all add: quinn.defs)

text \<open>
  \<open>delivers q open out inn\<close>: what a healthy stream promises to the endpoint with the operations
  \<open>q\<close>. While it has not finished its side (\<open>open\<close>), its writes succeed and are appended to
  \<open>out\<close>, the bytes on their way to the peer; it reads from \<open>inn\<close>, the bytes from the peer,
  in order. Dropping the handle takes back nothing that was written. The peer's side
  (\<open>peer_open\<close>) does not change.
\<close>

definition delivers ::
  "'w quinn \<Rightarrow> ('w \<Rightarrow> stream_id \<Rightarrow> bool) \<Rightarrow> ('w \<Rightarrow> stream_id \<Rightarrow> bool) \<Rightarrow>
     ('w \<Rightarrow> stream_id \<Rightarrow> bytes) \<Rightarrow> ('w \<Rightarrow> stream_id \<Rightarrow> bytes) \<Rightarrow> bool" where
  "delivers q open peer_open out inn \<longleftrightarrow>
     (\<forall>w s bs. open w s \<longrightarrow> (\<exists>w'. q_write_all q s bs w = (Inr (), w') \<and> open w' s \<and>
        out w' s = out w s @ bs \<and> inn w' s = inn w s \<and> peer_open w' s = peer_open w s)) \<and>
     (\<forall>w s. open w s \<longrightarrow> (\<exists>w'. q_finish q s w = (Inr (), w') \<and>
        out w' s = out w s \<and> inn w' s = inn w s \<and> peer_open w' s = peer_open w s)) \<and>
     (\<forall>w s n. n \<le> length (inn w s) \<longrightarrow>
        (\<exists>w'. q_read_exact q s n w = (Inr (take n (inn w s)), w') \<and> open w' s = open w s \<and>
           out w' s = out w s \<and> inn w' s = drop n (inn w s) \<and> peer_open w' s = peer_open w s)) \<and>
     (\<forall>w s. out (q_drop q s w) s = out w s)"

lemma deliversE:
  assumes "delivers q open peer_open out inn"
  shows delivers_write: "open w s \<Longrightarrow> \<exists>w'. q_write_all q s bs w = (Inr (), w') \<and> open w' s \<and>
      out w' s = out w s @ bs \<and> inn w' s = inn w s \<and> peer_open w' s = peer_open w s"
    and delivers_finish: "open w s \<Longrightarrow> \<exists>w'. q_finish q s w = (Inr (), w') \<and>
      out w' s = out w s \<and> inn w' s = inn w s \<and> peer_open w' s = peer_open w s"
    and delivers_read: "n \<le> length (inn w s) \<Longrightarrow>
      \<exists>w'. q_read_exact q s n w = (Inr (take n (inn w s)), w') \<and> open w' s = open w s \<and>
           out w' s = out w s \<and> inn w' s = drop n (inn w s) \<and> peer_open w' s = peer_open w s"
    and delivers_drop: "out (q_drop q s w) s = out w s"
  using assms unfolding delivers_def by blast+

section \<open>Allocation\<close>

text \<open>
  \<^verbatim>\<open>vec![0u8; len]\<close>: more than \<^verbatim>\<open>isize::MAX\<close> bytes are a panic, and so is (as an abort) a
  request that the allocator \<open>alloc\<close> refuses.
\<close>

definition isize_max :: nat where
  "isize_max = 9223372036854775807"

definition vec_zeroed :: "(nat \<Rightarrow> bool) \<Rightarrow> nat \<Rightarrow> ('w, 'e, unit) io" where
  "vec_zeroed alloc len = (if isize_max < len \<or> \<not> alloc len then io_panic else io_ok ())"

end
