(* ===== verification/Session.thy ===== *)
theory Session
  imports Ticket Rust_Io
begin

text \<open>
  \<^verbatim>\<open>src/session.rs\<close>: the handshake in which a client presents its ticket and the server admits
  it. Both sides are computations over the QUIC operations; the JSON codec of tickets and
  responses extends the record of crates.
\<close>

section \<open>Data\<close>

datatype SessionError =
    SE_Io io_error
  | SE_Write quinn_error
  | SE_Read quinn_error
  | SE_ClosedStream quinn_error
  | SE_Connection string
  | SE_Ticket TicketError
  | SE_SubjectMismatch (se_expected: string) (se_actual: string)
  | SE_IssuerNotTrusted string
  | SE_Protocol string

record HandshakeSummary =
  hs_issuer :: NodeId
  hs_subject :: NodeId
  hs_relay_url :: string
  hs_alpn :: string
  hs_expires_at :: int

datatype HandshakeErrorKind =
    HEK_TicketExpired
  | HEK_InvalidSignature
  | HEK_UnsupportedVersion u8
  | HEK_InvalidKeyEncoding
  | HEK_InvalidSignatureEncoding
  | HEK_Serialization
  | HEK_IssuerNotTrusted
  | HEK_SubjectMismatch
  | HEK_MalformedTicket string

datatype HandshakeResponse =
    HandshakeResponse_Ok TicketClaims
  | HandshakeResponse_Err HandshakeErrorKind

text \<open>The trait \<^verbatim>\<open>TrustCheck\<close> has one method; a check is that method.\<close>

type_synonym TrustCheck = "NodeId \<Rightarrow> bool"

definition allow_all_trust :: TrustCheck where
  "allow_all_trust _ = True"

definition deny_all_trust :: TrustCheck where
  "deny_all_trust _ = False"

record ('sk, 'vk, 'sg) session_crates = "('sk, 'vk, 'sg) crates" +
  ticket_to_vec :: "SignedTicket \<Rightarrow> string + bytes"
  ticket_from_slice :: "bytes \<Rightarrow> string + SignedTicket"
  response_to_vec :: "HandshakeResponse \<Rightarrow> string + bytes"
  response_from_slice :: "bytes \<Rightarrow> string + HandshakeResponse"

section \<open>Error kinds\<close>

fun HandshakeErrorKind_as_label :: "HandshakeErrorKind \<Rightarrow> string" where
  "HandshakeErrorKind_as_label HEK_TicketExpired = ''ticket_expired''"
| "HandshakeErrorKind_as_label HEK_InvalidSignature = ''invalid_signature''"
| "HandshakeErrorKind_as_label (HEK_UnsupportedVersion _) = ''unsupported_version''"
| "HandshakeErrorKind_as_label HEK_InvalidKeyEncoding = ''invalid_key_encoding''"
| "HandshakeErrorKind_as_label HEK_InvalidSignatureEncoding = ''invalid_signature_encoding''"
| "HandshakeErrorKind_as_label HEK_Serialization = ''serialization''"
| "HandshakeErrorKind_as_label HEK_IssuerNotTrusted = ''issuer_not_trusted''"
| "HandshakeErrorKind_as_label HEK_SubjectMismatch = ''subject_mismatch''"
| "HandshakeErrorKind_as_label (HEK_MalformedTicket msg) = ''malformed_ticket:'' @ msg"

fun HandshakeErrorKind_from :: "TicketError \<Rightarrow> HandshakeErrorKind" where
  "HandshakeErrorKind_from Expired = HEK_TicketExpired"
| "HandshakeErrorKind_from InvalidSignature = HEK_InvalidSignature"
| "HandshakeErrorKind_from (UnsupportedVersion v) = HEK_UnsupportedVersion v"
| "HandshakeErrorKind_from InvalidKeyEncoding = HEK_InvalidKeyEncoding"
| "HandshakeErrorKind_from InvalidSignatureEncoding = HEK_InvalidSignatureEncoding"
| "HandshakeErrorKind_from (Serialization _) = HEK_Serialization"

fun into_session_error :: "HandshakeErrorKind \<Rightarrow> SessionError" where
  "into_session_error HEK_TicketExpired = SE_Ticket Expired"
| "into_session_error HEK_InvalidSignature = SE_Ticket InvalidSignature"
| "into_session_error (HEK_UnsupportedVersion v) = SE_Ticket (UnsupportedVersion v)"
| "into_session_error HEK_InvalidKeyEncoding = SE_Ticket InvalidKeyEncoding"
| "into_session_error HEK_InvalidSignatureEncoding = SE_Ticket InvalidSignatureEncoding"
| "into_session_error HEK_Serialization = SE_Ticket (Serialization ''server'')"
| "into_session_error HEK_IssuerNotTrusted = SE_Protocol ''server reported issuer_not_trusted''"
| "into_session_error HEK_SubjectMismatch = SE_Protocol ''server reported subject_mismatch''"
| "into_session_error (HEK_MalformedTicket msg) =
     SE_Protocol (''server reported malformed_ticket: '' @ msg)"

section \<open>Frames\<close>

definition length_prefix :: "bytes \<Rightarrow> bytes" where
  "length_prefix payload = u64_to_be_bytes (of_nat (length payload))"

text \<open>The two writes and the end of the stream, as both sides send a frame.\<close>

definition write_frame :: "'w quinn \<Rightarrow> stream_id \<Rightarrow> bytes \<Rightarrow> ('w, SessionError, unit) io" where
  "write_frame q s payload =
     io_bind (io_call SE_Write (q_write_all q s (length_prefix payload))) (\<lambda>_.
     io_bind (io_call SE_Write (q_write_all q s payload)) (\<lambda>_.
     io_call SE_ClosedStream (q_finish q s)))"

text \<open>The header, the buffer of the announced length and the body, as both sides read a frame;
  \<^verbatim>\<open>as usize\<close> is the identity on a 64-bit target.\<close>

definition read_frame :: "(nat \<Rightarrow> bool) \<Rightarrow> 'w quinn \<Rightarrow> stream_id \<Rightarrow> ('w, SessionError, bytes) io" where
  "read_frame alloc q s =
     io_bind (io_call SE_Read (q_read_exact q s 8)) (\<lambda>header.
     let len = unat (u64_from_be_bytes header) in
     io_bind (vec_zeroed alloc len) (\<lambda>_.
     io_call SE_Read (q_read_exact q s len)))"

section \<open>The two sides\<close>

definition summary_of :: "TicketClaims \<Rightarrow> HandshakeSummary" where
  "summary_of claims =
     \<lparr>hs_issuer = tc_issuer claims, hs_subject = tc_subject claims,
      hs_relay_url = tc_relay_url claims, hs_alpn = tc_alpn claims,
      hs_expires_at = tc_expires_at claims\<rparr>"

definition client_send ::
  "('sk, 'vk, 'sg, 'z) session_crates_scheme \<Rightarrow> 'w quinn \<Rightarrow> SignedTicket \<Rightarrow> stream_id \<Rightarrow>
     ('w, SessionError, unit) io" where
  "client_send cr q ticket s =
     io_bind (io_result (map_err (\<lambda>err. SE_Protocol (''serialize ticket: '' @ err)) (ticket_to_vec cr ticket)))
       (write_frame q s)"

definition client_receive ::
  "('sk, 'vk, 'sg, 'z) session_crates_scheme \<Rightarrow> (nat \<Rightarrow> bool) \<Rightarrow> 'w quinn \<Rightarrow> stream_id \<Rightarrow>
     ('w, SessionError, HandshakeSummary) io" where
  "client_receive cr alloc q s =
     io_bind (read_frame alloc q s) (\<lambda>body.
     io_bind (io_result (map_err (\<lambda>err. SE_Protocol (''server response: '' @ err)) (response_from_slice cr body)))
       (\<lambda>response. case response of
          HandshakeResponse_Ok claims \<Rightarrow> io_ok (summary_of claims)
        | HandshakeResponse_Err kind \<Rightarrow> io_err (into_session_error kind)))"

definition client_handshake ::
  "('sk, 'vk, 'sg, 'z) session_crates_scheme \<Rightarrow> (nat \<Rightarrow> bool) \<Rightarrow> 'w quinn \<Rightarrow> SignedTicket \<Rightarrow>
     ('w, SessionError, HandshakeSummary) io" where
  "client_handshake cr alloc q ticket =
     io_bind (io_call SE_Connection (q_open_bi q)) (\<lambda>s.
     io_finally
       (io_bind (client_send cr q ticket s) (\<lambda>_. client_receive cr alloc q s))
       (q_drop q s))"

definition futures_block_on_send ::
  "('sk, 'vk, 'sg, 'z) session_crates_scheme \<Rightarrow> 'w quinn \<Rightarrow> stream_id \<Rightarrow> HandshakeResponse \<Rightarrow>
     ('w, SessionError, unit) io" where
  "futures_block_on_send cr q s response =
     io_bind (io_result (map_err (\<lambda>err. SE_Protocol (''encode response: '' @ err)) (response_to_vec cr response)))
       (write_frame q s)"

text \<open>
  On the failing branches the source binds the future of \<^verbatim>\<open>futures_block_on_send\<close> to \<open>_\<close> and
  never awaits it.
\<close>

definition server_handshake ::
  "('sk, 'vk, 'sg, 'z) session_crates_scheme \<Rightarrow> (nat \<Rightarrow> bool) \<Rightarrow> 'w quinn \<Rightarrow> stream_id \<Rightarrow> 'vk \<Rightarrow> 'vk \<Rightarrow>
     TrustCheck \<Rightarrow> int \<Rightarrow> ('w, SessionError, HandshakeSummary) io" where
  "server_handshake cr alloc q s issuer_verifying_key expected_subject is_trusted now_unix =
     io_finally
       (io_bind (read_frame alloc q s) (\<lambda>body.
        case ticket_from_slice cr body of
          Inl err \<Rightarrow>
            io_bind (drop_future (futures_block_on_send cr q s (HandshakeResponse_Err (HEK_MalformedTicket err))))
              (\<lambda>_. io_err (SE_Protocol (''deserialize ticket: '' @ err)))
        | Inr ticket \<Rightarrow>
       (case verify_ticket cr ticket issuer_verifying_key now_unix of
          Inl err \<Rightarrow>
            io_bind (drop_future (futures_block_on_send cr q s (HandshakeResponse_Err (HandshakeErrorKind_from err))))
              (\<lambda>_. io_err (SE_Ticket err))
        | Inr claims \<Rightarrow>
        if \<not> is_trusted (tc_issuer claims) then
          io_bind (drop_future (futures_block_on_send cr q s (HandshakeResponse_Err HEK_IssuerNotTrusted)))
            (\<lambda>_. io_err (SE_IssuerNotTrusted (NodeId_as_str (tc_issuer claims))))
        else let expected_subject_id = NodeId_from_verifying_key cr expected_subject in
        if tc_subject claims \<noteq> expected_subject_id then
          io_bind (drop_future (futures_block_on_send cr q s (HandshakeResponse_Err HEK_SubjectMismatch)))
            (\<lambda>_. io_err (SE_SubjectMismatch (NodeId_as_str expected_subject_id) (NodeId_as_str (tc_subject claims))))
        else
          io_bind (futures_block_on_send cr q s (HandshakeResponse_Ok claims))
            (\<lambda>_. io_ok (summary_of claims)))))
       (q_drop q s)"

section \<open>What the server admits\<close>

text \<open>The specification of the gate: the outcome of the checks on the body of the first frame.\<close>

definition admission ::
  "('sk, 'vk, 'sg, 'z) session_crates_scheme \<Rightarrow> 'vk \<Rightarrow> 'vk \<Rightarrow> TrustCheck \<Rightarrow> int \<Rightarrow> bytes \<Rightarrow>
     SessionError + TicketClaims" where
  "admission cr issuer_key subject_key trusted now body =
     (case ticket_from_slice cr body of
        Inl err \<Rightarrow> Inl (SE_Protocol (''deserialize ticket: '' @ err))
      | Inr ticket \<Rightarrow>
     (case verify_ticket cr ticket issuer_key now of
        Inl err \<Rightarrow> Inl (SE_Ticket err)
      | Inr c \<Rightarrow>
          if \<not> trusted (tc_issuer c) then Inl (SE_IssuerNotTrusted (NodeId_as_str (tc_issuer c)))
          else if tc_subject c \<noteq> NodeId_from_verifying_key cr subject_key then
            Inl (SE_SubjectMismatch (NodeId_as_str (NodeId_from_verifying_key cr subject_key)) (NodeId_as_str (tc_subject c)))
          else Inr c))"

lemma admission_Inr_iff:
  "admission cr vk sub trusted now body = Inr c \<longleftrightarrow>
     (\<exists>t. ticket_from_slice cr body = Inr t \<and> verify_ticket cr t vk now = Inr c \<and>
        trusted (tc_issuer c) \<and> tc_subject c = NodeId_from_verifying_key cr sub)"
  by (auto simp: admission_def split: sum.splits if_splits)

text \<open>The server is: read the frame, decide, and answer only an admitted client.\<close>

lemma server_handshake_eq:
  "server_handshake cr alloc q s vk sub trusted now =
     io_finally
       (io_bind (read_frame alloc q s) (\<lambda>body.
          case admission cr vk sub trusted now body of
            Inl e \<Rightarrow> io_err e
          | Inr c \<Rightarrow> io_bind (futures_block_on_send cr q s (HandshakeResponse_Ok c)) (\<lambda>_. io_ok (summary_of c))))
       (q_drop q s)"
  unfolding server_handshake_def
  by (intro arg_cong2 [where f = io_finally] arg_cong2 [where f = io_bind] ext refl)
    (simp add: admission_def Let_def split: sum.split)

lemma server_handshake_Inr:
  assumes "server_handshake cr alloc q s vk sub trusted now w = (Some (Inr sm), w')"
  shows "\<exists>body w1 c. read_frame alloc q s w = (Some (Inr body), w1) \<and>
    admission cr vk sub trusted now body = Inr c \<and> sm = summary_of c"
proof -
  let ?k = "\<lambda>body. case admission cr vk sub trusted now body of Inl e \<Rightarrow> io_err e
    | Inr c \<Rightarrow> io_bind (futures_block_on_send cr q s (HandshakeResponse_Ok c)) (\<lambda>_. io_ok (summary_of c))"
  from assms obtain body w1 w2 where "read_frame alloc q s w = (Some (Inr body), w1)"
      and "?k body w1 = (Some (Inr sm), w2)"
    by (auto simp: server_handshake_eq io_finally_eq io_bind_eq_Inr)
  then show ?thesis by (cases "admission cr vk sub trusted now body") (auto simp: io_bind_eq_Inr)
qed

section \<open>Frames on a healthy stream\<close>

lemma length_prefix_decoded:
  "length payload \<le> isize_max \<Longrightarrow> unat (u64_from_be_bytes (length_prefix payload)) = length payload"
  by (simp add: length_prefix_def u64_be_roundtrip isize_max_def unsigned_of_nat take_bit_nat_eq_self)

lemma length_length_prefix [simp]: "length (length_prefix payload) = 8"
  by (simp add: length_prefix_def)

lemma write_frame_delivers:
  assumes d: "delivers q opn peer_open out inn" and o: "opn w s"
  shows "\<exists>w'. write_frame q s payload w = (Some (Inr ()), w') \<and>
    out w' s = out w s @ length_prefix payload @ payload \<and> inn w' s = inn w s \<and> peer_open w' s = peer_open w s"
proof -
  obtain w1 where w1: "q_write_all q s (length_prefix payload) w = (Inr (), w1)" "opn w1 s"
    "out w1 s = out w s @ length_prefix payload" "inn w1 s = inn w s" "peer_open w1 s = peer_open w s"
    using delivers_write [OF d o] by blast
  obtain w2 where w2: "q_write_all q s payload w1 = (Inr (), w2)" "opn w2 s"
    "out w2 s = out w1 s @ payload" "inn w2 s = inn w1 s" "peer_open w2 s = peer_open w1 s"
    using delivers_write [OF d w1(2)] by blast
  obtain w3 where "q_finish q s w2 = (Inr (), w3)" "out w3 s = out w2 s" "inn w3 s = inn w2 s"
    "peer_open w3 s = peer_open w2 s"
    using delivers_finish [OF d w2(2)] by blast
  with w1 w2 show ?thesis by (simp add: write_frame_def io_bind_def io_call_def)
qed

lemma read_frame_delivers:
  assumes d: "delivers q opn peer_open out inn"
    and i: "inn w s = length_prefix payload @ payload" and len: "length payload \<le> isize_max" "alloc (length payload)"
  shows "\<exists>w'. read_frame alloc q s w = (Some (Inr payload), w') \<and> out w' s = out w s \<and>
    opn w' s = opn w s \<and> peer_open w' s = peer_open w s"
proof -
  obtain w1 where w1: "q_read_exact q s 8 w = (Inr (length_prefix payload), w1)" "opn w1 s = opn w s"
    "out w1 s = out w s" "inn w1 s = payload" "peer_open w1 s = peer_open w s"
    using delivers_read [OF d, of 8 w s] i by auto
  obtain w2 where "q_read_exact q s (length payload) w1 = (Inr payload, w2)" "opn w2 s = opn w1 s"
    "out w2 s = out w1 s" "peer_open w2 s = peer_open w1 s"
    using delivers_read [OF d, of "length payload" w1 s] w1(4) by auto
  with w1 len show ?thesis
    by (simp add: read_frame_def io_bind_def io_call_def Let_def length_prefix_decoded vec_zeroed_def)
qed

section \<open>Demonstration streams\<close>

text \<open>
  A world with a single healthy stream: whether each side has finished it and the bytes
  under way in each direction. The witnesses instantiate the QUIC operations with it.
\<close>

record pipe =
  pipe_client_open :: bool
  pipe_server_open :: bool
  pipe_up :: bytes
  pipe_down :: bytes

definition demo_client :: "pipe quinn" where
  "demo_client =
     \<lparr>q_open_bi = (\<lambda>w. (Inr 0, w)), q_accept_bi = (\<lambda>w. (Inl ''none'', w)),
      q_write_all = (\<lambda>s bs w. if pipe_client_open w then (Inr (), w\<lparr>pipe_up := pipe_up w @ bs\<rparr>) else (Inl ''closed'', w)),
      q_finish = (\<lambda>s w. if pipe_client_open w then (Inr (), w\<lparr>pipe_client_open := False\<rparr>) else (Inl ''closed'', w)),
      q_read_exact = (\<lambda>s n w. if n \<le> length (pipe_down w)
         then (Inr (take n (pipe_down w)), w\<lparr>pipe_down := drop n (pipe_down w)\<rparr>) else (Inl ''finished early'', w)),
      q_read = (\<lambda>s n w. (Inr (Some (take n (pipe_down w))), w\<lparr>pipe_down := drop n (pipe_down w)\<rparr>)),
      q_drop = (\<lambda>s w. w)\<rparr>"

definition demo_server :: "pipe quinn" where
  "demo_server =
     \<lparr>q_open_bi = (\<lambda>w. (Inl ''none'', w)), q_accept_bi = (\<lambda>w. (Inr 0, w)),
      q_write_all = (\<lambda>s bs w. if pipe_server_open w then (Inr (), w\<lparr>pipe_down := pipe_down w @ bs\<rparr>) else (Inl ''closed'', w)),
      q_finish = (\<lambda>s w. if pipe_server_open w then (Inr (), w\<lparr>pipe_server_open := False\<rparr>) else (Inl ''closed'', w)),
      q_read_exact = (\<lambda>s n w. if n \<le> length (pipe_up w)
         then (Inr (take n (pipe_up w)), w\<lparr>pipe_up := drop n (pipe_up w)\<rparr>) else (Inl ''finished early'', w)),
      q_read = (\<lambda>s n w. (Inr (Some (take n (pipe_up w))), w\<lparr>pipe_up := drop n (pipe_up w)\<rparr>)),
      q_drop = (\<lambda>s w. w)\<rparr>"

definition fresh_pipe :: pipe where
  "fresh_pipe = \<lparr>pipe_client_open = True, pipe_server_open = True, pipe_up = [], pipe_down = []\<rparr>"

lemma demo_client_delivers [simp]:
  "delivers demo_client (\<lambda>w s. pipe_client_open w) (\<lambda>w s. pipe_server_open w) (\<lambda>w s. pipe_up w) (\<lambda>w s. pipe_down w)"
  by (simp add: delivers_def demo_client_def)

lemma demo_server_delivers [simp]:
  "delivers demo_server (\<lambda>w s. pipe_server_open w) (\<lambda>w s. pipe_client_open w) (\<lambda>w s. pipe_down w) (\<lambda>w s. pipe_up w)"
  by (simp add: delivers_def demo_server_def)

text \<open>A ticket signed by key 7 for the holder of key 9, and codecs that carry it.\<close>

definition demo_session_claims :: TicketClaims where
  "demo_session_claims = demo_claims
     \<lparr>tc_issuer := NodeId_from_verifying_key demo_crates 7, tc_subject := NodeId_from_verifying_key demo_crates 9\<rparr>"

lemma demo_session_claims_simps [simp]:
  "tc_issuer demo_session_claims = NodeId_from_verifying_key demo_crates 7"
  "tc_subject demo_session_claims = NodeId_from_verifying_key demo_crates 9"
  by (simp_all add: demo_session_claims_def)

definition demo_ticket :: SignedTicket where
  "demo_ticket = \<lparr>st_claims = demo_session_claims,
     st_signature = b64_encode_string demo_crates (sig_to_bytes demo_crates (sign demo_crates 7 (demo_json demo_session_claims)))\<rparr>"

definition demo_session :: "(u8, u8, u8) session_crates" where
  "demo_session = crates.extend demo_crates
     \<lparr>ticket_to_vec = (\<lambda>t. if t = demo_ticket then Inr [1, 2, 3] else Inl ''unsupported''),
      ticket_from_slice = (\<lambda>bs. if bs = [1, 2, 3] then Inr demo_ticket else Inl ''syntax''),
      response_to_vec = (\<lambda>r. if r = HandshakeResponse_Ok demo_session_claims then Inr [4, 5] else Inl ''unsupported''),
      response_from_slice = (\<lambda>bs. if bs = [4, 5] then Inr (HandshakeResponse_Ok demo_session_claims) else Inl ''syntax'')\<rparr>"

lemma demo_session_simps [simp]:
  "ticket_to_vec demo_session demo_ticket = Inr [1, 2, 3]"
  "ticket_from_slice demo_session [1, 2, 3] = Inr demo_ticket"
  "ticket_from_slice demo_session [] = Inl ''syntax''"
  "response_to_vec demo_session (HandshakeResponse_Ok demo_session_claims) = Inr [4, 5]"
  "response_from_slice demo_session [4, 5] = Inr (HandshakeResponse_Ok demo_session_claims)"
  "NodeId_from_verifying_key demo_session = NodeId_from_verifying_key demo_crates"
  by (simp_all add: demo_session_def crates.defs NodeId_from_verifying_key_def fun_eq_iff)

lemma demo_session_verify [simp]: "verify_ticket demo_session = verify_ticket demo_crates"
proof -
  have "claims_to_json demo_session = claims_to_json demo_crates" "b64_decode demo_session = b64_decode demo_crates"
    "sig_from_bytes demo_session = sig_from_bytes demo_crates" "verify demo_session = verify demo_crates"
    by (simp_all add: demo_session_def crates.defs)
  then show ?thesis
    by (intro ext) (simp only: verify_ticket_def canonical_ticket_payload_def decode_signature_def)
qed

lemma demo_ticket_signed: "sign_ticket demo_crates demo_session_claims 7 = Inr demo_ticket"
  by (simp add: sign_ticket_def canonical_ticket_payload_def demo_ticket_def) (simp add: demo_crates_def)

lemma demo_ticket_verifies [simp]: "verify_ticket demo_crates demo_ticket 7 15 = Inr demo_session_claims"
proof -
  have "verifying_key demo_crates 7 = 7" by (simp add: demo_crates_def)
  then show ?thesis
    using verify_sign_ticket [OF demo_ed25519 demo_base64 demo_ticket_signed, of 15]
    by (simp add: demo_session_claims_def demo_claims_def TICKET_VERSION_def)
qed

definition demo_wire :: pipe where
  "demo_wire = fresh_pipe\<lparr>pipe_up := length_prefix [1, 2, 3] @ [1, 2, 3]\<rparr>"

section \<open>Properties\<close>

text \<open>
  C1. The gate is sound. When the server's handshake succeeds, then whatever the peer and the
  network did: the frame it read decodes to a ticket, the ticket verifies under the issuer key
  (version, expiry, signature) at the given time, the trust check accepts the issuer the claims
  name, the claims' subject is the identity of the expected key, and the summary that is
  returned is the one of these claims. Whatever claims the holder of the issuer key signed, a
  client admitted with others has presented a forged signature.
\<close>

theorem server_handshake_sound:
  assumes "server_handshake cr alloc q s vk sub trusted now w = (Some (Inr sm), w')"
  shows "\<exists>body w1 t c. read_frame alloc q s w = (Some (Inr body), w1) \<and>
    ticket_from_slice cr body = Inr t \<and> verify_ticket cr t vk now = Inr c \<and>
    trusted (tc_issuer c) \<and> tc_subject c = NodeId_from_verifying_key cr sub \<and>
    sm = summary_of c \<and>
    (\<forall>signed_claims. json_injective cr \<longrightarrow> c \<in> signed_claims \<or>
       (\<exists>m sg. decode_signature cr (st_signature t) = Inr sg \<and> forgery cr vk (payloads cr signed_claims) m sg))"
proof -
  obtain body w1 c where r: "read_frame alloc q s w = (Some (Inr body), w1)"
      and a: "admission cr vk sub trusted now body = Inr c" and "sm = summary_of c"
    using server_handshake_Inr [OF assms] by blast
  moreover from a obtain t where t: "ticket_from_slice cr body = Inr t" "verify_ticket cr t vk now = Inr c"
      "trusted (tc_issuer c)" "tc_subject c = NodeId_from_verifying_key cr sub"
    by (auto simp: admission_Inr_iff)
  moreover have "c \<in> signed_claims \<or>
      (\<exists>m sg. decode_signature cr (st_signature t) = Inr sg \<and> forgery cr vk (payloads cr signed_claims) m sg)"
    if "json_injective cr" for signed_claims
    using t(2) accepted_claims_forged [OF that] unfolding verify_ticket_Ok_iff by blast
  ultimately show ?thesis by blast
qed

lemma demo_read_frame:
  "read_frame (\<lambda>_. True) demo_server 0 demo_wire = (Some (Inr [1, 2, 3]), demo_wire\<lparr>pipe_up := []\<rparr>)"
proof -
  have "unat (u64_from_be_bytes (length_prefix [1, 2, 3])) = length [1, 2, 3 :: u8]"
    by (rule length_prefix_decoded) (simp add: isize_max_def)
  then show ?thesis
    by (simp add: read_frame_def io_bind_def io_call_def Let_def vec_zeroed_def isize_max_def demo_server_def demo_wire_def)
qed

lemma demo_server_run:
  "server_handshake demo_session (\<lambda>_. True) demo_server 0 7 9 allow_all_trust 15 demo_wire =
     (Some (Inr (summary_of demo_session_claims)),
      demo_wire\<lparr>pipe_up := [], pipe_down := length_prefix [4, 5] @ [4, 5], pipe_server_open := False\<rparr>)"
proof -
  have "admission demo_session 7 9 allow_all_trust 15 [1, 2, 3] = Inr demo_session_claims"
    by (simp add: admission_def allow_all_trust_def)
  with demo_read_frame show ?thesis
    by (simp add: server_handshake_eq io_finally_def io_bind_def futures_block_on_send_def write_frame_def io_call_def
        demo_server_def demo_wire_def fresh_pipe_def)
qed

theorem server_handshake_sound_witness:
  "\<exists>body w1 t c. read_frame (\<lambda>_. True) demo_server 0 demo_wire = (Some (Inr body), w1) \<and>
    ticket_from_slice demo_session body = Inr t \<and> verify_ticket demo_session t 7 15 = Inr c \<and>
    tc_subject c = NodeId_from_verifying_key demo_session 9"
  using server_handshake_sound [OF demo_server_run] by blast

text \<open>
  C28. The gate answers only admitted clients. If the frame is read but one of the checks fails,
  the handshake returns the error of the first check that failed, and the state is the one
  after the reads with the stream dropped: not one byte of the typed error response has been
  written, although every failing branch constructs one.
\<close>

theorem server_handshake_silent_on_error:
  assumes "read_frame alloc q s w = (Some (Inr body), w1)"
    and "admission cr vk sub trusted now body = Inl e"
  shows "server_handshake cr alloc q s vk sub trusted now w = (Some (Inl e), q_drop q s w1)"
  using assms by (simp add: server_handshake_eq io_finally_def io_bind_def)

theorem server_handshake_silent_on_error_witness:
  "server_handshake demo_session (\<lambda>_. True) demo_server 0 7 9 deny_all_trust 15 demo_wire =
     (Some (Inl (SE_IssuerNotTrusted (NodeId_as_str (NodeId_from_verifying_key demo_crates 7)))), demo_wire\<lparr>pipe_up := []\<rparr>)"
proof -
  have a: "admission demo_session 7 9 deny_all_trust 15 [1, 2, 3] = Inl (SE_IssuerNotTrusted (NodeId_as_str (NodeId_from_verifying_key demo_crates 7)))"
    by (simp add: admission_def deny_all_trust_def)
  show ?thesis using server_handshake_silent_on_error [OF demo_read_frame a] by (simp add: demo_server_def)
qed

text \<open>
  C29. The length header is trusted before anything is authenticated: eight bytes that announce
  more than \<open>isize::MAX\<close> bytes panic the server's task, and likewise the client's when a server
  sends them; no ticket is needed.
\<close>

theorem huge_header_panics:
  assumes "q_read_exact q s 8 w = (Inr header, w1)" and "isize_max < unat (u64_from_be_bytes header)"
  shows "server_handshake cr alloc q s vk sub trusted now w = (None, q_drop q s w1) \<and>
    client_receive cr alloc q s w = (None, w1)"
proof -
  have "read_frame alloc q s w = (None, w1)"
    using assms by (simp add: read_frame_def io_bind_def io_call_def Let_def vec_zeroed_def)
  then show ?thesis by (simp add: server_handshake_eq client_receive_def io_finally_def io_bind_def)
qed

theorem huge_header_panics_witness:
  "fst (server_handshake demo_session (\<lambda>_. True) demo_server 0 7 9 allow_all_trust 15
     (fresh_pipe\<lparr>pipe_up := u64_to_be_bytes 9223372036854775808\<rparr>)) = None"
proof -
  let ?h = "u64_to_be_bytes 9223372036854775808"
  have r: "q_read_exact demo_server 0 8 (fresh_pipe\<lparr>pipe_up := ?h\<rparr>) = (Inr ?h, fresh_pipe\<lparr>pipe_up := []\<rparr>)"
    by (simp add: demo_server_def)
  have "isize_max < unat (u64_from_be_bytes ?h)" by (simp add: u64_be_roundtrip isize_max_def)
  from huge_header_panics [OF r this, of demo_session "\<lambda>_. True" 7 9 allow_all_trust 15] show ?thesis by simp
qed

text \<open>The three moves of a handshake on a healthy stream.\<close>

lemma client_send_delivers:
  assumes "delivers qc c_open s_open up down" "c_open w s" "up w s = []" "ticket_to_vec cr t = Inr bt"
  shows "\<exists>w1. client_send cr qc t s w = (Some (Inr ()), w1) \<and> up w1 s = length_prefix bt @ bt \<and>
    down w1 s = down w s \<and> s_open w1 s = s_open w s"
  using write_frame_delivers [OF assms(1,2), of bt] assms(3,4) by (auto simp: client_send_def io_bind_def)

lemma server_handshake_answers:
  assumes "delivers qs s_open c_open down up" "s_open w s" "down w s = []" "up w s = length_prefix bt @ bt"
    and fits: "length bt \<le> isize_max" "alloc (length bt)"
    and "admission cr vk sub trusted now bt = Inr c" "response_to_vec cr (HandshakeResponse_Ok c) = Inr br"
  shows "\<exists>w2. server_handshake cr alloc qs s vk sub trusted now w = (Some (Inr (summary_of c)), w2) \<and>
    down w2 s = length_prefix br @ br"
proof -
  obtain wr where wr: "read_frame alloc qs s w = (Some (Inr bt), wr)" "down wr s = []" "s_open wr s"
    using read_frame_delivers [of qs s_open c_open down up w s bt alloc, OF assms(1,4) fits] assms(2,3) by auto
  obtain ww where ww: "write_frame qs s br wr = (Some (Inr ()), ww)" "down ww s = length_prefix br @ br"
    using write_frame_delivers [OF assms(1) wr(3), of br] wr(2) by auto
  have "down (q_drop qs s ww) s = length_prefix br @ br" using delivers_drop [OF assms(1)] ww(2) by simp
  then show ?thesis
    using wr(1) ww(1) assms(7,8) by (simp add: server_handshake_eq io_finally_def io_bind_def futures_block_on_send_def)
qed

lemma client_receive_delivers:
  assumes "delivers qc c_open s_open up down" "down w s = length_prefix br @ br"
    and fits: "length br \<le> isize_max" "alloc (length br)"
    and "response_from_slice cr br = Inr (HandshakeResponse_Ok c)"
  shows "\<exists>w3. client_receive cr alloc qc s w = (Some (Inr (summary_of c)), w3)"
  using read_frame_delivers [of qc c_open s_open up down w s br alloc, OF assms(1,2) fits] assms(5)
  by (auto simp: client_receive_def io_bind_def)

text \<open>
  A handshake between the two sides completes. Over a healthy stream, with JSON codecs that
  read back what they wrote and frames that can be allocated, a client that presents a ticket
  admitted by the server's checks gets a summary, the server gets the same one, and it is the
  summary of the claims in the ticket. The client writes, the server runs, the client reads.
\<close>

lemma handshake_completes:
  assumes up: "delivers qc c_open s_open up down" and down: "delivers qs s_open c_open down up"
    and fresh: "c_open w0 s" "s_open w0 s" "up w0 s = []" "down w0 s = []"
    and ticket: "ticket_to_vec cr t = Inr bt" "ticket_from_slice cr bt = Inr t"
    and fits: "length bt \<le> isize_max" "alloc (length bt)" "length br \<le> isize_max" "alloc (length br)"
    and valid: "verify_ticket cr t vk now = Inr c" "trusted (tc_issuer c)" "tc_subject c = NodeId_from_verifying_key cr sub"
    and response: "response_to_vec cr (HandshakeResponse_Ok c) = Inr br"
      "response_from_slice cr br = Inr (HandshakeResponse_Ok c)"
  shows "\<exists>w1 w2 w3. client_send cr qc t s w0 = (Some (Inr ()), w1) \<and>
    server_handshake cr alloc qs s vk sub trusted now w1 = (Some (Inr (summary_of c)), w2) \<and>
    client_receive cr alloc qc s w2 = (Some (Inr (summary_of c)), w3)"
proof -
  obtain w1 where w1: "client_send cr qc t s w0 = (Some (Inr ()), w1)" "up w1 s = length_prefix bt @ bt"
      "down w1 s = []" "s_open w1 s"
    using client_send_delivers [OF up fresh(1,3) ticket(1)] fresh(2,4) by auto
  have "admission cr vk sub trusted now bt = Inr c" using ticket valid by (simp add: admission_def)
  from server_handshake_answers [where alloc = alloc, OF down w1(4,3,2) fits(1,2) this response(1)] obtain w2 where
    w2: "server_handshake cr alloc qs s vk sub trusted now w1 = (Some (Inr (summary_of c)), w2)"
      "down w2 s = length_prefix br @ br" by blast
  from client_receive_delivers [where alloc = alloc, OF up w2(2) fits(3,4) response(2)] w1(1) w2(1) show ?thesis by blast
qed

text \<open>An observation that the calls on the stream keep is kept by the moves.\<close>

lemma write_frame_keeps:
  "(\<And>bs w. f (snd (q_write_all q s bs w)) = f w) \<Longrightarrow> (\<And>w. f (snd (q_finish q s w)) = f w) \<Longrightarrow>
     io_keeps f (write_frame q s payload)"
  unfolding write_frame_def by (intro io_keeps_intros)

lemma read_frame_keeps: "(\<And>n w. f (snd (q_read_exact q s n w)) = f w) \<Longrightarrow> io_keeps f (read_frame alloc q s)"
  unfolding read_frame_def vec_zeroed_def Let_def by (intro io_keeps_intros) (simp_all add: io_keeps_intros)

lemma client_send_keeps:
  "(\<And>bs w. f (snd (q_write_all q s bs w)) = f w) \<Longrightarrow> (\<And>w. f (snd (q_finish q s w)) = f w) \<Longrightarrow>
     io_keeps f (client_send cr q t s)"
  unfolding client_send_def by (intro io_keeps_intros write_frame_keeps)

lemma client_receive_keeps:
  "(\<And>n w. f (snd (q_read_exact q s n w)) = f w) \<Longrightarrow> io_keeps f (client_receive cr alloc q s)"
  unfolding client_receive_def
  by (intro io_keeps_intros read_frame_keeps) (auto simp: io_keeps_intros split: HandshakeResponse.split)

lemma client_handshake_keeps:
  "(\<And>w. f (snd (q_open_bi q w)) = f w) \<Longrightarrow> (\<And>s bs w. f (snd (q_write_all q s bs w)) = f w) \<Longrightarrow>
     (\<And>s w. f (snd (q_finish q s w)) = f w) \<Longrightarrow> (\<And>s n w. f (snd (q_read_exact q s n w)) = f w) \<Longrightarrow>
     (\<And>s w. f (q_drop q s w) = f w) \<Longrightarrow> io_keeps f (client_handshake cr alloc q t)"
  unfolding client_handshake_def by (intro io_keeps_intros client_send_keeps client_receive_keeps)

text \<open>A client whose ticket is refused gets no answer on the stream.\<close>

lemma handshake_refused:
  assumes up: "delivers qc c_open s_open up down" and down: "delivers qs s_open c_open down up"
    and fresh: "c_open w0 s" "s_open w0 s" "up w0 s = []" "down w0 s = []"
    and ticket: "ticket_to_vec cr t = Inr bt" and fits: "length bt \<le> isize_max" "alloc (length bt)"
    and refused: "admission cr vk sub trusted now bt = Inl e"
  shows "\<exists>w1 w2. client_send cr qc t s w0 = (Some (Inr ()), w1) \<and>
    server_handshake cr alloc qs s vk sub trusted now w1 = (Some (Inl e), w2) \<and> down w2 s = []"
proof -
  obtain w1 where w1: "client_send cr qc t s w0 = (Some (Inr ()), w1)" "up w1 s = length_prefix bt @ bt" "down w1 s = []"
    using client_send_delivers [OF up fresh(1,3) ticket] fresh(4) by auto
  obtain wr where wr: "read_frame alloc qs s w1 = (Some (Inr bt), wr)" "down wr s = []"
    using read_frame_delivers [of qs s_open c_open down up w1 s bt alloc, OF down w1(2) fits] w1(3) by auto
  have "server_handshake cr alloc qs s vk sub trusted now w1 = (Some (Inl e), q_drop qs s wr)"
    using wr(1) refused by (simp add: server_handshake_eq io_finally_def io_bind_def)
  moreover have "down (q_drop qs s wr) s = []" using delivers_drop [OF down] wr(2) by simp
  ultimately show ?thesis using w1(1) by blast
qed

lemma admission_again:
  assumes "admission cr vk sub trusted now body = Inr c" and "now' \<le> tc_expires_at c"
  shows "admission cr vk sub trusted now' body = Inr c"
  using assms by (auto simp: admission_Inr_iff verify_ticket_Ok_iff)

text \<open>
  C26. The handshake gives no protection against replay. A frame that was admitted once is admitted again, on any other
  stream, from any peer that can send it and at any time up to the expiry of the ticket, with the same
  summary: the server consults no record of the nonces it has seen.
\<close>

theorem handshake_ignores_replay:
  assumes first: "server_handshake cr alloc q s vk sub trusted now w = (Some (Inr sm), w')"
      "read_frame alloc q s w = (Some (Inr body), w1)"
    and again: "delivers q' opn peer_open out inn" "opn v s'" "inn v s' = length_prefix body @ body"
      "length body \<le> isize_max" "alloc (length body)" "now' \<le> hs_expires_at sm"
  shows "\<exists>v'. server_handshake cr alloc q' s' vk sub trusted now' v = (Some (Inr sm), v')"
proof -
  obtain c where c: "admission cr vk sub trusted now body = Inr c" "sm = summary_of c"
    using server_handshake_Inr [OF first(1)] first(2) by auto
  obtain br where br: "response_to_vec cr (HandshakeResponse_Ok c) = Inr br"
    using first c by (auto simp: server_handshake_eq io_finally_eq io_bind_eq_Inr futures_block_on_send_def)
  obtain v1 where v1: "read_frame alloc q' s' v = (Some (Inr body), v1)" "opn v1 s'"
    using read_frame_delivers [where alloc = alloc, OF again(1,3,4,5)] again(2) by auto
  obtain v2 where "write_frame q' s' br v1 = (Some (Inr ()), v2)"
    using write_frame_delivers [OF again(1) v1(2)] by blast
  moreover have "admission cr vk sub trusted now' body = Inr c"
    using admission_again [OF c(1)] again(6) c(2) by (simp add: summary_of_def)
  ultimately have "server_handshake cr alloc q' s' vk sub trusted now' v = (Some (Inr sm), q_drop q' s' v2)"
    using v1(1) br c(2) by (simp add: server_handshake_eq io_finally_def io_bind_def futures_block_on_send_def)
  then show ?thesis by blast
qed

theorem handshake_ignores_replay_witness:
  "\<exists>v'. server_handshake demo_session (\<lambda>_. True) demo_server 0 7 9 allow_all_trust 20 demo_wire =
     (Some (Inr (summary_of demo_session_claims)), v')"
proof -
  have e: "hs_expires_at (summary_of demo_session_claims) = 20"
    by (simp add: summary_of_def demo_session_claims_def demo_claims_def)
  show ?thesis
    by (rule handshake_ignores_replay [OF demo_server_run demo_read_frame demo_server_delivers])
      (simp_all add: demo_wire_def fresh_pipe_def isize_max_def e)
qed

text \<open>
  The typed error channel loses nothing but the text of a serialisation error: the client
  that receives the kind the server derives from a ticket error reports that very ticket error.
  And labels identify kinds, up to the version number of an unsupported version.
\<close>

lemma error_kind_roundtrip:
  "into_session_error (HandshakeErrorKind_from e) =
     SE_Ticket (case e of Serialization _ \<Rightarrow> Serialization ''server'' | _ \<Rightarrow> e) \<and>
   (HandshakeErrorKind_as_label k = HandshakeErrorKind_as_label k' \<longleftrightarrow>
      k = k' \<or> (\<exists>v v'. k = HEK_UnsupportedVersion v \<and> k' = HEK_UnsupportedVersion v'))"
proof
  show "into_session_error (HandshakeErrorKind_from e) =
      SE_Ticket (case e of Serialization _ \<Rightarrow> Serialization ''server'' | _ \<Rightarrow> e)"
    by (cases e) simp_all
  show "HandshakeErrorKind_as_label k = HandshakeErrorKind_as_label k' \<longleftrightarrow>
      k = k' \<or> (\<exists>v v'. k = HEK_UnsupportedVersion v \<and> k' = HEK_UnsupportedVersion v')"
    by (cases k; cases k'; simp)
qed

end
