(* ===== verification/Trust.thy ===== *)
theory Trust
  imports Session Rust_Map "HOL-Library.Char_ord" "HOL-Library.List_Lexorder"
begin

text \<open>
  \<^verbatim>\<open>src/trust.rs\<close>: the registry of trusted issuers and its file, one line
  \<^verbatim>\<open>node_id = "name:rate"\<close> per issuer. The line format interprets \<open>line_codec\<close>, which gives
  the round trip of \<^verbatim>\<open>save\<close> and \<^verbatim>\<open>load_from_path\<close>.
\<close>

section \<open>Data\<close>

text \<open>The message of a malformed line is represented by its cause.\<close>

datatype trust_fault =
    ExpectedEntry
  | ExpectedQuoted
  | ExpectedNameRate
  | InvalidRate int_error
  | InvalidNodeId TicketError

datatype TrustStoreError =
    TrustIo path io_error
  | Malformed (line_no: nat) (message: trust_fault)

definition Trust_DEFAULT_RATE_PER_MIN :: u32 where
  "Trust_DEFAULT_RATE_PER_MIN = 100"

record TrustEntry =
  te_display_name :: string
  te_added_at_unix :: int
  te_rate_limit_per_min :: u32

definition TrustEntry_new :: "string \<Rightarrow> int \<Rightarrow> u32 \<Rightarrow> TrustEntry" where
  "TrustEntry_new display_name added_at_unix rate_limit_per_min =
     \<lparr>te_display_name = display_name, te_added_at_unix = added_at_unix,
      te_rate_limit_per_min = rate_limit_per_min\<rparr>"

record TrustStore =
  ts_inner :: "(NodeId, TrustEntry) hashmap"
  ts_path :: "path option"

definition TrustStore_new :: TrustStore where
  "TrustStore_new = \<lparr>ts_inner = hm_new, ts_path = None\<rparr>"

section \<open>Reading the file\<close>

text \<open>The body of the parsing loop, on one numbered line.\<close>

definition parse_line ::
  "('sk, 'vk, 'sg, 'z) crates_scheme \<Rightarrow> nat \<times> string \<Rightarrow> (NodeId, TrustEntry) hashmap \<Rightarrow>
     TrustStoreError + (NodeId, TrustEntry) hashmap" where
  "parse_line cr = (\<lambda>(line_no, line) out.
     let trimmed = trim line in
     if trimmed = [] \<or> hd trimmed = CHR ''#'' then Inr out
     else case split_once (CHR ''='') trimmed of
       None \<Rightarrow> Inl (Malformed line_no ExpectedEntry)
     | Some (lhs, rhs) \<Rightarrow>
         let node_id_str = trim lhs; rhs_trim = trim rhs in
         (case Option.bind (strip_prefix DQUOTE rhs_trim) (strip_suffix DQUOTE) of
            None \<Rightarrow> Inl (Malformed line_no ExpectedQuoted)
          | Some payload \<Rightarrow>
         (case split_once COLON payload of
            None \<Rightarrow> Inl (Malformed line_no ExpectedNameRate)
          | Some (name, rate) \<Rightarrow>
         (case parse_u32 (trim rate) of
            Inl err \<Rightarrow> Inl (Malformed line_no (InvalidRate err))
          | Inr rate' \<Rightarrow>
         (case NodeId_parse cr node_id_str of
            Inl err \<Rightarrow> Inl (Malformed line_no (InvalidNodeId err))
          | Inr node_id \<Rightarrow> Inr (hm_insert node_id (TrustEntry_new (trim name) 0 rate') out))))))"

definition TrustStore_parse ::
  "('sk, 'vk, 'sg, 'z) crates_scheme \<Rightarrow> string \<Rightarrow> TrustStoreError + (NodeId, TrustEntry) hashmap" where
  "TrustStore_parse cr raw = try_for (parse_line cr) (numbered_lines raw) hm_new"

definition TrustStore_load_from_path ::
  "('sk, 'vk, 'sg, 'z) crates_scheme \<Rightarrow> file_system \<Rightarrow> path \<Rightarrow> TrustStoreError + TrustStore" where
  "TrustStore_load_from_path cr fs p =
     (case fs_read_to_string fs p of
        Inr raw \<Rightarrow>
          (case TrustStore_parse cr raw of
             Inl e \<Rightarrow> Inl e
           | Inr store \<Rightarrow> Inr \<lparr>ts_inner = store, ts_path = Some p\<rparr>)
      | Inl NotFound \<Rightarrow> Inr \<lparr>ts_inner = hm_new, ts_path = Some p\<rparr>
      | Inl err \<Rightarrow> Inl (TrustIo p err))"

text \<open>\<open>config_dir\<close> is the result of \<^verbatim>\<open>dirs::config_dir()\<close>.\<close>

definition TrustStore_default_path :: "path option \<Rightarrow> path option" where
  "TrustStore_default_path config_dir =
     map_option (\<lambda>base. base @ [''snappipe''] @ [''trust.toml'']) config_dir"

definition TrustStore_load_or_default ::
  "('sk, 'vk, 'sg, 'z) crates_scheme \<Rightarrow> path option \<Rightarrow> file_system \<Rightarrow> TrustStoreError + TrustStore" where
  "TrustStore_load_or_default cr config_dir fs =
     (case TrustStore_default_path config_dir of
        Some p \<Rightarrow> TrustStore_load_from_path cr fs p
      | None \<Rightarrow> Inr TrustStore_new)"

section \<open>Operations\<close>

text \<open>\<open>it\<close> is the iteration order of the map, which \<^verbatim>\<open>list\<close> returns as it is.\<close>

definition TrustStore_list ::
  "((NodeId, TrustEntry) hashmap \<Rightarrow> (NodeId \<times> TrustEntry) list) \<Rightarrow> TrustStore \<Rightarrow> (NodeId \<times> TrustEntry) list" where
  "TrustStore_list it s = it (ts_inner s)"

definition TrustStore_add_at :: "TrustStore \<Rightarrow> NodeId \<Rightarrow> TrustEntry \<Rightarrow> TrustStore" where
  "TrustStore_add_at s node_id entry = s\<lparr>ts_inner := hm_insert node_id entry (ts_inner s)\<rparr>"

text \<open>\<open>None\<close> is the panic of \<^verbatim>\<open>now_unix_seconds\<close>.\<close>

definition TrustStore_add :: "TrustStore \<Rightarrow> NodeId \<Rightarrow> string \<Rightarrow> u32 \<Rightarrow> system_time \<Rightarrow> TrustStore option" where
  "TrustStore_add s node_id display_name rate clock =
     (case now_unix_seconds clock of
        None \<Rightarrow> None
      | Some now \<Rightarrow>
          Some (s\<lparr>ts_inner := hm_insert node_id (TrustEntry_new display_name now rate) (ts_inner s)\<rparr>))"

definition TrustStore_remove :: "TrustStore \<Rightarrow> NodeId \<Rightarrow> bool \<times> TrustStore" where
  "TrustStore_remove s node_id =
     (hm_get (ts_inner s) node_id \<noteq> None, s\<lparr>ts_inner := hm_remove node_id (ts_inner s)\<rparr>)"

definition TrustStore_is_trusted :: "TrustStore \<Rightarrow> NodeId \<Rightarrow> bool" where
  "TrustStore_is_trusted s node_id = hm_contains_key (ts_inner s) node_id"

text \<open>The store as a \<^verbatim>\<open>TrustCheck\<close> of the handshake.\<close>

definition TrustStore_trust_check :: "TrustStore \<Rightarrow> TrustCheck" where
  "TrustStore_trust_check s = TrustStore_is_trusted s"

definition TrustStore_get :: "TrustStore \<Rightarrow> NodeId \<Rightarrow> TrustEntry option" where
  "TrustStore_get s node_id = hm_get (ts_inner s) node_id"

definition TrustStore_len :: "TrustStore \<Rightarrow> nat" where
  "TrustStore_len s = hm_len (ts_inner s)"

definition TrustStore_is_empty :: "TrustStore \<Rightarrow> bool" where
  "TrustStore_is_empty s \<longleftrightarrow> TrustStore_len s = 0"

definition trust_line :: "NodeId \<times> TrustEntry \<Rightarrow> string" where
  "trust_line = (\<lambda>(node, entry).
     NodeId_as_str node @ '' = '' @ [DQUOTE] @ te_display_name entry @ [COLON] @
     show_nat (unat (te_rate_limit_per_min entry)) @ [DQUOTE])"

definition trust_header :: "string list" where
  "trust_header =
     [''# SnapPipe trust store: one issuer per line as `node_id = '' @ [DQUOTE] @ ''name:rate'' @ [DQUOTE] @ ''`.'',
      ''# Lines beginning with `#` and blank lines are ignored.'']"

definition TrustStore_save ::
  "((NodeId, TrustEntry) hashmap \<Rightarrow> (NodeId \<times> TrustEntry) list) \<Rightarrow> TrustStore \<Rightarrow> file_system \<Rightarrow>
     (TrustStoreError + unit) \<times> file_system" where
  "TrustStore_save it s fs =
     (case ts_path s of
        None \<Rightarrow> (Inr (), fs)
      | Some p \<Rightarrow>
     (case (case path_parent p of None \<Rightarrow> Inr ()
            | Some parent \<Rightarrow> map_err (TrustIo parent) (fs_create_dir_all fs parent)) of
        Inl e \<Rightarrow> (Inl e, fs)
      | Inr _ \<Rightarrow>
          let sorted = sort_key (\<lambda>(node, _). NodeId_as_str node) (TrustStore_list it s);
              body = concat (map (\<lambda>l. l @ [LF]) trust_header) @
                     concat (map (\<lambda>e. trust_line e @ [LF]) sorted)
          in case fs_write fs p body of
               (Inl err, fs') \<Rightarrow> (Inl (TrustIo p err), fs')
             | (Inr u, fs') \<Rightarrow> (Inr u, fs')))"

section \<open>The line format\<close>

text \<open>
  An entry whose line is read back as it is: an identity of printable characters without
  \<open>=\<close> that decodes as base64, not starting with \<open>#\<close>, and a name without line feed, without
  colon and without white space at its ends.
\<close>

definition good_node :: "('sk, 'vk, 'sg, 'z) crates_scheme \<Rightarrow> NodeId \<Rightarrow> bool" where
  "good_node cr node \<longleftrightarrow> (let n = NodeId_as_str node in
     n \<noteq> [] \<and> list_all solid n \<and> CHR ''='' \<notin> set n \<and> hd n \<noteq> CHR ''#'' \<and> b64_decode cr n 32 \<noteq> None)"

definition good_name :: "string \<Rightarrow> bool" where
  "good_name name \<longleftrightarrow> COLON \<notin> set name \<and> LF \<notin> set name \<and> trim name = name"

definition good_trust_entry :: "('sk, 'vk, 'sg, 'z) crates_scheme \<Rightarrow> NodeId \<times> TrustEntry \<Rightarrow> bool" where
  "good_trust_entry cr = (\<lambda>(node, e). good_node cr node \<and> good_name (te_display_name e))"

text \<open>The lines of the file: the comments of the header and the entries.\<close>

fun trust_render :: "string + NodeId \<times> TrustEntry \<Rightarrow> string" where
  "trust_render (Inl comment) = comment"
| "trust_render (Inr e) = trust_line e"

fun trust_step :: "string + NodeId \<times> TrustEntry \<Rightarrow> (NodeId, TrustEntry) hashmap \<Rightarrow> (NodeId, TrustEntry) hashmap" where
  "trust_step (Inl _) out = out"
| "trust_step (Inr (node, e)) out = hm_insert node (e\<lparr>te_added_at_unix := 0\<rparr>) out"

fun trust_good :: "('sk, 'vk, 'sg, 'z) crates_scheme \<Rightarrow> string + NodeId \<times> TrustEntry \<Rightarrow> bool" where
  "trust_good cr (Inl comment) \<longleftrightarrow> line_ok comment \<and> trim comment = comment \<and> hd comment = CHR ''#''"
| "trust_good cr (Inr e) \<longleftrightarrow> good_trust_entry cr e"

lemma not_solid [simp]: "\<not> solid LF" "\<not> solid CR" "solid DQUOTE" "solid COLON"
  by (simp_all add: solid_def)

lemma trust_line_ok:
  assumes "list_all solid (NodeId_as_str node)" and "LF \<notin> set (te_display_name e)"
  shows "line_ok (trust_line (node, e))"
proof -
  have "LF \<notin> set (NodeId_as_str node)" using assms(1) by (auto simp: list_all_iff)
  moreover have "LF \<notin> set (show_nat k)" for k by (auto simp: is_digit_char_def dest!: show_nat_chars)
  ultimately show ?thesis using assms(2) by (simp add: line_ok_def trust_line_def)
qed

lemma trust_line_split:
  assumes "good_node cr node"
  shows "trim (trust_line (node, e)) = trust_line (node, e)" and "trust_line (node, e) \<noteq> []"
    and "hd (trust_line (node, e)) \<noteq> CHR ''#''"
    and "\<exists>lhs rhs. split_once (CHR ''='') (trust_line (node, e)) = Some (lhs, rhs) \<and>
      trim lhs = NodeId_as_str node \<and>
      trim rhs = DQUOTE # te_display_name e @ COLON # show_nat (unat (te_rate_limit_per_min e)) @ [DQUOTE]"
proof -
  let ?n = "NodeId_as_str node"
  let ?v = "DQUOTE # te_display_name e @ COLON # show_nat (unat (te_rate_limit_per_min e)) @ [DQUOTE]"
  have n: "?n \<noteq> []" "list_all solid ?n" "CHR ''='' \<notin> set ?n" "hd ?n \<noteq> CHR ''#''"
    using assms by (simp_all add: good_node_def Let_def)
  then have hl: "solid (hd ?n)" "solid (last ?n)" by (simp_all add: list_all_iff)
  have line: "trust_line (node, e) = ?n @ SPACE # CHR ''='' # SPACE # ?v" by (simp add: trust_line_def)
  show "trim (trust_line (node, e)) = trust_line (node, e)" unfolding line
    using n hl by (intro trim_solid) simp_all
  show "trust_line (node, e) \<noteq> []" and "hd (trust_line (node, e)) \<noteq> CHR ''#''" unfolding line
    using n by simp_all
  have "split_once (CHR ''='') ((?n @ [SPACE]) @ CHR ''='' # SPACE # ?v) = Some (?n @ [SPACE], SPACE # ?v)"
    using n by (intro split_once_append) simp
  moreover have "trim (?n @ [SPACE]) = ?n" using n hl by (intro trim_solid_space)
  moreover have "trim (SPACE # ?v) = ?v" unfolding trim_space_front by (intro trim_solid) simp_all
  ultimately show "\<exists>lhs rhs. split_once (CHR ''='') (trust_line (node, e)) = Some (lhs, rhs) \<and>
      trim lhs = ?n \<and> trim rhs = ?v"
    unfolding line by (intro exI [of _ "?n @ [SPACE]"] exI [of _ "SPACE # ?v"]) simp
qed

lemma unquote: "Option.bind (strip_prefix DQUOTE (DQUOTE # s @ [DQUOTE])) (strip_suffix DQUOTE) = Some s"
  by simp

text \<open>Reading a line that \<^verbatim>\<open>save\<close> wrote, up to the split of its value.\<close>

lemma parse_line_value:
  assumes "good_node cr node"
  shows "parse_line cr (i, trust_line (node, e)) out =
    (case split_once COLON (te_display_name e @ COLON # show_nat (unat (te_rate_limit_per_min e))) of
       None \<Rightarrow> Inl (Malformed i ExpectedNameRate)
     | Some (name, rate) \<Rightarrow>
    (case parse_u32 (trim rate) of
       Inl err \<Rightarrow> Inl (Malformed i (InvalidRate err))
     | Inr r \<Rightarrow> Inr (hm_insert node (TrustEntry_new (trim name) 0 r) out)))"
proof -
  let ?v = "te_display_name e @ COLON # show_nat (unat (te_rate_limit_per_min e))"
  obtain lhs rhs where s: "split_once (CHR ''='') (trust_line (node, e)) = Some (lhs, rhs)"
      "trim lhs = NodeId_as_str node" "trim rhs = DQUOTE # ?v @ [DQUOTE]"
    using trust_line_split(4) [OF assms, of e] by auto
  have "NodeId_parse cr (NodeId_as_str node) = Inr node"
    using assms by (auto simp: NodeId_parse_def good_node_def Let_def split: option.split)
  then show ?thesis
    using trust_line_split(1-3) [OF assms, of e] s(1,2)
    by (simp add: parse_line_def Let_def s(3) unquote del: append_Cons append_assoc split: option.split sum.split)
qed

lemma parse_line_good:
  assumes "good_trust_entry cr (node, e)"
  shows "parse_line cr (i, trust_line (node, e)) out = Inr (hm_insert node (e\<lparr>te_added_at_unix := 0\<rparr>) out)"
proof -
  let ?r = "show_nat (unat (te_rate_limit_per_min e))"
  have g: "good_node cr node" "COLON \<notin> set (te_display_name e)" "trim (te_display_name e) = te_display_name e"
    using assms by (simp_all add: good_trust_entry_def good_name_def)
  have "trim ?r = ?r"
    using show_nat_chars digit_solid hd_in_set last_in_set show_nat_ne by (intro trim_solid) blast+
  with g show ?thesis
    by (cases e) (simp add: parse_line_value split_once_append parse_u32_show_nat TrustEntry_new_def)
qed

lemma parse_line_comment: "trust_good cr (Inl c) \<Longrightarrow> parse_line cr (i, c) out = Inr out"
  by (simp add: parse_line_def Let_def)

interpretation trust_file: line_codec trust_render "parse_line cr" trust_step "trust_good cr" for cr
proof (unfold_locales, goal_cases)
  case (1 e)
  then show ?case
    by (cases e) (auto simp: good_trust_entry_def good_node_def good_name_def Let_def intro: trust_line_ok)
next
  case (2 e i out)
  then show ?case
    by (cases e) (auto simp: parse_line_comment parse_line_good simp del: trust_good.simps(1))
qed

lemma header_good: "list_all (trust_good cr) (map Inl trust_header)"
  by (simp add: trust_header_def line_ok_def rust_str solid_def)

section \<open>Saving and loading\<close>

lemma trust_body:
  "concat (map (\<lambda>l. l @ [LF]) trust_header) @ concat (map (\<lambda>e. trust_line e @ [LF]) es) =
     concat (map (\<lambda>x. trust_render x @ [LF]) (map Inl trust_header @ map Inr es))"
  by (simp add: comp_def)

lemma fold_trust_step:
  "fold trust_step (map Inl cs @ map Inr es) out =
     fold (\<lambda>(k, v). hm_insert k v) (map (\<lambda>(k, e). (k, e\<lparr>te_added_at_unix := 0\<rparr>)) es) out"
proof -
  have "fold trust_step (map Inl cs) out = out" by (induction cs) simp_all
  moreover have "fold trust_step (map Inr es) out =
      fold (\<lambda>(k, v). hm_insert k v) (map (\<lambda>(k, e). (k, e\<lparr>te_added_at_unix := 0\<rparr>)) es) out"
    by (induction es arbitrary: out) auto
  ultimately show ?thesis by simp
qed

lemma save_writes:
  assumes "TrustStore_save it s fs = (Inr (), fs')" and "ts_path s = Some p" and "fs_read_fault fs p = None"
  shows "fs_read_to_string fs' p = Inr (concat (map (\<lambda>x. trust_render x @ [LF])
    (map Inl trust_header @ map Inr (sort_key (\<lambda>(node, _). NodeId_as_str node) (it (ts_inner s))))))"
  using assms(1,2) unfolding trust_body [symmetric]
  by (auto simp: TrustStore_save_def TrustStore_list_def Let_def
      intro: fs_read_after_write [OF _ assms(3)] split: option.splits sum.splits prod.splits)

definition trust_ok :: "TrustStore \<Rightarrow> bool" where
  "trust_ok s \<longleftrightarrow> hm_wf (ts_inner s)"

lemma sorted_entries:
  assumes "hm_wf m" and "iteration_order it"
  shows "set (sort_key f (it m)) = set m" and "distinct (map fst (sort_key f (it m)))"
proof -
  show "set (sort_key f (it m)) = set m" using iteration_set [OF assms(2)] by simp
  have "mset (sort_key f (it m)) = mset m" using assms(2) by (simp add: iteration_order_def)
  then have "mset (map fst (sort_key f (it m))) = mset (map fst m)" by simp
  then show "distinct (map fst (sort_key f (it m)))"
    using assms(1) mset_eq_imp_distinct_iff by (fastforce simp: hm_wf_def)
qed

lemma map_of_map_values: "map_of (map (\<lambda>(k, e). (k, f e)) es) k = map_option f (map_of es k)"
  by (induction es) auto

lemma load_saved:
  assumes "trust_ok s" and "iteration_order it"
    and "\<forall>node e. TrustStore_get s node = Some e \<longrightarrow> good_trust_entry cr (node, e)"
    and "TrustStore_save it s fs = (Inr (), fs')" and "ts_path s = Some p" and "fs_read_fault fs p = None"
  shows "TrustStore_load_from_path cr fs' p = Inr
    \<lparr>ts_inner = hm_collect (map (\<lambda>(k, e). (k, e\<lparr>te_added_at_unix := 0\<rparr>))
       (sort_key (\<lambda>(node, _). NodeId_as_str node) (it (ts_inner s)))), ts_path = Some p\<rparr>"
proof -
  let ?es = "sort_key (\<lambda>(node, _). NodeId_as_str node) (it (ts_inner s))"
  have wf: "hm_wf (ts_inner s)" using assms(1) by (simp add: trust_ok_def)
  have "list_all (trust_good cr) (map Inl trust_header @ map Inr ?es)"
    using header_good [of cr] assms(3) sorted_entries(1) [OF wf assms(2)] hm_get_in_iff [OF wf]
    by (auto simp: list_all_iff TrustStore_get_def)
  from trust_file.read_rendered [OF this, of hm_new] save_writes [OF assms(4-6)]
  show ?thesis
    by (simp add: TrustStore_load_from_path_def TrustStore_parse_def fold_trust_step hm_collect_def
        del: fold_append map_append concat_append)
qed

text \<open>
  C17. Saving and loading. Whatever order the map is iterated in, a store whose entries have clean
  names is read back from the file it was saved to with the same issuers, names and rates, so
  it trusts exactly the same issuers; only the time at which an issuer was added is lost (it
  becomes zero, since the file has no place for it).
\<close>

theorem trust_save_load:
  assumes "trust_ok s" and "iteration_order it"
    and "\<forall>node e. TrustStore_get s node = Some e \<longrightarrow> good_trust_entry cr (node, e)"
    and "TrustStore_save it s fs = (Inr (), fs')" and "ts_path s = Some p" and "fs_read_fault fs p = None"
  shows "\<exists>s'. TrustStore_load_from_path cr fs' p = Inr s' \<and> ts_path s' = Some p \<and>
    (\<forall>node. TrustStore_get s' node = map_option (te_added_at_unix_update (\<lambda>_. 0)) (TrustStore_get s node)) \<and>
    TrustStore_is_trusted s' = TrustStore_is_trusted s"
proof -
  let ?es = "sort_key (\<lambda>(node, _). NodeId_as_str node) (it (ts_inner s))"
  let ?zs = "map (\<lambda>(k, e). (k, e\<lparr>te_added_at_unix := 0\<rparr>)) ?es"
  have wf: "hm_wf (ts_inner s)" using assms(1) by (simp add: trust_ok_def)
  note es = sorted_entries [OF wf assms(2), of "\<lambda>(node, _). NodeId_as_str node"]
  note load = load_saved [OF assms]
  have "map_of ?es = map_of (ts_inner s)"
    using wf es by (intro map_of_inject_set [THEN iffD2]) (simp_all add: hm_wf_def)
  then have "map_of ?es = hm_get (ts_inner s)" by (simp add: fun_eq_iff hm_get_def)
  moreover have "map_of (rev ?zs) = map_of ?zs"
    using es(2) by (intro map_of_rev_distinct) (simp add: comp_def case_prod_beta)
  ultimately have get: "hm_get (hm_collect ?zs) node =
      map_option (te_added_at_unix_update (\<lambda>_. 0)) (hm_get (ts_inner s) node)" for node
    by (simp add: hm_get_collect map_of_map_values)
  then show ?thesis
    using load by (simp add: TrustStore_get_def TrustStore_is_trusted_def hm_contains_key_def fun_eq_iff)
qed

lemma try_for_stuck:
  "x \<in> set xs \<Longrightarrow> (\<And>s. \<exists>e. body x s = Inl e) \<Longrightarrow> \<exists>e. try_for body xs s = Inl e"
proof (induction xs arbitrary: s)
  case (Cons a xs)
  show ?case
  proof (cases "body a s")
    case (Inr s')
    then have "x \<noteq> a" using Cons.prems(2) [of s] by auto
    with Cons.prems(1) have "x \<in> set xs" by simp
    with Cons.IH [of s'] Cons.prems(2) Inr show ?thesis by simp
  qed simp
qed simp

lemma strip_one_keeps:
  "strip_one ws s = Some s' \<Longrightarrow> c \<in> set s \<Longrightarrow> list_all (\<lambda>w. c \<notin> set w) ws \<Longrightarrow> c \<in> set s'"
proof (induction ws)
  case (Cons w ws)
  show ?case
  proof (cases "w \<noteq> [] \<and> take (length w) s = w")
    case True
    then have "set s = set w \<union> set (drop (length w) s)" by (metis append_take_drop_id set_append)
    with Cons.prems True show ?thesis by auto
  next
    case False
    with Cons show ?thesis by (simp split: if_splits)
  qed
qed simp

lemma strip_front_keeps:
  "c \<in> set s \<Longrightarrow> list_all (\<lambda>w. c \<notin> set w) ws \<Longrightarrow> c \<in> set (strip_front ws s)"
proof (induction ws s rule: strip_front.induct)
  case (1 ws s)
  then show ?case by (subst strip_front.simps) (auto split: option.split dest: strip_one_keeps)
qed

lemma trim_keeps_colon: "COLON \<in> set s \<Longrightarrow> COLON \<in> set (trim s)"
  by (simp add: trim_def trim_start_def trim_end_def strip_front_keeps white_space_def)

lemma parse_line_colon_name:
  assumes "good_node cr node" and "COLON \<in> set (te_display_name e)"
  shows "\<exists>err. parse_line cr (i, trust_line (node, e)) out = Inl err"
proof -
  obtain a b where ab: "split_once COLON (te_display_name e) = Some (a, b)"
    using assms(2) split_once_None_iff by fastforce
  then have n: "te_display_name e = a @ COLON # b" "COLON \<notin> set a" using split_once_SomeD by blast+
  let ?r = "b @ COLON # show_nat (unat (te_rate_limit_per_min e))"
  have "split_once COLON (te_display_name e @ COLON # show_nat (unat (te_rate_limit_per_min e))) = Some (a, ?r)"
    using n split_once_append [of COLON a ?r] by simp
  moreover have "\<exists>k. parse_u32 (trim ?r) = Inl k"
    using trim_keeps_colon [of ?r] by (intro parse_u32_bad [of COLON]) (simp_all add: is_digit_char_def)
  ultimately show ?thesis using assms(1) by (auto simp: parse_line_value)
qed

text \<open>
  C39. A colon in a display name makes the saved file unreadable. The store accepts such a name
  and \<^verbatim>\<open>save\<close> reports success, but the value is split at its first colon, so what follows is
  not a number: loading the file fails with an error, and with it every other issuer in the
  file is lost to the next start.
\<close>

theorem trust_name_colon_unreadable:
  assumes "trust_ok s" and "iteration_order it"
    and "\<forall>node e. TrustStore_get s node = Some e \<longrightarrow> good_node cr node \<and> LF \<notin> set (te_display_name e)"
    and "TrustStore_get s bad = Some e" and "COLON \<in> set (te_display_name e)"
    and "TrustStore_save it s fs = (Inr (), fs')" and "ts_path s = Some p" and "fs_read_fault fs p = None"
  shows "\<exists>err. TrustStore_load_from_path cr fs' p = Inl err"
proof -
  let ?es = "sort_key (\<lambda>(node, _). NodeId_as_str node) (it (ts_inner s))"
  let ?xs = "map Inl trust_header @ map Inr ?es"
  let ?ls = "map trust_render ?xs"
  have wf: "hm_wf (ts_inner s)" using assms(1) by (simp add: trust_ok_def)
  note es = sorted_entries [OF wf assms(2), of "\<lambda>(node, _). NodeId_as_str node"]
  have "list_all line_ok ?ls"
    using header_good [of cr] assms(3) es(1) hm_get_in_iff [OF wf]
    by (auto simp: list_all_iff TrustStore_get_def good_node_def Let_def intro!: trust_line_ok)
  then have ls: "lines (concat (map (\<lambda>x. trust_render x @ [LF]) ?xs)) = ?ls"
    using lines_unlines [of ?ls] by (simp add: comp_def)
  have "(bad, e) \<in> set ?es" using assms(4) es(1) hm_get_in_iff [OF wf] by (simp add: TrustStore_get_def)
  then have "trust_line (bad, e) \<in> set ?ls" by force
  then obtain k where "k < length ?ls" "?ls ! k = trust_line (bad, e)" by (auto simp only: in_set_conv_nth)
  then have "(Suc k, trust_line (bad, e)) \<in> set (numbered_lines (concat (map (\<lambda>x. trust_render x @ [LF]) ?xs)))"
    unfolding numbered_lines_def ls in_set_zip by (intro exI [of _ k]) (simp del: upt_Suc)
  moreover have "\<exists>err. parse_line cr (i, trust_line (bad, e)) out = Inl err" for i out
    using assms(3,4,5) by (intro parse_line_colon_name) auto
  ultimately have "\<exists>err. TrustStore_parse cr (concat (map (\<lambda>x. trust_render x @ [LF]) ?xs)) = Inl err"
    unfolding TrustStore_parse_def by (intro try_for_stuck)
  then show ?thesis
    using save_writes [OF assms(6-8)] by (auto simp: TrustStore_load_from_path_def simp del: map_append)
qed

text \<open>
  C23. Loading fails closed. A loaded store trusts an issuer only if the file has a line that is
  not a comment and names that issuer before its \<open>=\<close>, and the identity decodes as a key
  encoding. A file that exists but cannot be read, or has a line that cannot be parsed, yields
  an error and no store.
\<close>

theorem trust_load_fails_closed:
  assumes "TrustStore_load_from_path cr fs p = Inr s" and "TrustStore_is_trusted s node"
  shows "\<exists>raw line lhs rhs. fs_read_to_string fs p = Inr raw \<and> line \<in> set (lines raw) \<and>
    hd (trim line) \<noteq> CHR ''#'' \<and> split_once (CHR ''='') (trim line) = Some (lhs, rhs) \<and>
    node = NodeId (trim lhs) \<and> b64_decode cr (trim lhs) 32 \<noteq> None"
proof -
  let ?listed = "\<lambda>ls node. \<exists>line lhs rhs. line \<in> set ls \<and> hd (trim line) \<noteq> CHR ''#'' \<and>
    split_once (CHR ''='') (trim line) = Some (lhs, rhs) \<and> node = NodeId (trim lhs) \<and> b64_decode cr (trim lhs) 32 \<noteq> None"
  have get: "hm_get (ts_inner s) node \<noteq> None"
    using assms(2) by (simp add: TrustStore_is_trusted_def hm_contains_key_def)
  with assms(1) obtain raw where raw: "fs_read_to_string fs p = Inr raw"
      and parse: "TrustStore_parse cr raw = Inr (ts_inner s)"
    by (auto simp: TrustStore_load_from_path_def hm.get_new split: sum.splits io_error.splits)
  let ?P = "\<lambda>m. hm_wf m \<and> (\<forall>x. hm_get m x \<noteq> None \<longrightarrow> ?listed (lines raw) x)"
  have "?P (ts_inner s)"
    using parse unfolding TrustStore_parse_def
  proof (rule try_for_invariant)
    show "?P hm_new" by (simp add: hm.get_new)
    fix x m m' assume x: "x \<in> set (numbered_lines raw)" and m: "?P m" and step: "parse_line cr x m = Inr m'"
    obtain i line where il: "x = (i, line)" by (cases x)
    show "?P m'"
    proof (cases "m' = m")
      case False
      with step il obtain lhs rhs e where "hd (trim line) \<noteq> CHR ''#''" "b64_decode cr (trim lhs) 32 \<noteq> None"
          "split_once (CHR ''='') (trim line) = Some (lhs, rhs)" "m' = hm_insert (NodeId (trim lhs)) e m"
        by (auto simp: parse_line_def NodeId_parse_def Let_def split: if_splits option.splits sum.splits prod.splits)
      moreover have "line \<in> set (lines raw)" using x il set_numbered_lines by blast
      ultimately show ?thesis using m by (auto simp: hm.get_insert)
    qed (use m in simp)
  qed
  with get raw show ?thesis by blast
qed

section \<open>Histories\<close>

datatype trust_op = AddAt NodeId TrustEntry | Remove NodeId

fun trust_exec :: "trust_op \<Rightarrow> TrustStore \<Rightarrow> TrustStore" where
  "trust_exec (AddAt n e) s = TrustStore_add_at s n e"
| "trust_exec (Remove n) s = snd (TrustStore_remove s n)"

text \<open>The specification: the last operation on a node decides.\<close>

fun registered :: "trust_op list \<Rightarrow> NodeId \<Rightarrow> TrustEntry option \<Rightarrow> TrustEntry option" where
  "registered [] node e = e"
| "registered (AddAt n e' # ops) node e = registered ops node (if n = node then Some e' else e)"
| "registered (Remove n # ops) node e = registered ops node (if n = node then None else e)"

lemma trust_exec_ok: "trust_ok s \<Longrightarrow> trust_ok (trust_exec x s)"
  by (cases x) (simp_all add: trust_ok_def TrustStore_add_at_def TrustStore_remove_def)

lemma trust_run:
  "trust_ok s \<Longrightarrow> trust_ok (fold trust_exec ops s) \<and>
   TrustStore_get (fold trust_exec ops s) node = registered ops node (TrustStore_get s node)"
proof (induction ops arbitrary: s)
  case (Cons x ops)
  have "TrustStore_get (trust_exec x s) node =
      (case x of AddAt n e \<Rightarrow> if n = node then Some e else TrustStore_get s node
       | Remove n \<Rightarrow> if n = node then None else TrustStore_get s node)"
    using Cons.prems
    by (cases x) (auto simp: trust_ok_def TrustStore_get_def TrustStore_add_at_def TrustStore_remove_def
        hm.get_insert hm.get_remove)
  with Cons.IH [of "trust_exec x s"] trust_exec_ok [OF Cons.prems, of x] show ?case
    by (cases x) (simp_all split: if_splits)
qed simp

lemma trusted_iff_registered:
  "TrustStore_is_trusted (fold trust_exec ops TrustStore_new) node \<longleftrightarrow> registered ops node None \<noteq> None"
proof -
  have "trust_ok TrustStore_new" "TrustStore_get TrustStore_new node = None"
    by (simp_all add: trust_ok_def TrustStore_new_def TrustStore_get_def hm.get_new)
  with trust_run [of TrustStore_new ops node] show ?thesis
    by (simp add: TrustStore_is_trusted_def TrustStore_get_def hm_contains_key_def)
qed

text \<open>
  C24. Revocation is effective: after any history of additions and removals the store trusts
  exactly the nodes whose last operation was an addition, with the entry it was added with,
  and its length is their number. A handshake gated by the store after a removal fails for
  the removed issuer.
\<close>

theorem trust_history:
  "TrustStore_get (fold trust_exec ops TrustStore_new) node = registered ops node None \<and>
   (TrustStore_is_trusted (fold trust_exec ops TrustStore_new) node \<longleftrightarrow> registered ops node None \<noteq> None) \<and>
   TrustStore_len (fold trust_exec ops TrustStore_new) = card {n. registered ops n None \<noteq> None} \<and>
   \<not> TrustStore_is_trusted (fold trust_exec (ops @ [Remove node]) TrustStore_new) node"
proof -
  have new: "trust_ok TrustStore_new" "TrustStore_get TrustStore_new x = None" for x
    by (simp_all add: trust_ok_def TrustStore_new_def TrustStore_get_def hm.get_new)
  note run = trust_run [OF new(1)]
  have is_trusted: "TrustStore_is_trusted s x \<longleftrightarrow> TrustStore_get s x \<noteq> None" for s x
    by (simp add: TrustStore_is_trusted_def TrustStore_get_def hm_contains_key_def)
  have "dom (hm_get (ts_inner (fold trust_exec ops TrustStore_new))) = {n. registered ops n None \<noteq> None}"
    using run [of ops] new(2) by (auto simp: TrustStore_get_def)
  then have "TrustStore_len (fold trust_exec ops TrustStore_new) = card {n. registered ops n None \<noteq> None}"
    using run [of ops] by (simp add: TrustStore_len_def trust_ok_def hm.len_card)
  moreover have "registered (ops @ [Remove x]) x e = None" for x e
    by (induction ops x e rule: registered.induct) simp_all
  ultimately show ?thesis
    using run [of ops node] run [of "ops @ [Remove node]" node] new(2) by (simp add: is_trusted del: fold_append)
qed

section \<open>Witnesses\<close>

text \<open>An identity of 32 printable characters, as the demonstration base64 encodes a key.\<close>

definition demo_node :: NodeId where
  "demo_node = NodeId (replicate 32 (CHR ''a''))"

definition demo_store :: "string \<Rightarrow> TrustStore" where
  "demo_store name =
     \<lparr>ts_inner = [(demo_node, TrustEntry_new name 1700000000 60)], ts_path = Some [''trust.toml'']\<rparr>"

definition clean_fs :: file_system where
  "clean_fs = \<lparr>fs_file = Map.empty, fs_read_fault = Map.empty, fs_write_fault = Map.empty,
     fs_mkdir_fault = Map.empty\<rparr>"

lemma demo_node_good: "good_node demo_crates demo_node"
  by (simp add: good_node_def demo_node_def Let_def solid_def list_all_iff demo_crates_def)

lemma demo_store_simps:
  "trust_ok (demo_store name)" "ts_path (demo_store name) = Some [''trust.toml'']"
  "TrustStore_get (demo_store name) node = (if node = demo_node then Some (TrustEntry_new name 1700000000 60) else None)"
  by (simp_all add: trust_ok_def demo_store_def hm_wf_def TrustStore_get_def hm_get_def)

lemma demo_store_saved: "\<exists>fs'. TrustStore_save rev (demo_store name) clean_fs = (Inr (), fs')"
  by (simp add: TrustStore_save_def demo_store_def clean_fs_def path_parent_def fs_create_dir_all_def fs_write_def Let_def)

theorem trust_save_load_witness:
  "\<exists>fs' s'. TrustStore_save rev (demo_store ''ops'') clean_fs = (Inr (), fs') \<and>
     TrustStore_load_from_path demo_crates fs' [''trust.toml''] = Inr s' \<and>
     TrustStore_get s' demo_node = Some (TrustEntry_new ''ops'' 0 60)"
proof -
  obtain fs' where fs': "TrustStore_save rev (demo_store ''ops'') clean_fs = (Inr (), fs')"
    using demo_store_saved by blast
  have "trim ''ops'' = ''ops''" by (intro trim_solid) (simp_all add: solid_def)
  then have "\<forall>node e. TrustStore_get (demo_store ''ops'') node = Some e \<longrightarrow> good_trust_entry demo_crates (node, e)"
    using demo_node_good by (simp add: demo_store_simps good_trust_entry_def good_name_def TrustEntry_new_def)
  from trust_save_load [OF demo_store_simps(1) iteration_order_rev this fs' demo_store_simps(2)] fs'
  show ?thesis by (auto simp: clean_fs_def demo_store_simps TrustEntry_new_def)
qed

theorem trust_name_colon_unreadable_witness:
  "\<exists>fs' err. TrustStore_save rev (demo_store ''ops:eu'') clean_fs = (Inr (), fs') \<and>
     TrustStore_load_from_path demo_crates fs' [''trust.toml''] = Inl err"
proof -
  obtain fs' where fs': "TrustStore_save rev (demo_store ''ops:eu'') clean_fs = (Inr (), fs')"
    using demo_store_saved by blast
  have a: "\<forall>node e. TrustStore_get (demo_store ''ops:eu'') node = Some e \<longrightarrow>
      good_node demo_crates node \<and> LF \<notin> set (te_display_name e)"
    using demo_node_good by (simp add: demo_store_simps TrustEntry_new_def)
  have g: "TrustStore_get (demo_store ''ops:eu'') demo_node = Some (TrustEntry_new ''ops:eu'' 1700000000 60)"
    by (simp add: demo_store_simps)
  from trust_name_colon_unreadable [OF demo_store_simps(1) iteration_order_rev a g _ fs' demo_store_simps(2)] fs'
  show ?thesis by (auto simp: clean_fs_def TrustEntry_new_def)
qed

theorem trust_load_fails_closed_witness:
  "\<exists>fs raw line lhs rhs. fs_read_to_string fs [''trust.toml''] = Inr raw \<and> line \<in> set (lines raw) \<and>
     split_once (CHR ''='') (trim line) = Some (lhs, rhs) \<and> demo_node = NodeId (trim lhs)"
proof -
  obtain fs' where fs': "TrustStore_save rev (demo_store ''ops'') clean_fs = (Inr (), fs')"
    using demo_store_saved by blast
  have "trim ''ops'' = ''ops''" by (intro trim_solid) (simp_all add: solid_def)
  then have "\<forall>node e. TrustStore_get (demo_store ''ops'') node = Some e \<longrightarrow> good_trust_entry demo_crates (node, e)"
    using demo_node_good by (simp add: demo_store_simps good_trust_entry_def good_name_def TrustEntry_new_def)
  from load_saved [OF demo_store_simps(1) iteration_order_rev this fs' demo_store_simps(2)]
  have "TrustStore_load_from_path demo_crates fs' [''trust.toml''] =
      Inr \<lparr>ts_inner = hm_collect [(demo_node, TrustEntry_new ''ops'' 0 60)], ts_path = Some [''trust.toml'']\<rparr>"
    by (simp add: clean_fs_def demo_store_def TrustEntry_new_def)
  from trust_load_fails_closed [OF this, of demo_node] show ?thesis
    by (force simp: TrustStore_is_trusted_def hm_contains_key_def hm_get_collect)
qed

end
