(* ===== verification/Relay.thy ===== *)
theory Relay
  imports Rate_Limit Trust
begin

text \<open>
  \<^verbatim>\<open>src/relay/mod.rs\<close>: the relay that forwards the bytes of one admitted connection, its log,
  its counters, and the in-memory stream.

  \<^verbatim>\<open>handle_connection\<close> is generic in its two streams and its clock and shares the rate limiter
  with the tasks of other connections. The record \<open>relay_env\<close> holds these operations over a
  world \<open>'w\<close> of its own; whatever other tasks do to the limiter while this one waits is part
  of what the operations do to the world. The locale \<open>relay_streams\<close> is the contract of the
  streams under which forwarding is correct, and is interpreted on a pair of
  \<^verbatim>\<open>MemoryStream\<close>s.
\<close>

section \<open>Data\<close>

datatype ConnectionOutcome =
    Closed
  | RateLimited
  | TrustRejected
  | ConnectionError string

record ConnectionLog =
  cl_src_node :: NodeId
  cl_dst_node :: "NodeId option"
  cl_bytes_in :: u64
  cl_bytes_out :: u64
  cl_started_at_unix :: f64
  cl_duration_ms :: u64
  cl_outcome :: ConnectionOutcome

text \<open>The configuration of the service; the shared limiter is part of the world.\<close>

record RelayServiceConfig =
  rsc_listen_addr :: string
  rsc_trust :: TrustStore
  rsc_idle_timeout_secs :: nat

definition RelayServiceConfig_new :: "string \<Rightarrow> TrustStore \<Rightarrow> RelayServiceConfig" where
  "RelayServiceConfig_new listen_addr trust =
     \<lparr>rsc_listen_addr = listen_addr, rsc_trust = trust, rsc_idle_timeout_secs = 30\<rparr>"

record 'w relay_env =
  re_limiter :: "'w \<Rightarrow> RateLimiter"
  re_set_limiter :: "RateLimiter \<Rightarrow> 'w \<Rightarrow> 'w"
  re_clock :: "'w \<Rightarrow> f64 \<times> 'w"
  re_read :: "nat \<Rightarrow> 'w \<Rightarrow> (string + bytes) \<times> 'w"
  re_write_all :: "bytes \<Rightarrow> 'w \<Rightarrow> (string + unit) \<times> 'w"

section \<open>The relay\<close>

definition env_try_consume :: "'w relay_env \<Rightarrow> NodeId \<Rightarrow> f64 \<Rightarrow> 'w \<Rightarrow> bool \<times> 'w" where
  "env_try_consume env node now w =
     (case RateLimiter_try_consume (re_limiter env w) node now of
        (allowed, l) \<Rightarrow> (allowed, re_set_limiter env l w))"

definition sync_node_limit :: "'w relay_env \<Rightarrow> RelayServiceConfig \<Rightarrow> NodeId \<Rightarrow> f64 \<Rightarrow> 'w \<Rightarrow> bool \<times> 'w" where
  "sync_node_limit env cfg node now w =
     (case TrustStore_get (rsc_trust cfg) node of
        Some entry \<Rightarrow>
          (True, re_set_limiter env
             (RateLimiter_set_limit (re_limiter env w) node (te_rate_limit_per_min entry) now) w)
      | None \<Rightarrow> (False, w))"

text \<open>
  The stub \<^verbatim>\<open>serve\<close>: \<open>cancel k\<close> is the flag as read in round \<open>k\<close>; the result is the round in
  which the loop returned, \<open>None\<close> if it never does.
\<close>

partial_function (option) Relay_serve :: "(nat \<Rightarrow> bool) \<Rightarrow> nat \<Rightarrow> nat option" where
  "Relay_serve cancel k = (if cancel k then Some k else Relay_serve cancel (Suc k))"

text \<open>
  One round of the forwarding loop with its 8 KiB buffer: it ends the loop with an outcome and
  the number of bytes read in the round, or has forwarded a chunk.
\<close>

definition RELAY_BUF :: nat where
  "RELAY_BUF = 8 * 1024"

definition relay_round ::
  "'w relay_env \<Rightarrow> NodeId \<Rightarrow> 'w \<Rightarrow> (ConnectionOutcome \<times> nat + bytes) \<times> 'w" where
  "relay_round env node w =
     (case re_read env RELAY_BUF w of
        (Inl err, w1) \<Rightarrow> (Inl (ConnectionError err, 0), w1)
      | (Inr chunk, w1) \<Rightarrow>
          if chunk = [] then (Inl (Closed, 0), w1)
          else let (now, w2) = re_clock env w1;
                   (allowed, w3) = env_try_consume env node now w2
               in if \<not> allowed then (Inl (RateLimited, length chunk), w3)
                  else (case re_write_all env chunk w3 of
                     (Inl err, w4) \<Rightarrow> (Inl (ConnectionError err, length chunk), w4)
                   | (Inr _, w4) \<Rightarrow> (Inr chunk, w4)))"

text \<open>The loop; \<open>None\<close> if it never ends. The counters wrap.\<close>

partial_function (option) relay_pump ::
  "'w relay_env \<Rightarrow> NodeId \<Rightarrow> u64 \<Rightarrow> u64 \<Rightarrow> 'w \<Rightarrow> ((ConnectionOutcome \<times> u64 \<times> u64) \<times> 'w) option" where
  "relay_pump env node bytes_in bytes_out w =
     (case relay_round env node w of
        (Inl (outcome, n), w1) \<Rightarrow> Some ((outcome, bytes_in + of_nat n, bytes_out), w1)
      | (Inr chunk, w1) \<Rightarrow>
          relay_pump env node (bytes_in + of_nat (length chunk)) (bytes_out + of_nat (length chunk)) w1)"

definition refused_log :: "NodeId \<Rightarrow> f64 \<Rightarrow> ConnectionOutcome \<Rightarrow> ConnectionLog" where
  "refused_log peer_node started_at_unix outcome =
     \<lparr>cl_src_node = peer_node, cl_dst_node = None, cl_bytes_in = 0, cl_bytes_out = 0,
      cl_started_at_unix = started_at_unix, cl_duration_ms = 0, cl_outcome = outcome\<rparr>"

definition duration_ms :: "f64 \<Rightarrow> f64 \<Rightarrow> u64" where
  "duration_ms ended started_at_unix =
     f64_to_u64 (f64_mul (f64_max (f64_sub ended started_at_unix) (Fin 0)) (Fin 1000))"

definition Relay_handle_connection ::
  "'w relay_env \<Rightarrow> RelayServiceConfig \<Rightarrow> NodeId \<Rightarrow> f64 \<Rightarrow> 'w \<Rightarrow> (ConnectionLog \<times> 'w) option" where
  "Relay_handle_connection env cfg peer_node started_at_unix w =
     (if \<not> TrustStore_is_trusted (rsc_trust cfg) peer_node
      then Some (refused_log peer_node started_at_unix TrustRejected, w)
      else let (_, w1) = sync_node_limit env cfg peer_node started_at_unix w;
               (now, w2) = re_clock env w1;
               (allowed, w3) = env_try_consume env peer_node now w2
           in if \<not> allowed then Some (refused_log peer_node started_at_unix RateLimited, w3)
              else (case relay_pump env peer_node 0 0 w3 of
                 None \<Rightarrow> None
               | Some ((outcome, bytes_in, bytes_out), w4) \<Rightarrow>
                   let (ended, w5) = re_clock env w4 in
                   Some (\<lparr>cl_src_node = peer_node, cl_dst_node = None, cl_bytes_in = bytes_in,
                      cl_bytes_out = bytes_out, cl_started_at_unix = started_at_unix,
                      cl_duration_ms = duration_ms ended started_at_unix, cl_outcome = outcome\<rparr>, w5)))"

section \<open>The in-memory stream\<close>

record MemoryStream =
  ms_read_buffer :: bytes
  ms_read_pos :: nat
  ms_written :: bytes
  ms_finished :: bool

definition MemoryStream_default :: MemoryStream where
  "MemoryStream_default = \<lparr>ms_read_buffer = [], ms_read_pos = 0, ms_written = [], ms_finished = False\<rparr>"

definition MemoryStream_with_payload :: "bytes \<Rightarrow> MemoryStream" where
  "MemoryStream_with_payload payload = MemoryStream_default\<lparr>ms_read_buffer := payload\<rparr>"

definition MemoryStream_into_written :: "MemoryStream \<Rightarrow> bytes" where
  "MemoryStream_into_written s = ms_written s"

text \<open>A read into a buffer of \<open>n\<close> bytes returns the bytes put into it.\<close>

definition MemoryStream_read :: "nat \<Rightarrow> MemoryStream \<Rightarrow> (string + bytes) \<times> MemoryStream" where
  "MemoryStream_read buf_len s =
     (if length (ms_read_buffer s) \<le> ms_read_pos s then (Inr [], s)
      else let remaining = drop (ms_read_pos s) (ms_read_buffer s);
               n = min (length remaining) buf_len
           in (Inr (take n remaining), s\<lparr>ms_read_pos := ms_read_pos s + n\<rparr>))"

definition MemoryStream_write_all :: "bytes \<Rightarrow> MemoryStream \<Rightarrow> (string + unit) \<times> MemoryStream" where
  "MemoryStream_write_all buf s = (Inr (), s\<lparr>ms_written := ms_written s @ buf\<rparr>)"

definition MemoryStream_finish :: "MemoryStream \<Rightarrow> (string + unit) \<times> MemoryStream" where
  "MemoryStream_finish s = (Inr (), s\<lparr>ms_finished := True\<rparr>)"

section \<open>Counters\<close>

record RelayStats =
  rst_counts :: "(string, u64) hashmap"

definition RelayStats_new :: RelayStats where
  "RelayStats_new = \<lparr>rst_counts = hm_new\<rparr>"

fun outcome_key :: "ConnectionOutcome \<Rightarrow> string" where
  "outcome_key Closed = ''closed''"
| "outcome_key RateLimited = ''rate_limited''"
| "outcome_key TrustRejected = ''trust_rejected''"
| "outcome_key (ConnectionError _) = ''error''"

definition RelayStats_record :: "ConnectionLog \<Rightarrow> RelayStats \<Rightarrow> RelayStats" where
  "RelayStats_record conn_log st =
     (let key = outcome_key (cl_outcome conn_log);
          old = (case hm_get (rst_counts st) key of None \<Rightarrow> 0 | Some v \<Rightarrow> v)
      in st\<lparr>rst_counts := hm_insert key (old + 1) (rst_counts st)\<rparr>)"

definition RelayStats_total :: "RelayStats \<Rightarrow> u64" where
  "RelayStats_total st = sum_list (map snd (rst_counts st))"

section \<open>The contract of the streams\<close>

locale relay_streams =
  fixes env :: "'w relay_env"
    and rest :: "'w \<Rightarrow> bytes"
    and sent :: "'w \<Rightarrow> bytes"
  assumes read_ok: "0 < n \<Longrightarrow> re_read env n w = (Inr bs, w') \<Longrightarrow>
      rest w = bs @ rest w' \<and> sent w' = sent w \<and> length bs \<le> n \<and> (bs = [] \<longrightarrow> rest w = [])"
    and read_err: "re_read env n w = (Inl e, w') \<Longrightarrow> rest w' = rest w \<and> sent w' = sent w"
    and write_ok: "re_write_all env bs w = (Inr (), w') \<Longrightarrow> sent w' = sent w @ bs \<and> rest w' = rest w"
    and write_err: "re_write_all env bs w = (Inl e, w') \<Longrightarrow> (\<exists>k. sent w' = sent w @ take k bs) \<and> rest w' = rest w"
    and clock_frame: "rest (snd (re_clock env w)) = rest w" "sent (snd (re_clock env w)) = sent w"
    and limiter_frame: "rest (re_set_limiter env l w) = rest w" "sent (re_set_limiter env l w) = sent w"
begin

lemma consume_frame:
  "rest (snd (env_try_consume env node now w)) = rest w"
  "sent (snd (env_try_consume env node now w)) = sent w"
  by (simp_all add: env_try_consume_def limiter_frame split: prod.split)

text \<open>
  A round that forwards a chunk moves it from the unread bytes to the sent ones; a round that
  ends the loop loses at most the chunk it had read, and part of it may have been sent.
\<close>

lemma round_forward:
  assumes "relay_round env node w = (Inr chunk, w')"
  shows "rest w = chunk @ rest w' \<and> sent w' = sent w @ chunk \<and> chunk \<noteq> [] \<and> length chunk \<le> RELAY_BUF"
proof -
  obtain x w1 where x: "re_read env RELAY_BUF w = (x, w1)" by (cases "re_read env RELAY_BUF w")
  from assms x have r: "re_read env RELAY_BUF w = (Inr chunk, w1)" "chunk \<noteq> []"
      and wr: "re_write_all env chunk (snd (env_try_consume env node (fst (re_clock env w1)) (snd (re_clock env w1)))) = (Inr (), w')"
    by (auto simp: relay_round_def Let_def case_prod_beta split: prod.splits sum.splits if_splits)
  have "0 < RELAY_BUF" by (simp add: RELAY_BUF_def)
  from read_ok [OF this r(1)] write_ok [OF wr] r(2) show ?thesis by (simp add: consume_frame clock_frame)
qed

lemma round_end:
  assumes "relay_round env node w = (Inl (outcome, n), w')"
  shows "\<exists>chunk k. rest w = chunk @ rest w' \<and> length chunk = n \<and> n \<le> RELAY_BUF \<and>
    sent w' = sent w @ take k chunk \<and> (outcome = Closed \<longrightarrow> chunk = [] \<and> rest w = []) \<and>
    ((\<forall>e. outcome \<noteq> ConnectionError e) \<longrightarrow> k = 0)"
proof -
  have pos: "0 < RELAY_BUF" by (simp add: RELAY_BUF_def)
  obtain r w1 where r: "re_read env RELAY_BUF w = (r, w1)" by (cases "re_read env RELAY_BUF w")
  show ?thesis
  proof (cases r)
    case (Inl e)
    with r assms read_err [of RELAY_BUF w e w1] show ?thesis by (auto simp: relay_round_def intro: exI [of _ 0])
  next
    case (Inr chunk)
    let ?w3 = "snd (env_try_consume env node (fst (re_clock env w1)) (snd (re_clock env w1)))"
    from Inr r have ro: "rest w = chunk @ rest w1" "sent w1 = sent w" "length chunk \<le> RELAY_BUF" "chunk = [] \<Longrightarrow> rest w = []"
      using read_ok [OF pos, of w chunk w1] by auto
    have f: "rest ?w3 = rest w1" "sent ?w3 = sent w1" by (simp_all add: consume_frame clock_frame)
    from assms r Inr consider (closed) "chunk = []" "outcome = Closed" "n = 0" "w' = w1"
      | (limited) "outcome = RateLimited" "n = length chunk" "w' = ?w3"
      | (error) e where "outcome = ConnectionError e" "n = length chunk" "re_write_all env chunk ?w3 = (Inl e, w')"
      by (auto simp: relay_round_def Let_def case_prod_beta split: prod.splits sum.splits if_splits)
    then show ?thesis
    proof cases
      case closed
      with ro show ?thesis by (intro exI [of _ "[]"] exI [of _ 0]) auto
    next
      case limited
      with ro f show ?thesis by (intro exI [of _ chunk] exI [of _ 0]) simp
    next
      case error
      with ro f write_err [of chunk ?w3 e w'] show ?thesis by auto
    qed
  qed
qed

text \<open>Reading makes progress, so the loop ends when the incoming stream does.\<close>

lemma pump_total: "\<exists>r. relay_pump env node i out w = Some r"
proof (induction "length (rest w)" arbitrary: i out w rule: less_induct)
  case less
  show ?case
  proof (cases "relay_round env node w")
    case (Pair r w1)
    show ?thesis
    proof (cases r)
      case (Inl x)
      with Pair show ?thesis by (cases x) (simp add: relay_pump.simps [of env node i])
    next
      case (Inr chunk)
      with Pair round_forward [of node w chunk w1] have "length (rest w1) < length (rest w)" by simp
      from less [OF this] Pair Inr show ?thesis by (simp add: relay_pump.simps [of env node i])
    qed
  qed
qed

text \<open>
  What the loop forwards is a prefix of the incoming bytes, in order; \<open>fwd\<close> is counted as
  sent, \<open>fwd @ lost\<close> as received.
\<close>

lemma pump_forwards:
  "relay_pump env node i out w = Some ((outcome, i', out'), w') \<Longrightarrow>
   \<exists>fwd lost k. rest w = fwd @ lost @ rest w' \<and> sent w' = sent w @ fwd @ take k lost \<and>
     length lost \<le> RELAY_BUF \<and> out' = out + of_nat (length fwd) \<and> i' = i + of_nat (length (fwd @ lost)) \<and>
     (outcome = Closed \<longrightarrow> lost = [] \<and> rest w' = []) \<and> ((\<forall>e. outcome \<noteq> ConnectionError e) \<longrightarrow> k = 0)"
proof (induction "length (rest w)" arbitrary: i out w rule: less_induct)
  case less
  obtain r w1 where r: "relay_round env node w = (r, w1)" by (cases "relay_round env node w")
  show ?case
  proof (cases r)
    case (Inl x)
    obtain oc n where x: "x = (oc, n)" by (cases x)
    have eq: "oc = outcome" "i' = i + of_nat n" "out' = out" "w' = w1"
      using less.prems r Inl x by (simp_all add: relay_pump.simps [of env node i])
    from round_end [of node w oc n w1] r Inl x obtain chunk k where
      "rest w = chunk @ rest w1" "length chunk = n" "n \<le> RELAY_BUF" "sent w1 = sent w @ take k chunk"
      "oc = Closed \<longrightarrow> chunk = [] \<and> rest w = []" "(\<forall>e. oc \<noteq> ConnectionError e) \<longrightarrow> k = 0"
      by blast
    with eq show ?thesis by (intro exI [of _ "[]"] exI [of _ chunk] exI [of _ k]) auto
  next
    case (Inr chunk)
    with r have f: "rest w = chunk @ rest w1" "sent w1 = sent w @ chunk" "chunk \<noteq> []"
      using round_forward by blast+
    have "relay_pump env node (i + of_nat (length chunk)) (out + of_nat (length chunk)) w1 = Some ((outcome, i', out'), w')"
      using less.prems r Inr by (simp add: relay_pump.simps [of env node i])
    from less.hyps [OF _ this] f obtain fwd lost k where
      "rest w1 = fwd @ lost @ rest w'" "sent w' = sent w1 @ fwd @ take k lost" "length lost \<le> RELAY_BUF"
      "out' = out + of_nat (length chunk) + of_nat (length fwd)"
      "i' = i + of_nat (length chunk) + of_nat (length (fwd @ lost))"
      "outcome = Closed \<longrightarrow> lost = [] \<and> rest w' = []" "(\<forall>e. outcome \<noteq> ConnectionError e) \<longrightarrow> k = 0"
      by auto
    with f show ?thesis by (intro exI [of _ "chunk @ fwd"] exI [of _ lost] exI [of _ k]) (simp add: ac_simps)
  qed
qed

end

text \<open>Streams without errors of their own.\<close>

locale reliable_relay_streams = relay_streams +
  assumes no_read_err: "fst (re_read env n w) \<noteq> Inl e"
    and no_write_err: "fst (re_write_all env bs w) \<noteq> Inl e"
begin

lemma round_no_error: "relay_round env node w \<noteq> (Inl (ConnectionError e, n), w')"
  using no_read_err no_write_err
  by (auto simp: relay_round_def Let_def case_prod_beta split: sum.splits prod.splits)

lemma pump_no_error: "relay_pump env node i out w \<noteq> Some ((ConnectionError e, i', out'), w')"
proof (induction "length (rest w)" arbitrary: i out w rule: less_induct)
  case less
  show ?case
  proof (cases "relay_round env node w")
    case (Pair r w1)
    with round_no_error [of node w e] round_forward [of node w _ w1] less show ?thesis
      by (subst relay_pump.simps) (auto split: sum.split)
  qed
qed

end

section \<open>A relay between two memory streams\<close>

text \<open>\<open>mw_clock k\<close> is the value the clock closure returns on its call number \<open>k\<close>.\<close>

record memory_world =
  mw_limiter :: RateLimiter
  mw_incoming :: MemoryStream
  mw_outgoing :: MemoryStream
  mw_clock :: "nat \<Rightarrow> f64"
  mw_ticks :: nat

definition memory_env :: "memory_world relay_env" where
  "memory_env =
     \<lparr>re_limiter = mw_limiter,
      re_set_limiter = (\<lambda>l w. w\<lparr>mw_limiter := l\<rparr>),
      re_clock = (\<lambda>w. (mw_clock w (mw_ticks w), w\<lparr>mw_ticks := Suc (mw_ticks w)\<rparr>)),
      re_read = (\<lambda>n w. case MemoryStream_read n (mw_incoming w) of (r, s) \<Rightarrow> (r, w\<lparr>mw_incoming := s\<rparr>)),
      re_write_all = (\<lambda>bs w. case MemoryStream_write_all bs (mw_outgoing w) of (r, s) \<Rightarrow> (r, w\<lparr>mw_outgoing := s\<rparr>))\<rparr>"

definition memory_rest :: "memory_world \<Rightarrow> bytes" where
  "memory_rest w = drop (ms_read_pos (mw_incoming w)) (ms_read_buffer (mw_incoming w))"

definition memory_sent :: "memory_world \<Rightarrow> bytes" where
  "memory_sent w = ms_written (mw_outgoing w)"

lemma memory_read:
  assumes "re_read memory_env n w = (r, w')" and "0 < n"
  shows "r = Inr (take n (memory_rest w))" and "memory_rest w' = drop n (memory_rest w)"
    and "memory_sent w' = memory_sent w" and "mw_limiter w' = mw_limiter w"
    and "mw_clock w' = mw_clock w" and "mw_ticks w' = mw_ticks w"
  using assms
  by (auto simp: memory_env_def MemoryStream_read_def memory_rest_def memory_sent_def Let_def min_def
      add.commute split: if_splits)

interpretation memory: relay_streams memory_env memory_rest memory_sent
proof (unfold_locales, goal_cases)
  case (1 n w bs w')
  have "rest = take n rest @ drop n rest" for rest :: bytes by simp
  with 1 memory_read [OF 1(2,1)] show ?case by (auto simp del: append_take_drop_id)
next
  case (2 n w e w')
  then show ?case by (simp add: memory_env_def MemoryStream_read_def Let_def split: if_splits)
qed (simp_all add: memory_env_def MemoryStream_write_all_def memory_sent_def memory_rest_def)

interpretation memory: reliable_relay_streams memory_env memory_rest memory_sent
  by unfold_locales
    (auto simp: memory_env_def MemoryStream_read_def MemoryStream_write_all_def Let_def split: prod.splits)

lemma sync_frame:
  "memory_rest (snd (sync_node_limit memory_env cfg node n w)) = memory_rest w"
  "memory_sent (snd (sync_node_limit memory_env cfg node n w)) = memory_sent w"
  by (simp_all add: sync_node_limit_def memory.limiter_frame split: option.split)

text \<open>The parts of a connection: refused by the trust store, by the limiter, or forwarded.\<close>

lemma handle_connection_eq:
  "Relay_handle_connection env cfg node started w =
     (let w1 = snd (sync_node_limit env cfg node started w);
          (allowed, w3) = env_try_consume env node (fst (re_clock env w1)) (snd (re_clock env w1))
      in if \<not> TrustStore_is_trusted (rsc_trust cfg) node then Some (refused_log node started TrustRejected, w)
         else if \<not> allowed then Some (refused_log node started RateLimited, w3)
         else map_option (\<lambda>((oc, i, out), w4).
           (\<lparr>cl_src_node = node, cl_dst_node = None, cl_bytes_in = i, cl_bytes_out = out,
             cl_started_at_unix = started, cl_duration_ms = duration_ms (fst (re_clock env w4)) started,
             cl_outcome = oc\<rparr>, snd (re_clock env w4))) (relay_pump env node 0 0 w3))"
  by (simp add: Relay_handle_connection_def Let_def case_prod_beta split: option.split)

lemma round_outcome: "relay_round env node w = (Inl (oc, n), w') \<Longrightarrow> oc \<noteq> TrustRejected"
  by (auto simp: relay_round_def Let_def split: prod.splits sum.splits if_splits)

lemma pump_outcome:
  assumes "relay_pump env node i out w = Some r"
  shows "fst (fst r) \<noteq> TrustRejected"
proof (rule relay_pump.raw_induct [OF _ assms], goal_cases)
  case (1 f env node i out w r)
  then show ?case by (auto simp: round_outcome split: prod.splits sum.splits)
qed

text \<open>
  C12. Forwarding between memory streams always ends, and what is delivered is exactly a prefix of
  the incoming bytes in their order. The counters are the lengths of what was forwarded and of
  what was read; at most one buffer (8 KiB) is read and not forwarded. The outcome is
  \<open>Closed\<close> only when everything was forwarded, and \<open>TrustRejected\<close> exactly when the store does
  not trust the peer, in which case no stream, clock or limiter has been touched.
\<close>

theorem relay_forwards_prefix:
  "\<exists>conn_log w' fwd lost. Relay_handle_connection memory_env cfg node started w = Some (conn_log, w') \<and>
     memory_rest w = fwd @ lost @ memory_rest w' \<and> memory_sent w' = memory_sent w @ fwd \<and>
     length lost \<le> 8192 \<and>
     cl_bytes_out conn_log = of_nat (length fwd) \<and> cl_bytes_in conn_log = of_nat (length (fwd @ lost)) \<and>
     (cl_outcome conn_log = Closed \<longrightarrow> lost = [] \<and> memory_rest w' = []) \<and>
     (cl_outcome conn_log = TrustRejected \<longleftrightarrow> \<not> TrustStore_is_trusted (rsc_trust cfg) node) \<and>
     (cl_outcome conn_log = TrustRejected \<longrightarrow> w' = w)"
proof -
  let ?w1 = "snd (sync_node_limit memory_env cfg node started w)"
  let ?adm = "env_try_consume memory_env node (fst (re_clock memory_env ?w1)) (snd (re_clock memory_env ?w1))"
  let ?w3 = "snd ?adm"
  have f: "memory_rest ?w3 = memory_rest w" "memory_sent ?w3 = memory_sent w"
    by (simp_all add: memory.consume_frame memory.clock_frame sync_frame)
  obtain oc i out w4 where p: "relay_pump memory_env node 0 0 ?w3 = Some ((oc, i, out), w4)"
    using memory.pump_total [of node 0 0 ?w3] by auto
  have noerr: "\<forall>e. oc \<noteq> ConnectionError e" using p memory.pump_no_error by blast
  have oc: "oc \<noteq> TrustRejected" using pump_outcome [OF p] by simp
  from memory.pump_forwards [OF p] noerr obtain fwd lost where fw:
    "memory_rest ?w3 = fwd @ lost @ memory_rest w4" "memory_sent w4 = memory_sent ?w3 @ fwd" "length lost \<le> RELAY_BUF"
    "out = of_nat (length fwd)" "i = of_nat (length (fwd @ lost))" "oc = Closed \<longrightarrow> lost = [] \<and> memory_rest w4 = []"
    by auto
  show ?thesis
  proof (cases "TrustStore_is_trusted (rsc_trust cfg) node \<and> fst ?adm")
    case True
    let ?log = "\<lparr>cl_src_node = node, cl_dst_node = None, cl_bytes_in = i, cl_bytes_out = out,
      cl_started_at_unix = started, cl_duration_ms = duration_ms (fst (re_clock memory_env w4)) started, cl_outcome = oc\<rparr>"
    have "Relay_handle_connection memory_env cfg node started w = Some (?log, snd (re_clock memory_env w4))"
      using True p by (simp add: handle_connection_eq Let_def case_prod_beta)
    with True f fw oc show ?thesis
      by (intro exI [of _ ?log] exI [of _ "snd (re_clock memory_env w4)"] exI [of _ fwd] exI [of _ lost])
        (simp add: memory.clock_frame RELAY_BUF_def)
  next
    case False
    then show ?thesis
      using f by (auto simp: handle_connection_eq Let_def case_prod_beta refused_log_def intro: exI [of _ "[]"])
  qed
qed

section \<open>The rate limit of a connection\<close>

text \<open>\<open>holds l node c j n\<close>: the node's bucket has capacity \<open>c\<close>, \<open>j\<close> tokens, refilled at \<open>n\<close>.\<close>

definition holds :: "RateLimiter \<Rightarrow> NodeId \<Rightarrow> nat \<Rightarrow> nat \<Rightarrow> rat \<Rightarrow> bool" where
  "holds l node c j n \<longleftrightarrow> hm_wf (rl_inner l) \<and>
     (\<exists>b. hm_get (rl_inner l) node = Some b \<and> bucket_inv c (of_nat j) n b)"

lemma holds_consume:
  assumes "holds l node c j n"
  shows "fst (RateLimiter_try_consume l node (Fin n)) = (0 < j)"
    and "holds (snd (RateLimiter_try_consume l node (Fin n))) node c (j - 1) n"
  using assms consume_same_instant [of c j n]
  by (auto simp: holds_def try_consume_inner bucket_or_def hm.get_insert)

lemma holds_set_limit:
  assumes "hm_wf (rl_inner l)" and "hm_get (rl_inner l) node = None" and "rep n"
  shows "let c = unat (if r = 0 then DEFAULT_RATE_PER_MIN else r) in
    holds (RateLimiter_set_limit l node r (Fin n)) node c c n"
proof -
  define e where "e = (if r = 0 then DEFAULT_RATE_PER_MIN else r)"
  have "TokenBucket_retune (TokenBucket_full e (Fin n)) e (Fin n) = TokenBucket_full e (Fin n)"
    by (simp add: TokenBucket_retune_def TokenBucket_refill_def TokenBucket_full_def f64_of_u32_def f64_min_def Let_def)
  with assms full_inv [OF assms(3), of e] show ?thesis
    by (simp add: holds_def set_limit_inner bucket_or_def hm.get_insert Let_def flip: e_def)
qed

text \<open>A round at a fixed instant: it forwards a buffer for a token, and ends without one.\<close>

lemma memory_clock_const:
  "mw_clock w = (\<lambda>_. t) \<Longrightarrow> re_clock memory_env w = (t, w\<lparr>mw_ticks := Suc (mw_ticks w)\<rparr>)"
  by (simp add: memory_env_def)

lemma memory_consume:
  "env_try_consume memory_env node t w =
     (fst (RateLimiter_try_consume (mw_limiter w) node t),
      w\<lparr>mw_limiter := snd (RateLimiter_try_consume (mw_limiter w) node t)\<rparr>)"
  by (simp add: env_try_consume_def memory_env_def case_prod_beta)

lemma memory_frame_simps [simp]:
  "memory_rest (w\<lparr>mw_limiter := l\<rparr>) = memory_rest w" "memory_rest (w\<lparr>mw_ticks := k\<rparr>) = memory_rest w"
  "memory_rest (w\<lparr>mw_outgoing := s\<rparr>) = memory_rest w" "memory_sent (w\<lparr>mw_limiter := l\<rparr>) = memory_sent w"
  "memory_sent (w\<lparr>mw_ticks := k\<rparr>) = memory_sent w" "memory_sent (w\<lparr>mw_outgoing := s\<rparr>) = ms_written s"
  by (simp_all add: memory_rest_def memory_sent_def)

lemma memory_round:
  assumes "mw_clock w = (\<lambda>_. Fin n)" and "holds (mw_limiter w) node c j n"
  shows "memory_rest w = [] \<Longrightarrow> \<exists>w'. relay_round memory_env node w = (Inl (Closed, 0), w') \<and> memory_sent w' = memory_sent w \<and> mw_clock w' = (\<lambda>_. Fin n)"
    and "memory_rest w \<noteq> [] \<Longrightarrow> j = 0 \<Longrightarrow> \<exists>w'. relay_round memory_env node w =
      (Inl (RateLimited, min (length (memory_rest w)) RELAY_BUF), w') \<and> memory_sent w' = memory_sent w \<and> mw_clock w' = (\<lambda>_. Fin n)"
    and "memory_rest w \<noteq> [] \<Longrightarrow> 0 < j \<Longrightarrow> \<exists>w'. relay_round memory_env node w = (Inr (take RELAY_BUF (memory_rest w)), w') \<and>
      memory_sent w' = memory_sent w @ take RELAY_BUF (memory_rest w) \<and> memory_rest w' = drop RELAY_BUF (memory_rest w) \<and>
      mw_clock w' = (\<lambda>_. Fin n) \<and> holds (mw_limiter w') node c (j - 1) n"
proof -
  obtain r w1 where r: "re_read memory_env RELAY_BUF w = (r, w1)" by (cases "re_read memory_env RELAY_BUF w")
  have pos: "0 < RELAY_BUF" by (simp add: RELAY_BUF_def)
  note rd = memory_read [OF r pos]
  have clk: "re_clock memory_env w1 = (Fin n, w1\<lparr>mw_ticks := Suc (mw_ticks w1)\<rparr>)"
    using rd assms(1) by (intro memory_clock_const) simp
  have wr: "re_write_all memory_env bs v = (Inr (), v\<lparr>mw_outgoing := (mw_outgoing v)\<lparr>ms_written := ms_written (mw_outgoing v) @ bs\<rparr>\<rparr>)"
    for bs v by (simp add: memory_env_def MemoryStream_write_all_def)
  note h = holds_consume [OF assms(2)]
  have ne: "take RELAY_BUF xs = [] \<longleftrightarrow> xs = []" for xs :: bytes using pos by auto
  show "\<exists>w'. relay_round memory_env node w = (Inl (Closed, 0), w') \<and> memory_sent w' = memory_sent w \<and> mw_clock w' = (\<lambda>_. Fin n)"
    if "memory_rest w = []" using that r rd assms(1) by (simp add: relay_round_def)
  show "\<exists>w'. relay_round memory_env node w = (Inl (RateLimited, min (length (memory_rest w)) RELAY_BUF), w') \<and>
      memory_sent w' = memory_sent w \<and> mw_clock w' = (\<lambda>_. Fin n)" if "memory_rest w \<noteq> []" "j = 0"
    using that r rd(1,3,4,5) h clk pos assms(1) by (simp add: relay_round_def memory_consume ne)
  show "\<exists>w'. relay_round memory_env node w = (Inr (take RELAY_BUF (memory_rest w)), w') \<and>
      memory_sent w' = memory_sent w @ take RELAY_BUF (memory_rest w) \<and> memory_rest w' = drop RELAY_BUF (memory_rest w) \<and>
      mw_clock w' = (\<lambda>_. Fin n) \<and> holds (mw_limiter w') node c (j - 1) n" if "memory_rest w \<noteq> []" "0 < j"
    using that r rd h clk wr pos assms(1) by (simp add: relay_round_def memory_consume ne memory_sent_def [of w1])
qed

lemma pump_limited:
  "mw_clock w = (\<lambda>_. Fin n) \<Longrightarrow> holds (mw_limiter w) node c j n \<Longrightarrow>
   \<exists>w'. relay_pump memory_env node i out w =
     Some ((if length (memory_rest w) \<le> j * RELAY_BUF then Closed else RateLimited,
            i + of_nat (min (length (memory_rest w)) (Suc j * RELAY_BUF)),
            out + of_nat (min (length (memory_rest w)) (j * RELAY_BUF))), w') \<and>
     memory_sent w' = memory_sent w @ take (j * RELAY_BUF) (memory_rest w) \<and> mw_clock w' = (\<lambda>_. Fin n)"
proof (induction j arbitrary: i out w)
  case 0
  then show ?case
  proof (cases "memory_rest w = []")
    case True
    with memory_round(1) [OF 0] show ?thesis by (auto simp: relay_pump.simps [of memory_env node i])
  next
    case False
    with memory_round(2) [OF 0] show ?thesis by (auto simp: relay_pump.simps [of memory_env node i])
  qed
next
  case (Suc j)
  show ?case
  proof (cases "memory_rest w = []")
    case True
    with memory_round(1) [OF Suc.prems] show ?thesis by (auto simp: relay_pump.simps [of memory_env node i])
  next
    case False
    let ?xs = "memory_rest w" and ?B = RELAY_BUF
    obtain w1 where w1: "relay_round memory_env node w = (Inr (take ?B ?xs), w1)"
        "memory_sent w1 = memory_sent w @ take ?B ?xs" "memory_rest w1 = drop ?B ?xs"
        "mw_clock w1 = (\<lambda>_. Fin n)" "holds (mw_limiter w1) node c j n"
      using memory_round(3) [OF Suc.prems False] by auto
    have n: "length (take ?B ?xs) + min (length (drop ?B ?xs)) (k * ?B) = min (length ?xs) (Suc k * ?B)" for k
      by (auto simp: min_def)
    have le: "(length (drop ?B ?xs) \<le> j * ?B) = (length ?xs \<le> Suc j * ?B)" by auto
    have t: "take ?B ?xs @ take (j * ?B) (drop ?B ?xs) = take (Suc j * ?B) ?xs" by (simp add: take_add)
    have "relay_pump memory_env node i out w =
        relay_pump memory_env node (i + of_nat (length (take ?B ?xs))) (out + of_nat (length (take ?B ?xs))) w1"
      using w1(1) by (subst relay_pump.simps) simp
    with Suc.IH [OF w1(4,5), of "i + of_nat (length (take ?B ?xs))" "out + of_nat (length (take ?B ?xs))"]
    show ?thesis unfolding w1(2,3) add.assoc of_nat_add [symmetric] n le append_assoc t by simp
  qed
qed

text \<open>A full bucket stays full, so that a consumption at a later time leaves one token less.\<close>

lemma holds_consume_later:
  assumes h: "holds l node c c n" and "rep t" "n \<le> t"
  shows "fst (RateLimiter_try_consume l node (Fin t)) = (0 < c)"
    and "holds (snd (RateLimiter_try_consume l node (Fin t))) node c (c - 1) t"
proof -
  obtain b where b: "hm_wf (rl_inner l)" "hm_get (rl_inner l) node = Some b" "bucket_inv c (of_nat c) n b"
    using h by (auto simp: holds_def)
  define b1 where "b1 = snd (TokenBucket_refill b (Fin t))"
  obtain t' where t': "bucket_inv c t' (max t n) b1" "of_nat c \<le> t'"
    using refill_inv [OF b(3) assms(2)] by (auto simp: b1_def)
  then have full: "bucket_inv c (of_nat c) t b1" using assms(3) by (auto simp: bucket_inv_def max_def)
  then have "tb_last_refill_unix b1 = Fin t" by (simp add: bucket_inv_def)
  then have "snd (TokenBucket_refill b1 (Fin t)) = b1" by (simp add: TokenBucket_refill_def)
  then have same: "TokenBucket_try_consume b (Fin t) = TokenBucket_try_consume b1 (Fin t)"
    by (simp add: TokenBucket_try_consume_def flip: b1_def)
  show "fst (RateLimiter_try_consume l node (Fin t)) = (0 < c)"
    and "holds (snd (RateLimiter_try_consume l node (Fin t))) node c (c - 1) t"
    using b(1,2) consume_same_instant [OF full] by (auto simp: holds_def try_consume_inner bucket_or_def hm.get_insert same)
qed

lemma relay_limited:
  assumes "TrustStore_get (rsc_trust cfg) node = Some entry"
    and "hm_wf (rl_inner (mw_limiter w))" and "hm_get (rl_inner (mw_limiter w)) node = None"
    and "rep s" "rep t" "s \<le> t" and "mw_clock w = (\<lambda>_. Fin t)"
    and "c = unat (if te_rate_limit_per_min entry = 0 then DEFAULT_RATE_PER_MIN else te_rate_limit_per_min entry)"
  shows "\<exists>conn_log w'. Relay_handle_connection memory_env cfg node (Fin s) w = Some (conn_log, w') \<and>
    memory_sent w' = memory_sent w @ take ((c - 1) * 8192) (memory_rest w) \<and>
    cl_outcome conn_log = (if length (memory_rest w) \<le> (c - 1) * 8192 then Closed else RateLimited) \<and>
    cl_bytes_out conn_log = of_nat (min (length (memory_rest w)) ((c - 1) * 8192)) \<and>
    cl_bytes_in conn_log = of_nat (min (length (memory_rest w)) (c * 8192)) \<and>
    cl_duration_ms conn_log = duration_ms (Fin t) (Fin s)"
proof -
  let ?r = "te_rate_limit_per_min entry"
  let ?w1 = "w\<lparr>mw_limiter := RateLimiter_set_limit (mw_limiter w) node ?r (Fin s)\<rparr>"
  have h: "holds (mw_limiter ?w1) node c c s"
    using holds_set_limit [OF assms(2-4), of ?r] by (simp add: Let_def flip: assms(8))
  have cpos: "0 < c" using assms(8) by (simp add: DEFAULT_RATE_PER_MIN_def unat_gt_0)
  then have c: "Suc (c - 1) = c" by simp
  let ?w2 = "?w1\<lparr>mw_ticks := Suc (mw_ticks w)\<rparr>"
  let ?w3 = "?w2\<lparr>mw_limiter := snd (RateLimiter_try_consume (mw_limiter ?w1) node (Fin t))\<rparr>"
  have sync: "snd (sync_node_limit memory_env cfg node (Fin s) w) = ?w1"
    using assms(1) by (simp add: sync_node_limit_def memory_env_def)
  have clk: "re_clock memory_env ?w1 = (Fin t, ?w2)" using assms(7) by (simp add: memory_clock_const)
  have tr: "env_try_consume memory_env node (Fin t) ?w2 = (True, ?w3)"
    using holds_consume_later(1) [OF h assms(5,6)] cpos by (simp add: memory_consume)
  have h3: "holds (mw_limiter ?w3) node c (c - 1) t" using holds_consume_later(2) [OF h assms(5,6)] by simp
  have rest: "memory_rest ?w3 = memory_rest w" "memory_sent ?w3 = memory_sent w"
    by (simp_all add: memory_rest_def memory_sent_def)
  from pump_limited [OF _ h3, of 0 0] assms(7) obtain w4 where
    p: "relay_pump memory_env node 0 0 ?w3 =
      Some ((if length (memory_rest w) \<le> (c - 1) * RELAY_BUF then Closed else RateLimited,
        of_nat (min (length (memory_rest w)) (c * RELAY_BUF)),
        of_nat (min (length (memory_rest w)) ((c - 1) * RELAY_BUF))), w4)"
      "memory_sent w4 = memory_sent w @ take ((c - 1) * RELAY_BUF) (memory_rest w)" "mw_clock w4 = (\<lambda>_. Fin t)"
    unfolding c rest by auto
  have "TrustStore_is_trusted (rsc_trust cfg) node"
    using assms(1) by (simp add: TrustStore_is_trusted_def TrustStore_get_def hm_contains_key_def)
  then show ?thesis
    using p sync clk tr memory_clock_const [OF p(3)] by (simp add: handle_connection_eq Let_def memory.clock_frame RELAY_BUF_def)
qed

text \<open>
  C13. The limiter bounds what one connection can push through. A peer that is first seen when it
  connects, with rate \<open>r\<close> in the trust store (100 if the entry says zero), sends at one instant, at or after
  the time the connection started: the connection costs one token and every chunk of 8 KiB another. Up to \<open>(r - 1) * 8192\<close> bytes
  are forwarded completely; of more, exactly the first \<open>(r - 1) * 8192\<close> bytes are, one more chunk is
  read and dropped, and the log says \<open>RateLimited\<close>.
\<close>

theorem relay_rate_limited_exactly:
  assumes "TrustStore_get (rsc_trust cfg) node = Some entry"
    and "hm_wf (rl_inner (mw_limiter w))" and "hm_get (rl_inner (mw_limiter w)) node = None"
    and "rep s" "rep t" "s \<le> t" and "mw_clock w = (\<lambda>_. Fin t)"
    and "c = unat (if te_rate_limit_per_min entry = 0 then DEFAULT_RATE_PER_MIN else te_rate_limit_per_min entry)"
  shows "\<exists>conn_log w'. Relay_handle_connection memory_env cfg node (Fin s) w = Some (conn_log, w') \<and>
    memory_sent w' = memory_sent w @ take ((c - 1) * 8192) (memory_rest w) \<and>
    cl_outcome conn_log = (if length (memory_rest w) \<le> (c - 1) * 8192 then Closed else RateLimited) \<and>
    cl_bytes_out conn_log = of_nat (min (length (memory_rest w)) ((c - 1) * 8192)) \<and>
    cl_bytes_in conn_log = of_nat (min (length (memory_rest w)) (c * 8192))"
  using relay_limited [OF assms] by blast

definition demo_relay :: RelayServiceConfig where
  "demo_relay = RelayServiceConfig_new ''127.0.0.1:4433''
     \<lparr>ts_inner = [(NodeId ''n'', TrustEntry_new ''ops'' 0 2)], ts_path = None\<rparr>"

definition demo_world :: "bytes \<Rightarrow> memory_world" where
  "demo_world payload = \<lparr>mw_limiter = RateLimiter_new 100, mw_incoming = MemoryStream_with_payload payload,
     mw_outgoing = MemoryStream_default, mw_clock = (\<lambda>_. Fin (of_nat 1000)), mw_ticks = 0\<rparr>"

theorem relay_rate_limited_exactly_witness:
  "\<exists>conn_log w'. Relay_handle_connection memory_env demo_relay (NodeId ''n'') (Fin (of_nat 1000))
      (demo_world (replicate 20000 7)) = Some (conn_log, w') \<and>
    memory_sent w' = replicate 8192 7 \<and> cl_outcome conn_log = RateLimited \<and>
    cl_bytes_out conn_log = 8192 \<and> cl_bytes_in conn_log = 16384"
proof -
  let ?w = "demo_world (replicate 20000 7)"
  have rest: "memory_rest ?w = replicate 20000 7" "memory_sent ?w = []"
    by (simp_all add: memory_rest_def memory_sent_def demo_world_def MemoryStream_with_payload_def MemoryStream_default_def)
  have get: "TrustStore_get (rsc_trust demo_relay) (NodeId ''n'') = Some (TrustEntry_new ''ops'' 0 2)"
    by (simp add: TrustStore_get_def demo_relay_def RelayServiceConfig_new_def hm_get_def)
  have wf: "hm_wf (rl_inner (mw_limiter ?w))" "hm_get (rl_inner (mw_limiter ?w)) (NodeId ''n'') = None"
    using limiter_ok_wf [OF limiter_ok_new [of 100]] by (simp_all add: demo_world_def)
  have clk: "mw_clock ?w = (\<lambda>_. Fin (of_nat 1000))" by (simp add: demo_world_def)
  show ?thesis
    using relay_rate_limited_exactly [OF get wf f64.rp_nat f64.rp_nat order_refl clk refl] rest by (simp add: TrustEntry_new_def min_def)
qed

theorem relay_forwards_prefix_witness:
  "\<exists>conn_log w' fwd lost. Relay_handle_connection memory_env demo_relay (NodeId ''n'') (Fin (of_nat 1000))
      (demo_world [1, 2, 3]) = Some (conn_log, w') \<and> [1, 2, 3] = fwd @ lost @ memory_rest w' \<and> memory_sent w' = fwd"
proof -
  have w: "memory_rest (demo_world [1, 2, 3]) = [1, 2, 3]" "memory_sent (demo_world [1, 2, 3]) = []"
    by (simp_all add: memory_rest_def memory_sent_def demo_world_def MemoryStream_with_payload_def MemoryStream_default_def)
  show ?thesis
    using relay_forwards_prefix [of demo_relay "NodeId ''n''" "Fin (of_nat 1000)" "demo_world [1, 2, 3]"]
    unfolding w append_Nil by metis
qed

section \<open>Service\<close>

text \<open>
  The stub service stops as soon as it sees the cancellation flag, and only then: it returns
  in the first round that reads the flag as set, and runs forever if no round does.
\<close>

lemma relay_serve_stops:
  "Relay_serve cancel k = (if \<exists>n \<ge> k. cancel n then Some (LEAST n. k \<le> n \<and> cancel n) else None)"
proof (cases "\<exists>n \<ge> k. cancel n")
  case True
  define m where "m = (LEAST n. k \<le> n \<and> cancel n)"
  have m: "k \<le> m" "cancel m" "\<And>i. k \<le> i \<Longrightarrow> i < m \<Longrightarrow> \<not> cancel i"
    using LeastI_ex [OF True] not_less_Least unfolding m_def by blast+
  have "Relay_serve cancel i = Some m" if "k \<le> i" "i \<le> m" for i
    using that
  proof (induction "m - i" arbitrary: i)
    case 0
    with m show ?case by (simp add: Relay_serve.simps [of cancel i])
  next
    case (Suc d)
    with m show ?case by (simp add: Relay_serve.simps [of cancel i])
  qed
  with True m(1) show ?thesis by (simp add: m_def)
next
  case False
  have "Relay_serve cancel i = Some r \<Longrightarrow> \<exists>n \<ge> i. cancel n" for i r
    by (rule Relay_serve.raw_induct [where P = "\<lambda>cancel i r. \<exists>n \<ge> i. cancel n"])
      (auto split: if_splits, metis Suc_leD)
  with False show ?thesis by (cases "Relay_serve cancel k") auto
qed

section \<open>Statistics\<close>

definition outcome_count :: "string \<Rightarrow> ConnectionLog list \<Rightarrow> nat" where
  "outcome_count key logs = length (filter (\<lambda>x. outcome_key (cl_outcome x) = key) logs)"

definition stats_run :: "ConnectionLog list \<Rightarrow> RelayStats" where
  "stats_run logs = fold RelayStats_record logs RelayStats_new"

definition stat_get :: "RelayStats \<Rightarrow> string \<Rightarrow> u64" where
  "stat_get st key = (case hm_get (rst_counts st) key of None \<Rightarrow> 0 | Some v \<Rightarrow> v)"

lemma stats_record:
  assumes "hm_wf (rst_counts st)"
  shows "hm_wf (rst_counts (RelayStats_record x st))"
    and "stat_get (RelayStats_record x st) key =
      stat_get st key + (if outcome_key (cl_outcome x) = key then 1 else 0)"
  using assms by (auto simp: RelayStats_record_def stat_get_def Let_def hm.get_insert split: option.splits)

lemma sum_list_update:
  "distinct (map fst m) \<Longrightarrow>
   sum_list (map snd (AList.update k v m)) + (case map_of m k of None \<Rightarrow> 0 | Some u \<Rightarrow> u) =
     sum_list (map snd m) + (v :: u64)"
  by (induction m) (auto simp: algebra_simps split: option.splits)

lemma stats_total_record:
  assumes "hm_wf (rst_counts st)"
  shows "RelayStats_total (RelayStats_record x st) = RelayStats_total st + 1"
proof -
  let ?k = "outcome_key (cl_outcome x)"
  have "sum_list (map snd (AList.update ?k (stat_get st ?k + 1) (rst_counts st))) + stat_get st ?k =
      sum_list (map snd (rst_counts st)) + (stat_get st ?k + 1)"
    using assms sum_list_update [of "rst_counts st" ?k "stat_get st ?k + 1"]
    by (simp add: hm_wf_def stat_get_def hm_get_def)
  then show ?thesis
    by (simp add: RelayStats_total_def RelayStats_record_def Let_def hm_insert_def stat_get_def algebra_simps)
qed

text \<open>
  The statistics account for every log that is recorded: the count under a key is the number
  of recorded logs with an outcome of that kind, and the total is the number of logs, modulo
  \<open>2 ^ 64\<close>.
\<close>

lemma relay_stats_account:
  "stat_get (stats_run logs) key = of_nat (outcome_count key logs) \<and>
   RelayStats_total (stats_run logs) = of_nat (length logs)"
proof -
  have "hm_wf (rst_counts st) \<Longrightarrow>
      stat_get (fold RelayStats_record logs st) key = stat_get st key + of_nat (outcome_count key logs) \<and>
      RelayStats_total (fold RelayStats_record logs st) = RelayStats_total st + of_nat (length logs)" for st
    by (induction logs arbitrary: st)
      (simp_all add: outcome_count_def stats_record stats_total_record)
  from this [of RelayStats_new] show ?thesis
    by (simp add: stats_run_def RelayStats_new_def stat_get_def RelayStats_total_def hm.get_new) (simp add: hm_new_def)
qed

end
