(* ===== verification/Listener.thy ===== *)
theory Listener
  imports Relay
begin

text \<open>
  \<^verbatim>\<open>src/relay/listener.rs\<close>: the accept loop of the relay, the task of one connection and the
  adapters that make QUIC streams into the relay's byte streams. The endpoint, the clock, the
  cancellation flag and the task spawner join the QUIC operations in the record \<open>listener_ops\<close>.
  Messages to standard error are left out.
\<close>

section \<open>Stream adapters\<close>

definition QuicRecvStream_read :: "('w, 'z) quinn_scheme \<Rightarrow> stream_id \<Rightarrow> nat \<Rightarrow> 'w \<Rightarrow> (string + bytes) \<times> 'w" where
  "QuicRecvStream_read q s buf_len w =
     (case q_read q s buf_len w of
        (Inr (Some bs), w') \<Rightarrow> (Inr bs, w')
      | (Inr None, w') \<Rightarrow> (Inr [], w')
      | (Inl e, w') \<Rightarrow> (Inl e, w'))"

definition QuicRecvStream_write_all :: "bytes \<Rightarrow> 'w \<Rightarrow> (string + unit) \<times> 'w" where
  "QuicRecvStream_write_all buf w = (Inr (), w)"

definition QuicRecvStream_finish :: "'w \<Rightarrow> (string + unit) \<times> 'w" where
  "QuicRecvStream_finish w = (Inr (), w)"

definition QuicSendStream_read :: "nat \<Rightarrow> 'w \<Rightarrow> (string + bytes) \<times> 'w" where
  "QuicSendStream_read buf_len w = (Inr [], w)"

definition QuicSendStream_write_all ::
  "('w, 'z) quinn_scheme \<Rightarrow> stream_id \<Rightarrow> bytes \<Rightarrow> 'w \<Rightarrow> (string + unit) \<times> 'w" where
  "QuicSendStream_write_all q s buf w =
     (case q_write_all q s buf w of
        (Inl e, w') \<Rightarrow> (Inl e, w')
      | (Inr _, w') \<Rightarrow> q_finish q s w')"

definition QuicSendStream_finish :: "('w, 'z) quinn_scheme \<Rightarrow> stream_id \<Rightarrow> 'w \<Rightarrow> (string + unit) \<times> 'w" where
  "QuicSendStream_finish q s w = q_finish q s w"

text \<open>The relay on the two halves of stream \<open>s\<close>; \<open>base\<close> has the limiter and the clock.\<close>

definition quic_env :: "('w, 'z) quinn_scheme \<Rightarrow> 'w relay_env \<Rightarrow> stream_id \<Rightarrow> 'w relay_env" where
  "quic_env q base s =
     base\<lparr>re_read := QuicRecvStream_read q s, re_write_all := QuicSendStream_write_all q s\<rparr>"

section \<open>The tasks\<close>

record 'w listener_ops = "'w quinn" +
  lo_now :: "'w \<Rightarrow> system_time \<times> 'w"
  lo_cancelled :: "'w \<Rightarrow> bool \<times> 'w"
  lo_close :: "nat \<Rightarrow> string \<Rightarrow> 'w \<Rightarrow> 'w"
  lo_spawn_stream :: "NodeId \<Rightarrow> f64 \<Rightarrow> stream_id \<Rightarrow> 'w \<Rightarrow> 'w"
  lo_local_addr :: "'w \<Rightarrow> (io_error + string) \<times> 'w"
  lo_accept :: "'w \<Rightarrow> nat option \<times> 'w"
  lo_incoming_accept :: "nat \<Rightarrow> 'w \<Rightarrow> (quinn_error + nat) \<times> 'w"
  lo_connecting :: "nat \<Rightarrow> 'w \<Rightarrow> (quinn_error + nat) \<times> 'w"
  lo_spawn_connection :: "nat \<Rightarrow> 'w \<Rightarrow> 'w"

datatype task_end = Returned | Panicked

text \<open>
  The loop over the streams of a connection; a failed \<^verbatim>\<open>accept_bi\<close> goes to the next round. The
  spawned task is \<^verbatim>\<open>Relay_handle_connection\<close> on \<open>quic_env\<close> of the accepted stream.
\<close>

partial_function (option) stream_loop :: "('w, 'z) listener_ops_scheme \<Rightarrow> NodeId \<Rightarrow> f64 \<Rightarrow> 'w \<Rightarrow> 'w option" where
  "stream_loop ops node started w =
     (case lo_cancelled ops w of (cancelled, w1) \<Rightarrow>
        if cancelled then Some w1 else
          (case q_accept_bi ops w1 of
             (Inl e, w2) \<Rightarrow> stream_loop ops node started w2
           | (Inr s, w2) \<Rightarrow> stream_loop ops node started (lo_spawn_stream ops node started s w2)))"

text \<open>
  The task of a connection. \<open>dummy_vk\<close> is the public key of the secret key of 32 zero bytes, which
  the source uses as issuer key and as expected subject.
\<close>

definition listener_handle_connection ::
  "('sk, 'vk, 'sg, 'y) session_crates_scheme \<Rightarrow> (nat \<Rightarrow> bool) \<Rightarrow> ('w, 'z) listener_ops_scheme \<Rightarrow> RelayServiceConfig \<Rightarrow>
     'vk \<Rightarrow> 'w \<Rightarrow> (task_end \<times> 'w) option" where
  "listener_handle_connection cr alloc ops cfg dummy_vk w =
     (case lo_now ops w of (t, w0) \<Rightarrow>
     (case now_unix_seconds t of
        None \<Rightarrow> Some (Panicked, w0)
      | Some started \<Rightarrow>
     (case q_open_bi ops w0 of
        (Inl e, w1) \<Rightarrow> Some (Returned, w1)
      | (Inr s, w1) \<Rightarrow>
     (case lo_now ops w1 of (t', w2) \<Rightarrow>
     (case now_unix_seconds t' of
        None \<Rightarrow> Some (Panicked, q_drop ops s w2)
      | Some now \<Rightarrow>
     (case server_handshake cr alloc (quinn.truncate ops) s dummy_vk dummy_vk
             (TrustStore_is_trusted (rsc_trust cfg)) now w2 of
        (None, w3) \<Rightarrow> Some (Panicked, w3)
      | (Some (Inl e), w3) \<Rightarrow> Some (Returned, lo_close ops 0 ''handshake failed'' w3)
      | (Some (Inr summary), w3) \<Rightarrow>
          (case stream_loop ops (hs_subject summary) (f64_of_i64 started) w3 of
             None \<Rightarrow> None
           | Some w4 \<Rightarrow> Some (Returned, w4))))))))"

partial_function (option) accept_loop :: "('w, 'z) listener_ops_scheme \<Rightarrow> 'w \<Rightarrow> 'w option" where
  "accept_loop ops w =
     (case lo_cancelled ops w of (cancelled, w1) \<Rightarrow>
        if cancelled then Some w1 else
          (case lo_accept ops w1 of
             (None, w2) \<Rightarrow> Some w2
           | (Some incoming, w2) \<Rightarrow>
               (case lo_incoming_accept ops incoming w2 of
                  (Inl e, w3) \<Rightarrow> accept_loop ops w3
                | (Inr connecting, w3) \<Rightarrow>
                    (case lo_connecting ops connecting w3 of
                       (Inl e, w4) \<Rightarrow> accept_loop ops w4
                     | (Inr conn, w4) \<Rightarrow> accept_loop ops (lo_spawn_connection ops conn w4)))))"

text \<open>The statistics are created, handed to no one who records into them, and returned.\<close>

definition run_listener :: "('w, 'z) listener_ops_scheme \<Rightarrow> 'w \<Rightarrow> ((io_error + RelayStats) \<times> 'w) option" where
  "run_listener ops w =
     (case lo_local_addr ops w of
        (Inl e, w1) \<Rightarrow> Some (Inl e, w1)
      | (Inr _, w1) \<Rightarrow>
          (case accept_loop ops w1 of
             None \<Rightarrow> None
           | Some w2 \<Rightarrow> Some (Inr RelayStats_new, w2)))"

section \<open>Every peer is the placeholder\<close>

lemma stream_loop_agree:
  assumes "stream_loop ops node started w = Some r"
    and "lo_cancelled ops' = lo_cancelled ops" and "q_accept_bi ops' = q_accept_bi ops"
    and "lo_spawn_stream ops' node = lo_spawn_stream ops node"
  shows "stream_loop ops' node started w = Some r"
proof -
  have "lo_cancelled ops' = lo_cancelled ops \<longrightarrow> q_accept_bi ops' = q_accept_bi ops \<longrightarrow>
      lo_spawn_stream ops' node = lo_spawn_stream ops node \<longrightarrow> stream_loop ops' node started w = Some r"
  proof (rule stream_loop.raw_induct [OF _ assms(1), where P = "\<lambda>ops node started w r.
      lo_cancelled ops' = lo_cancelled ops \<longrightarrow> q_accept_bi ops' = q_accept_bi ops \<longrightarrow>
      lo_spawn_stream ops' node = lo_spawn_stream ops node \<longrightarrow> stream_loop ops' node started w = Some r"], goal_cases)
    case (1 f ops node started w r)
    then show ?case
      by (subst stream_loop.simps) (auto split: prod.splits sum.splits if_splits)
  qed
  with assms(2-4) show ?thesis by simp
qed

lemma server_handshake_subject:
  assumes "server_handshake cr alloc q s vk sub trusted now w = (Some (Inr sm), w')"
  shows "hs_subject sm = NodeId_from_verifying_key cr sub"
  using server_handshake_Inr [OF assms] by (auto simp: admission_Inr_iff summary_of_def)

text \<open>
  C31. Every stream the listener relays is attributed to one identity, that of the all-zero placeholder
  key: what the task would do for a stream of any other node is never used, so it can be
  replaced by anything. Tickets of real subjects are refused at the handshake, and the trust
  entries and rate limits of individual peers never apply.
\<close>

theorem listener_serves_only_placeholder:
  "listener_handle_connection cr alloc ops cfg dummy_vk w =
   listener_handle_connection cr alloc
     (ops\<lparr>lo_spawn_stream := (\<lambda>node. if node = NodeId_from_verifying_key cr dummy_vk
        then lo_spawn_stream ops node else other node)\<rparr>) cfg dummy_vk w"
    (is "_ = listener_handle_connection _ _ ?ops _ _ _")
proof -
  have loop: "stream_loop ?ops (NodeId_from_verifying_key cr dummy_vk) started v =
      stream_loop ops (NodeId_from_verifying_key cr dummy_vk) started v" for started v
    using stream_loop_agree [of ops "NodeId_from_verifying_key cr dummy_vk" started v _ ?ops]
      stream_loop_agree [of ?ops "NodeId_from_verifying_key cr dummy_vk" started v _ ops]
    by (cases "stream_loop ops (NodeId_from_verifying_key cr dummy_vk) started v";
        cases "stream_loop ?ops (NodeId_from_verifying_key cr dummy_vk) started v") auto
  have trunc: "quinn.truncate ?ops = quinn.truncate ops" by (simp add: quinn.defs)
  show ?thesis
    unfolding listener_handle_connection_def trunc
    by (auto simp: loop dest!: server_handshake_subject split: prod.splits option.splits sum.splits)
qed

section \<open>A lost connection\<close>

text \<open>
  C32. When the connection is lost, its task does not end: as long as the flag is not set, a failing
  \<^verbatim>\<open>accept_bi\<close> is retried at once, forever. \<open>dead\<close> is a set of states in which every
  \<^verbatim>\<open>accept_bi\<close> fails and the flag stays clear.
\<close>

theorem dead_connection_spins:
  assumes "\<forall>v. dead v \<longrightarrow> (\<exists>v1 e v2. lo_cancelled ops v = (False, v1) \<and> q_accept_bi ops v1 = (Inl e, v2) \<and> dead v2)"
    and "dead w"
  shows "stream_loop ops node started w = None"
proof (rule ccontr)
  assume "stream_loop ops node started w \<noteq> None"
  then obtain r where r: "stream_loop ops node started w = Some r" by blast
  have "ops = ops \<longrightarrow> \<not> dead w"
  proof (rule stream_loop.raw_induct [OF _ r, where P = "\<lambda>ops' node started w r. ops' = ops \<longrightarrow> \<not> dead w"], goal_cases)
    case (1 f ops' node started v r)
    then show ?case using assms(1) by (fastforce split: prod.splits sum.splits if_splits)
  qed
  with assms(2) show False by simp
qed

text \<open>Listener operations over a counter; the connection is lost and every call fails.\<close>

definition demo_dead :: "nat listener_ops" where
  "demo_dead =
     \<lparr>q_open_bi = (\<lambda>w. (Inl ''lost'', w)), q_accept_bi = (\<lambda>w. (Inl ''lost'', Suc w)),
      q_write_all = (\<lambda>s bs w. (Inl ''lost'', w)), q_finish = (\<lambda>s w. (Inl ''lost'', w)),
      q_read_exact = (\<lambda>s n w. (Inl ''lost'', w)), q_read = (\<lambda>s n w. (Inl ''lost'', w)), q_drop = (\<lambda>s w. w),
      lo_now = (\<lambda>w. (0, w)), lo_cancelled = (\<lambda>w. (False, w)), lo_close = (\<lambda>c m w. w),
      lo_spawn_stream = (\<lambda>n t s w. w), lo_local_addr = (\<lambda>w. (Inr ''addr'', w)), lo_accept = (\<lambda>w. (None, w)),
      lo_incoming_accept = (\<lambda>i w. (Inl ''lost'', w)), lo_connecting = (\<lambda>i w. (Inl ''lost'', w)),
      lo_spawn_connection = (\<lambda>i w. w)\<rparr>"

theorem dead_connection_spins_witness: "stream_loop demo_dead (NodeId ''n'') (Fin 0) 0 = None"
  by (rule dead_connection_spins [where dead = "\<lambda>_. True"]) (simp_all add: demo_dead_def)

lemma listener_stats_empty:
  "run_listener ops w = Some (Inr st, w') \<Longrightarrow> RelayStats_total st = 0"
  by (auto simp: run_listener_def RelayStats_total_def RelayStats_new_def hm_new_def
      split: prod.splits sum.splits option.splits)

section \<open>Relaying over QUIC\<close>

text \<open>
  \<open>finish_closes q base s fin\<close>: the documented behaviour of a finished send stream. Finishing
  closes it, further writes fail, and neither reads nor the relay's other calls reopen it.
\<close>

definition finish_closes :: "('w, 'z) quinn_scheme \<Rightarrow> 'w relay_env \<Rightarrow> stream_id \<Rightarrow> ('w \<Rightarrow> bool) \<Rightarrow> bool" where
  "finish_closes q base s fin \<longleftrightarrow>
     (\<forall>w w'. q_finish q s w = (Inr (), w') \<longrightarrow> fin w') \<and>
     (\<forall>w bs. fin w \<longrightarrow> (\<exists>e w'. q_write_all q s bs w = (Inl e, w'))) \<and>
     (\<forall>w n. fin w \<longrightarrow> fin (snd (q_read q s n w))) \<and>
     (\<forall>w. fin w \<longrightarrow> fin (snd (re_clock base w))) \<and>
     (\<forall>w l. fin w \<longrightarrow> fin (re_set_limiter base l w))"

definition reads_at_most :: "('w, 'z) quinn_scheme \<Rightarrow> stream_id \<Rightarrow> bool" where
  "reads_at_most q s \<longleftrightarrow> (\<forall>n w bs w'. q_read q s n w = (Inr (Some bs), w') \<longrightarrow> length bs \<le> n)"

lemma quic_env_simps [simp]:
  "re_read (quic_env q base s) = QuicRecvStream_read q s"
  "re_write_all (quic_env q base s) = QuicSendStream_write_all q s"
  "re_clock (quic_env q base s) = re_clock base"
  "re_limiter (quic_env q base s) = re_limiter base"
  "re_set_limiter (quic_env q base s) = re_set_limiter base"
  by (simp_all add: quic_env_def)

lemma quic_round_forward:
  assumes "finish_closes q base s fin" and "reads_at_most q s"
    and "relay_round (quic_env q base s) node w = (Inr chunk, w')"
  shows "fin w' \<and> length chunk \<le> RELAY_BUF"
proof -
  obtain r w1 where r: "q_read q s RELAY_BUF w = (r, w1)" by (cases "q_read q s RELAY_BUF w")
  with assms(3) have "r = Inr (Some chunk)" and "\<exists>v v'. q_write_all q s chunk v = (Inr (), v') \<and> q_finish q s v' = (Inr (), w')"
    by (auto simp: relay_round_def QuicRecvStream_read_def QuicSendStream_write_all_def Let_def
        split: prod.splits sum.splits option.splits if_splits)
  with assms(1,2) r show ?thesis by (auto simp: finish_closes_def reads_at_most_def)
qed

lemma quic_round_closed:
  assumes "finish_closes q base s fin" and "fin w"
  shows "relay_round (quic_env q base s) node w \<noteq> (Inr chunk, w')"
proof
  assume a: "relay_round (quic_env q base s) node w = (Inr chunk, w')"
  obtain r w1 where r: "q_read q s RELAY_BUF w = (r, w1)" by (cases "q_read q s RELAY_BUF w")
  let ?v = "snd (env_try_consume (quic_env q base s) node (fst (re_clock base w1)) (snd (re_clock base w1)))"
  have "\<forall>w n. fin w \<longrightarrow> fin (snd (q_read q s n w))" and c: "\<forall>w. fin w \<longrightarrow> fin (snd (re_clock base w))"
      and l: "\<forall>w l. fin w \<longrightarrow> fin (re_set_limiter base l w)"
      and wr: "\<forall>w bs. fin w \<longrightarrow> (\<exists>e w'. q_write_all q s bs w = (Inl e, w'))"
    using assms(1) by (auto simp: finish_closes_def)
  then have "fin w1" using assms(2) r by (metis snd_conv)
  then have "fin ?v" using c l by (simp add: env_try_consume_def case_prod_beta)
  then obtain e v' where "q_write_all q s chunk ?v = (Inl e, v')" using wr by blast
  with a r show False
    by (auto simp: relay_round_def QuicRecvStream_read_def QuicSendStream_write_all_def Let_def case_prod_beta
        split: prod.splits sum.splits option.splits if_splits)
qed

text \<open>
  C30. Over QUIC the relay forwards at most one buffer. Its write adapter finishes the stream after
  every write, so the second chunk can never be written: a connection ends after at most two rounds,
  and its log counts at most 8192 bytes forwarded.
\<close>

theorem quic_relay_one_chunk:
  assumes "finish_closes q base s fin" and "reads_at_most q s"
  shows "\<exists>conn_log w' n. Relay_handle_connection (quic_env q base s) cfg node started w = Some (conn_log, w') \<and>
    cl_bytes_out conn_log = of_nat n \<and> n \<le> 8192"
proof -
  let ?env = "quic_env q base s"
  have "\<exists>oc i out v' n. relay_pump ?env node 0 0 v = Some ((oc, i, out), v') \<and> out = of_nat n \<and> n \<le> 8192" for v
  proof (cases "relay_round ?env node v")
    case (Pair r v1)
    show ?thesis
    proof (cases r)
      case (Inl x)
      with Pair show ?thesis by (cases x) (force simp: relay_pump.simps [of ?env node 0 0 v])
    next
      case (Inr chunk)
      with Pair have "fin v1" and len: "length chunk \<le> 8192"
        using quic_round_forward [OF assms, of node v chunk v1] by (auto simp: RELAY_BUF_def)
      then have "\<nexists>c v2. relay_round ?env node v1 = (Inr c, v2)" using quic_round_closed [OF assms(1)] by blast
      then obtain oc k v2 where "relay_round ?env node v1 = (Inl (oc, k), v2)"
        by (metis obj_sumE prod.exhaust)
      then have "relay_pump ?env node 0 0 v =
          Some ((oc, of_nat (length chunk) + of_nat k, of_nat (length chunk)), v2)"
        using Pair Inr by (simp add: relay_pump.simps [of ?env node 0 0 v] relay_pump.simps [of ?env node _ _ v1])
      with len show ?thesis by blast
    qed
  qed
  then show ?thesis
    by (auto simp: handle_connection_eq Let_def case_prod_beta refused_log_def intro: exI [of _ 0])
      (metis (no_types, lifting) ConnectionLog.select_convs(4) fst_conv option.simps(9) snd_conv split_conv)
qed

text \<open>A stream as the flag of its finished sending side and the bytes still to be read.\<close>

definition demo_quic :: "(bool \<times> bytes) quinn" where
  "demo_quic =
     \<lparr>q_open_bi = (\<lambda>w. (Inr 0, w)), q_accept_bi = (\<lambda>w. (Inr 0, w)),
      q_write_all = (\<lambda>s bs w. if fst w then (Inl ''closed'', w) else (Inr (), w)),
      q_finish = (\<lambda>s w. (Inr (), (True, snd w))),
      q_read_exact = (\<lambda>s n w. (Inl ''unused'', w)),
      q_read = (\<lambda>s n w. (Inr (if snd w = [] then None else Some (take n (snd w))), (fst w, drop n (snd w)))),
      q_drop = (\<lambda>s w. w)\<rparr>"

definition demo_base :: "(bool \<times> bytes) relay_env" where
  "demo_base =
     \<lparr>re_limiter = (\<lambda>w. RateLimiter_new 100), re_set_limiter = (\<lambda>l w. w), re_clock = (\<lambda>w. (Fin 5, w)),
      re_read = (\<lambda>n w. (Inr [], w)), re_write_all = (\<lambda>bs w. (Inr (), w))\<rparr>"

theorem quic_relay_one_chunk_witness:
  "\<exists>conn_log w' n. Relay_handle_connection (quic_env demo_quic demo_base 0) demo_relay (NodeId ''n'') (Fin 5)
      (False, replicate 20000 7) = Some (conn_log, w') \<and> cl_bytes_out conn_log = of_nat n \<and> n \<le> 8192"
  by (rule quic_relay_one_chunk [where fin = fst])
    (auto simp: finish_closes_def reads_at_most_def demo_quic_def demo_base_def)

end
