(* ===== verification/Quic.thy ===== *)
theory Quic
  imports Ticket
begin

text \<open>
  \<^verbatim>\<open>src/quic/mod.rs\<close> and \<^verbatim>\<open>src/quic/endpoint.rs\<close>: transport profiles and the construction of
  endpoints. What \<^verbatim>\<open>quinn\<close>, \<^verbatim>\<open>rustls\<close> and \<^verbatim>\<open>rcgen\<close> decide (whether a certificate is accepted, whether
  a socket can be bound) enters as the record \<open>tls_crates\<close>; the configurations the program
  puts together are records of what it sets.
\<close>

section \<open>Profiles\<close>

record QuicTransportProfile =
  qp_name :: string
  qp_alpn :: string
  qp_max_idle_timeout_ms :: u64
  qp_keep_alive_interval_ms :: "u64 option"
  qp_max_concurrent_bidi_streams :: u32
  qp_max_concurrent_uni_streams :: u32
  qp_stream_receive_window_bytes :: u64
  qp_receive_window_bytes :: u64
  qp_send_window_bytes :: u64
  qp_datagram_receive_buffer_size_bytes :: "nat option"
  qp_datagram_send_buffer_size_bytes :: nat
  qp_initial_mtu :: u16
  qp_min_mtu :: u16
  qp_mtu_discovery_upper_bound :: "u16 option"
  qp_pad_datagrams_to_mtu :: bool
  qp_allow_spin :: bool
  qp_enable_segmentation_offload :: bool

definition low_latency_interactive :: "string \<Rightarrow> QuicTransportProfile" where
  "low_latency_interactive alpn =
     \<lparr>qp_name = ''low-latency-interactive'', qp_alpn = alpn,
      qp_max_idle_timeout_ms = 15000, qp_keep_alive_interval_ms = Some 4000,
      qp_max_concurrent_bidi_streams = 8, qp_max_concurrent_uni_streams = 32,
      qp_stream_receive_window_bytes = 256 * 1024, qp_receive_window_bytes = 2 * 1024 * 1024,
      qp_send_window_bytes = 2 * 1024 * 1024,
      qp_datagram_receive_buffer_size_bytes = Some (2 * 1024 * 1024),
      qp_datagram_send_buffer_size_bytes = 2 * 1024 * 1024,
      qp_initial_mtu = 1200, qp_min_mtu = 1200, qp_mtu_discovery_upper_bound = Some 1452,
      qp_pad_datagrams_to_mtu = False, qp_allow_spin = False, qp_enable_segmentation_offload = True\<rparr>"

definition relay_backhaul :: "string \<Rightarrow> QuicTransportProfile" where
  "relay_backhaul alpn =
     \<lparr>qp_name = ''relay-backhaul'', qp_alpn = alpn,
      qp_max_idle_timeout_ms = 30000, qp_keep_alive_interval_ms = Some 10000,
      qp_max_concurrent_bidi_streams = 32, qp_max_concurrent_uni_streams = 64,
      qp_stream_receive_window_bytes = 512 * 1024, qp_receive_window_bytes = 8 * 1024 * 1024,
      qp_send_window_bytes = 8 * 1024 * 1024,
      qp_datagram_receive_buffer_size_bytes = Some (4 * 1024 * 1024),
      qp_datagram_send_buffer_size_bytes = 4 * 1024 * 1024,
      qp_initial_mtu = 1200, qp_min_mtu = 1200, qp_mtu_discovery_upper_bound = Some 1452,
      qp_pad_datagrams_to_mtu = False, qp_allow_spin = False, qp_enable_segmentation_offload = True\<rparr>"

text \<open>
  The transport settings as the calls of the builder set them. \<open>varint\<close> is \<^verbatim>\<open>VarInt::from_u64\<close>, also
  behind \<^verbatim>\<open>IdleTimeout::try_from\<close>: whether a value fits a QUIC variable-length integer.
\<close>

record TransportSettings =
  tr_max_idle_timeout_ms :: u64
  tr_keep_alive_interval_ms :: "u64 option"
  tr_max_concurrent_bidi_streams :: u32
  tr_max_concurrent_uni_streams :: u32
  tr_stream_receive_window :: u64
  tr_receive_window :: u64
  tr_send_window :: u64
  tr_datagram_receive_buffer_size :: "nat option"
  tr_datagram_send_buffer_size :: nat
  tr_initial_mtu :: u16
  tr_min_mtu :: u16
  tr_pad_to_mtu :: bool
  tr_allow_spin :: bool
  tr_enable_segmentation_offload :: bool
  tr_mtu_discovery_upper_bound :: "u16 option"

datatype QuicProfileError = VarIntBounds

definition build_transport_config ::
  "(u64 \<Rightarrow> bool) \<Rightarrow> QuicTransportProfile \<Rightarrow> QuicProfileError + TransportSettings" where
  "build_transport_config varint p =
     (if \<not> varint (qp_max_idle_timeout_ms p) then Inl VarIntBounds
      else if \<not> varint (qp_stream_receive_window_bytes p) then Inl VarIntBounds
      else if \<not> varint (qp_receive_window_bytes p) then Inl VarIntBounds
      else Inr
        \<lparr>tr_max_idle_timeout_ms = qp_max_idle_timeout_ms p,
         tr_keep_alive_interval_ms = qp_keep_alive_interval_ms p,
         tr_max_concurrent_bidi_streams = qp_max_concurrent_bidi_streams p,
         tr_max_concurrent_uni_streams = qp_max_concurrent_uni_streams p,
         tr_stream_receive_window = qp_stream_receive_window_bytes p,
         tr_receive_window = qp_receive_window_bytes p,
         tr_send_window = qp_send_window_bytes p,
         tr_datagram_receive_buffer_size = qp_datagram_receive_buffer_size_bytes p,
         tr_datagram_send_buffer_size = qp_datagram_send_buffer_size_bytes p,
         tr_initial_mtu = qp_initial_mtu p, tr_min_mtu = qp_min_mtu p,
         tr_pad_to_mtu = qp_pad_datagrams_to_mtu p, tr_allow_spin = qp_allow_spin p,
         tr_enable_segmentation_offload = qp_enable_segmentation_offload p,
         tr_mtu_discovery_upper_bound = qp_mtu_discovery_upper_bound p\<rparr>)"

section \<open>Endpoint configuration\<close>

definition default_alpn_bytes :: string where
  "default_alpn_bytes = DEFAULT_ALPN"

definition DEFAULT_DEV_SAN :: string where
  "DEFAULT_DEV_SAN = ''localhost''"

datatype EndpointRole = Client | Server | Peer

record SocketAddr =
  sa_ip :: string
  sa_port :: u16

record QuicEndpointConfig =
  qc_bind :: SocketAddr
  qc_profile :: QuicTransportProfile
  qc_role :: EndpointRole

definition QuicEndpointConfig_peer :: "SocketAddr \<Rightarrow> QuicEndpointConfig" where
  "QuicEndpointConfig_peer bind =
     \<lparr>qc_bind = bind, qc_profile = low_latency_interactive DEFAULT_ALPN, qc_role = Peer\<rparr>"

definition QuicEndpointConfig_server :: "SocketAddr \<Rightarrow> QuicEndpointConfig" where
  "QuicEndpointConfig_server bind =
     \<lparr>qc_bind = bind, qc_profile = relay_backhaul DEFAULT_ALPN, qc_role = Server\<rparr>"

definition QuicEndpointConfig_client :: "SocketAddr \<Rightarrow> QuicEndpointConfig" where
  "QuicEndpointConfig_client bind =
     \<lparr>qc_bind = bind, qc_profile = low_latency_interactive DEFAULT_ALPN, qc_role = Client\<rparr>"

record DevCert =
  dc_cert_chain :: "bytes list"
  dc_private_key :: bytes

datatype QuicEndpointError =
    Rustls string
  | Rcgen string
  | Bind SocketAddr string
  | Profile QuicProfileError

text \<open>The TLS side of a server or client: certificates, roots and the protocols offered.\<close>

record ServerTls =
  st_cert :: DevCert
  st_alpn_protocols :: "string list"

record ClientTls =
  ct_roots :: "bytes list"
  ct_alpn_protocols :: "string list"

record tls_crates =
  tls_generate :: "string list \<Rightarrow> string + (bytes \<times> bytes)"
  tls_versions :: "string + unit"
  tls_single_cert :: "bytes list \<Rightarrow> bytes \<Rightarrow> string + unit"
  tls_add_root :: "bytes \<Rightarrow> string + unit"
  tls_quic_server :: "ServerTls \<Rightarrow> string + unit"
  tls_quic_client :: "ClientTls \<Rightarrow> string + unit"
  tls_varint :: "u64 \<Rightarrow> bool"
  tls_bind :: "SocketAddr \<Rightarrow> string + unit"

definition self_signed_dev_cert :: "tls_crates \<Rightarrow> string list \<Rightarrow> QuicEndpointError + DevCert" where
  "self_signed_dev_cert cr extra_sans =
     (let sans = DEFAULT_DEV_SAN # extra_sans in
      case tls_generate cr sans of
        Inl err \<Rightarrow> Inl (Rcgen err)
      | Inr (cert_der, key_der) \<Rightarrow> Inr \<lparr>dc_cert_chain = [cert_der], dc_private_key = key_der\<rparr>)"

definition rustls_server_config :: "tls_crates \<Rightarrow> DevCert \<Rightarrow> QuicEndpointError + ServerTls" where
  "rustls_server_config cr dev_cert =
     (case tls_versions cr of
        Inl err \<Rightarrow> Inl (Rustls err)
      | Inr _ \<Rightarrow>
     (case tls_single_cert cr (dc_cert_chain dev_cert) (dc_private_key dev_cert) of
        Inl err \<Rightarrow> Inl (Rustls err)
      | Inr _ \<Rightarrow> Inr \<lparr>st_cert = dev_cert, st_alpn_protocols = [default_alpn_bytes]\<rparr>))"

definition rustls_client_config :: "tls_crates \<Rightarrow> DevCert \<Rightarrow> QuicEndpointError + ClientTls" where
  "rustls_client_config cr dev_cert =
     (case dc_cert_chain dev_cert of
        [] \<Rightarrow> Inl (Rustls ''empty cert chain'')
      | cert # _ \<Rightarrow>
     (case tls_add_root cr cert of
        Inl err \<Rightarrow> Inl (Rustls err)
      | Inr _ \<Rightarrow>
     (case tls_versions cr of
        Inl err \<Rightarrow> Inl (Rustls err)
      | Inr _ \<Rightarrow> Inr \<lparr>ct_roots = [cert], ct_alpn_protocols = [default_alpn_bytes]\<rparr>)))"

definition rustls_pinned_client_config :: "tls_crates \<Rightarrow> bytes \<Rightarrow> string \<Rightarrow> QuicEndpointError + ClientTls" where
  "rustls_pinned_client_config cr cert_der alpn =
     (case tls_add_root cr cert_der of
        Inl err \<Rightarrow> Inl (Rustls err)
      | Inr _ \<Rightarrow>
     (case tls_versions cr of
        Inl err \<Rightarrow> Inl (Rustls err)
      | Inr _ \<Rightarrow> Inr \<lparr>ct_roots = [cert_der], ct_alpn_protocols = [alpn]\<rparr>))"

definition default_server_config :: "tls_crates \<Rightarrow> DevCert \<Rightarrow> QuicEndpointError + ServerTls" where
  "default_server_config cr dev_cert =
     (case rustls_server_config cr dev_cert of
        Inl e \<Rightarrow> Inl e
      | Inr cfg \<Rightarrow> (case tls_quic_server cr cfg of Inl err \<Rightarrow> Inl (Rustls err) | Inr _ \<Rightarrow> Inr cfg))"

definition default_client_config :: "tls_crates \<Rightarrow> DevCert \<Rightarrow> QuicEndpointError + ClientTls" where
  "default_client_config cr dev_cert =
     (case rustls_client_config cr dev_cert of
        Inl e \<Rightarrow> Inl e
      | Inr cfg \<Rightarrow> (case tls_quic_client cr cfg of Inl err \<Rightarrow> Inl (Rustls err) | Inr _ \<Rightarrow> Inr cfg))"

definition pinned_client_config_with_alpn :: "tls_crates \<Rightarrow> bytes \<Rightarrow> string \<Rightarrow> QuicEndpointError + ClientTls" where
  "pinned_client_config_with_alpn cr cert_der alpn =
     (case rustls_pinned_client_config cr cert_der alpn of
        Inl e \<Rightarrow> Inl e
      | Inr cfg \<Rightarrow> (case tls_quic_client cr cfg of Inl err \<Rightarrow> Inl (Rustls err) | Inr _ \<Rightarrow> Inr cfg))"

definition pinned_client_config :: "tls_crates \<Rightarrow> bytes \<Rightarrow> QuicEndpointError + ClientTls" where
  "pinned_client_config cr cert_der = pinned_client_config_with_alpn cr cert_der DEFAULT_ALPN"

text \<open>An endpoint is the address it is bound to, its TLS configuration and its transport.\<close>

record 'tls Endpoint =
  ep_bind :: SocketAddr
  ep_tls :: 'tls
  ep_transport :: TransportSettings

definition build_server_endpoint :: "tls_crates \<Rightarrow> QuicEndpointConfig \<Rightarrow> QuicEndpointError + ServerTls Endpoint" where
  "build_server_endpoint cr cfg =
     (case self_signed_dev_cert cr [] of
        Inl e \<Rightarrow> Inl e
      | Inr dev_cert \<Rightarrow>
     (case default_server_config cr dev_cert of
        Inl e \<Rightarrow> Inl e
      | Inr server_config \<Rightarrow>
     (case build_transport_config (tls_varint cr) (qc_profile cfg) of
        Inl e \<Rightarrow> Inl (Profile e)
      | Inr transport \<Rightarrow>
     (case tls_bind cr (qc_bind cfg) of
        Inl err \<Rightarrow> Inl (Bind (qc_bind cfg) err)
      | Inr _ \<Rightarrow> Inr \<lparr>ep_bind = qc_bind cfg, ep_tls = server_config, ep_transport = transport\<rparr>))))"

definition build_client_endpoint ::
  "tls_crates \<Rightarrow> QuicEndpointConfig \<Rightarrow> DevCert \<Rightarrow> QuicEndpointError + ClientTls Endpoint" where
  "build_client_endpoint cr cfg trust =
     (case default_client_config cr trust of
        Inl e \<Rightarrow> Inl e
      | Inr client_config \<Rightarrow>
     (case build_transport_config (tls_varint cr) (qc_profile cfg) of
        Inl e \<Rightarrow> Inl (Profile e)
      | Inr transport \<Rightarrow>
     (case tls_bind cr (qc_bind cfg) of
        Inl err \<Rightarrow> Inl (Bind (qc_bind cfg) err)
      | Inr _ \<Rightarrow> Inr \<lparr>ep_bind = qc_bind cfg, ep_tls = client_config, ep_transport = transport\<rparr>)))"

section \<open>Properties\<close>

text \<open>The documented range of a variable-length integer.\<close>

definition varint_range :: "(u64 \<Rightarrow> bool) \<Rightarrow> bool" where
  "varint_range varint \<longleftrightarrow> (\<forall>x. varint x \<longleftrightarrow> unat x < 2 ^ 62)"

text \<open>
  A profile builds exactly when its idle timeout and its two receive windows fit a QUIC
  variable-length integer, and then every setting is passed on unchanged. Both presets build for
  every ALPN, with a keep-alive shorter than the idle timeout, stream windows within the
  connection window and a discovery bound above the initial packet size.
\<close>

lemma profiles_build:
  assumes "varint_range varint"
  shows "(is_ok (build_transport_config varint p) \<longleftrightarrow>
      unat (qp_max_idle_timeout_ms p) < 2 ^ 62 \<and> unat (qp_stream_receive_window_bytes p) < 2 ^ 62 \<and>
      unat (qp_receive_window_bytes p) < 2 ^ 62) \<and>
    (\<forall>preset \<in> {low_latency_interactive alpn, relay_backhaul alpn}.
       \<exists>t k m. build_transport_config varint preset = Inr t \<and>
         tr_keep_alive_interval_ms t = Some k \<and> k < tr_max_idle_timeout_ms t \<and>
         tr_stream_receive_window t \<le> tr_receive_window t \<and>
         tr_mtu_discovery_upper_bound t = Some m \<and> tr_min_mtu t \<le> tr_initial_mtu t \<and> tr_initial_mtu t \<le> m \<and>
         qp_alpn preset = alpn)"
  using assms
  by (auto simp: varint_range_def build_transport_config_def low_latency_interactive_def relay_backhaul_def)

text \<open>Crates for which every step succeeds.\<close>

definition demo_tls :: tls_crates where
  "demo_tls = \<lparr>tls_generate = (\<lambda>_. Inr ([1], [2])), tls_versions = Inr (), tls_single_cert = (\<lambda>_ _. Inr ()),
     tls_add_root = (\<lambda>_. Inr ()), tls_quic_server = (\<lambda>_. Inr ()), tls_quic_client = (\<lambda>_. Inr ()),
     tls_varint = (\<lambda>_. True), tls_bind = (\<lambda>_. Inr ())\<rparr>"

end
