(* ===== verification/Tunnel.thy ===== *)
theory Tunnel
  imports Listener Quic "HOL-Library.Sublist"
begin

text \<open>
  \<^verbatim>\<open>src/transport/tunnel.rs\<close>: TCP over QUIC. The server task of a connection, the client's start-up and
  the bridge that copies bytes both ways between a QUIC stream and a TCP socket. The two copy
  loops of a bridge run concurrently; they are a step relation in which the environment answers
  each read and write, and the joined futures interleave freely.
\<close>

section \<open>Configuration\<close>

definition TUNNEL_ALPN :: string where
  "TUNNEL_ALPN = ''/snappipe/tunnel/0''"

record TunnelConfig =
  tn_quic_bind :: SocketAddr
  tn_target_addr :: SocketAddr
  tn_listen_addr :: SocketAddr
  tn_relay_addr :: SocketAddr

definition TunnelConfig_validate :: "TunnelConfig \<Rightarrow> string + unit" where
  "TunnelConfig_validate c =
     (if sa_port (tn_quic_bind c) = 0 then Inl ''TunnelConfig.quic_bind port is 0''
      else if sa_port (tn_target_addr c) = 0 then Inl ''TunnelConfig.target_addr port is 0''
      else if sa_port (tn_listen_addr c) = 0 then Inl ''TunnelConfig.listen_addr port is 0''
      else if sa_port (tn_relay_addr c) = 0 then Inl ''TunnelConfig.relay_addr port is 0''
      else Inr ())"

definition TunnelConfig_validate_server :: "TunnelConfig \<Rightarrow> string + unit" where
  "TunnelConfig_validate_server c =
     (if sa_port (tn_quic_bind c) = 0 then Inl ''TunnelConfig.quic_bind is required for the server role''
      else if sa_port (tn_target_addr c) = 0 then Inl ''TunnelConfig.target_addr is required for the server role''
      else Inr ())"

definition TunnelConfig_validate_client :: "TunnelConfig \<Rightarrow> string + unit" where
  "TunnelConfig_validate_client c =
     (if sa_port (tn_listen_addr c) = 0 then Inl ''TunnelConfig.listen_addr is required for the client role''
      else if sa_port (tn_relay_addr c) = 0 then Inl ''TunnelConfig.relay_addr is required for the client role''
      else Inr ())"

fun ticket_error_label :: "TicketError \<Rightarrow> string" where
  "ticket_error_label Expired = ''expired''"
| "ticket_error_label InvalidKeyEncoding = ''invalid_key_encoding''"
| "ticket_error_label InvalidSignatureEncoding = ''invalid_signature_encoding''"
| "ticket_error_label InvalidSignature = ''invalid_signature''"
| "ticket_error_label (UnsupportedVersion _) = ''unsupported_version''"
| "ticket_error_label (Serialization _) = ''serialization''"

section \<open>The bridge\<close>

text \<open>
  One copy loop is where it stands: about to read, about to write a chunk, about to close its
  sink, or at its end. \<open>copy_next\<close> is the control of the loop given the answer to the call it is
  waiting for: every end and every error leads to the closing of the sink, whose own result is
  ignored.
\<close>

datatype copy_phase = Reading | Writing bytes | Closing | Ended

text \<open>A failed write reports how many bytes had gone out before it failed.\<close>

datatype answer = Chunk bytes | Eof | ReadFailed | Written | WriteFailed nat | CloseDone

fun copy_next :: "copy_phase \<Rightarrow> answer \<Rightarrow> copy_phase option" where
  "copy_next Reading (Chunk bs) = Some (if bs = [] then Closing else Writing bs)"
| "copy_next Reading Eof = Some Closing"
| "copy_next Reading ReadFailed = Some Closing"
| "copy_next (Writing _) Written = Some Reading"
| "copy_next (Writing _) (WriteFailed _) = Some Closing"
| "copy_next Closing CloseDone = Some Ended"
| "copy_next _ _ = None"

text \<open>
  A direction of the bridge: the bytes its source will still yield, what has been written to its
  sink, whether the sink was closed, and whether a call has failed.
\<close>

record direction =
  dr_phase :: copy_phase
  dr_source :: bytes
  dr_sink :: bytes
  dr_closed :: bool
  dr_failed :: bool

definition direction_start :: "bytes \<Rightarrow> direction" where
  "direction_start source =
     \<lparr>dr_phase = Reading, dr_source = source, dr_sink = [], dr_closed = False, dr_failed = False\<rparr>"

definition BRIDGE_BUF :: nat where
  "BRIDGE_BUF = 8192"

text \<open>
  The environment: a read yields a non-empty piece of the source of at most the buffer's size, or
  the end once the source is exhausted, or an error; a failed write may have written a part.
\<close>

inductive copy_step :: "direction \<Rightarrow> direction \<Rightarrow> bool" where
  read_chunk: "dr_source d = bs @ rest \<Longrightarrow> bs \<noteq> [] \<Longrightarrow> length bs \<le> BRIDGE_BUF \<Longrightarrow>
    copy_next (dr_phase d) (Chunk bs) = Some ph \<Longrightarrow> copy_step d (d\<lparr>dr_phase := ph, dr_source := rest\<rparr>)"
| read_eof: "dr_source d = [] \<Longrightarrow> copy_next (dr_phase d) Eof = Some ph \<Longrightarrow> copy_step d (d\<lparr>dr_phase := ph\<rparr>)"
| read_failed: "copy_next (dr_phase d) ReadFailed = Some ph \<Longrightarrow> copy_step d (d\<lparr>dr_phase := ph, dr_failed := True\<rparr>)"
| written: "dr_phase d = Writing bs \<Longrightarrow> copy_next (dr_phase d) Written = Some ph \<Longrightarrow>
    copy_step d (d\<lparr>dr_phase := ph, dr_sink := dr_sink d @ bs\<rparr>)"
| write_failed: "dr_phase d = Writing bs \<Longrightarrow> copy_next (dr_phase d) (WriteFailed k) = Some ph \<Longrightarrow>
    copy_step d (d\<lparr>dr_phase := ph, dr_sink := dr_sink d @ take k bs, dr_failed := True\<rparr>)"
| close_sink: "copy_next (dr_phase d) CloseDone = Some ph \<Longrightarrow> copy_step d (d\<lparr>dr_phase := ph, dr_closed := True\<rparr>)"

fun pending :: "copy_phase \<Rightarrow> bytes" where
  "pending (Writing bs) = bs"
| "pending _ = []"

text \<open>
  The same step as a function of the environment's answer; \<open>None\<close> is an answer the environment cannot give
  there.
\<close>

fun copy_apply :: "answer \<Rightarrow> direction \<Rightarrow> direction option" where
  "copy_apply an d =
     (case copy_next (dr_phase d) an of
        None \<Rightarrow> None
      | Some ph \<Rightarrow>
     (case an of
        Chunk bs \<Rightarrow>
          if bs \<noteq> [] \<and> length bs \<le> BRIDGE_BUF \<and> take (length bs) (dr_source d) = bs
          then Some (d\<lparr>dr_phase := ph, dr_source := drop (length bs) (dr_source d)\<rparr>) else None
      | Eof \<Rightarrow> if dr_source d = [] then Some (d\<lparr>dr_phase := ph\<rparr>) else None
      | ReadFailed \<Rightarrow> Some (d\<lparr>dr_phase := ph, dr_failed := True\<rparr>)
      | Written \<Rightarrow> Some (d\<lparr>dr_phase := ph, dr_sink := dr_sink d @ pending (dr_phase d)\<rparr>)
      | WriteFailed k \<Rightarrow>
          Some (d\<lparr>dr_phase := ph, dr_sink := dr_sink d @ take k (pending (dr_phase d)), dr_failed := True\<rparr>)
      | CloseDone \<Rightarrow> Some (d\<lparr>dr_phase := ph, dr_closed := True\<rparr>)))"

text \<open>\<^verbatim>\<open>tokio::join!\<close>: the two directions interleave, and the bridge ends when both have ended.\<close>

inductive bridge_step :: "direction \<times> direction \<Rightarrow> direction \<times> direction \<Rightarrow> bool" where
  qs_to_tcp: "copy_step a a' \<Longrightarrow> bridge_step (a, b) (a', b)"
| tcp_to_qs: "copy_step b b' \<Longrightarrow> bridge_step (a, b) (a, b')"

definition bridge_quic_to_tcp :: "bytes \<Rightarrow> bytes \<Rightarrow> direction \<times> direction \<Rightarrow> bool" where
  "bridge_quic_to_tcp from_quic from_tcp =
     bridge_step\<^sup>*\<^sup>* (direction_start from_quic, direction_start from_tcp)"

definition bridge_ended :: "direction \<times> direction \<Rightarrow> bool" where
  "bridge_ended s \<longleftrightarrow> dr_phase (fst s) = Ended \<and> dr_phase (snd s) = Ended"

text \<open>A schedule: which direction moves, and what it is answered.\<close>

fun bridge_exec :: "(bool \<times> answer) list \<Rightarrow> direction \<times> direction \<Rightarrow> (direction \<times> direction) option" where
  "bridge_exec [] s = Some s"
| "bridge_exec ((quic_side, an) # sched) (a, b) =
     (if quic_side
      then (case copy_apply an a of None \<Rightarrow> None | Some a' \<Rightarrow> bridge_exec sched (a', b))
      else (case copy_apply an b of None \<Rightarrow> None | Some b' \<Rightarrow> bridge_exec sched (a, b')))"

text \<open>
  The tasks spawned for a stream. On the server the target is dialled first; if that fails, the
  QUIC stream is finished and both ends are dropped. On the client the stream is opened first; if
  that fails, the socket is dropped. The first component of a state is the direction from QUIC to
  TCP.
\<close>

definition direction_dropped :: "bytes \<Rightarrow> bool \<Rightarrow> direction" where
  "direction_dropped source finished =
     (direction_start source)\<lparr>dr_phase := Ended, dr_closed := finished, dr_failed := True\<rparr>"

definition server_stream_task :: "string + unit \<Rightarrow> bytes \<Rightarrow> bytes \<Rightarrow> direction \<times> direction \<Rightarrow> bool" where
  "server_stream_task dial from_quic from_tcp s =
     (case dial of
        Inl err \<Rightarrow> s = (direction_dropped from_quic False, direction_dropped from_tcp True)
      | Inr _ \<Rightarrow> bridge_quic_to_tcp from_quic from_tcp s)"

definition client_stream_task :: "string + unit \<Rightarrow> bytes \<Rightarrow> bytes \<Rightarrow> direction \<times> direction \<Rightarrow> bool" where
  "client_stream_task opened from_quic from_tcp s =
     (case opened of
        Inl err \<Rightarrow> s = (direction_dropped from_quic False, direction_dropped from_tcp False)
      | Inr _ \<Rightarrow> bridge_quic_to_tcp from_quic from_tcp s)"

section \<open>The server\<close>

text \<open>\<open>to_spawn_bridge\<close> starts the task of an accepted stream, which then runs beside the loop.\<close>

record 'w tunnel_ops = "'w listener_ops" +
  to_spawn_bridge :: "SocketAddr \<Rightarrow> stream_id \<Rightarrow> 'w \<Rightarrow> 'w"

text \<open>The loop over the streams of a connection; a failed \<^verbatim>\<open>accept_bi\<close> ends it.\<close>

partial_function (option) tunnel_stream_loop :: "('w, 'z) tunnel_ops_scheme \<Rightarrow> SocketAddr \<Rightarrow> 'w \<Rightarrow> 'w option" where
  "tunnel_stream_loop ops target w =
     (case lo_cancelled ops w of (cancelled, w1) \<Rightarrow>
        if cancelled then Some w1 else
          (case q_accept_bi ops w1 of
             (Inl e, w2) \<Rightarrow> Some w2
           | (Inr s, w2) \<Rightarrow> tunnel_stream_loop ops target (to_spawn_bridge ops target s w2)))"

text \<open>The outer option is \<open>None\<close> if the task never ends, the inner one if it panics.\<close>

definition handle_tunnel_connection ::
  "('sk, 'vk, 'sg, 'y) session_crates_scheme \<Rightarrow> (nat \<Rightarrow> bool) \<Rightarrow> ('w, 'z) tunnel_ops_scheme \<Rightarrow> SocketAddr \<Rightarrow>
     TrustCheck \<Rightarrow> 'vk \<Rightarrow> 'vk \<Rightarrow> 'w \<Rightarrow> ((string + unit) option \<times> 'w) option" where
  "handle_tunnel_connection cr alloc ops target_addr trust issuer_key expected_subject w =
     (case q_accept_bi ops w of
        (Inl err, w1) \<Rightarrow> Some (Some (Inl (''accept handshake stream: '' @ err)), w1)
      | (Inr s, w1) \<Rightarrow>
     (case lo_now ops w1 of (t, w2) \<Rightarrow>
     (case now_unix_seconds t of
        None \<Rightarrow> Some (None, q_drop ops s w2)
      | Some now \<Rightarrow>
     (case server_handshake cr alloc (quinn.truncate ops) s issuer_key expected_subject trust now w2 of
        (None, w3) \<Rightarrow> Some (None, w3)
      | (Some (Inl err), w3) \<Rightarrow> Some (Some (Inr ()), lo_close ops 0 ''handshake failed'' w3)
      | (Some (Inr summary), w3) \<Rightarrow>
          (case tunnel_stream_loop ops target_addr w3 of
             None \<Rightarrow> None
           | Some w4 \<Rightarrow> Some (Some (Inr ()), w4))))))"

definition tunnel_serve_loop :: "('w, 'z) tunnel_ops_scheme \<Rightarrow> 'w \<Rightarrow> ((string + unit) \<times> 'w) option" where
  "tunnel_serve_loop ops w = map_option (Pair (Inr ())) (accept_loop ops w)"

section \<open>The client\<close>

datatype TunnelError =
    ReadTicket path io_error
  | ParseTicket path string
  | ReadSecretKey path io_error
  | DecodeSecretKey TicketError
  | ConnectToRelay string
  | RelayHandshake string
  | LocalVerification string
  | ServerRejected SessionError
  | BindLocal SocketAddr string
  | ClientEndpoint string
  | ClientTlsError QuicEndpointError

record 'w client_ops = "'w quinn" +
  co_now :: "'w \<Rightarrow> system_time \<times> 'w"
  co_connect :: "SocketAddr \<Rightarrow> string \<Rightarrow> 'w \<Rightarrow> (string + unit) \<times> 'w"
  co_connecting :: "'w \<Rightarrow> (string + unit) \<times> 'w"
  co_tcp_accept :: "'w \<Rightarrow> (string + nat) \<times> 'w"
  co_spawn_bridge :: "nat \<Rightarrow> 'w \<Rightarrow> 'w"
  co_tcp_bind :: "SocketAddr \<Rightarrow> 'w \<Rightarrow> (string + unit) \<times> 'w"
  co_endpoint_client :: "'w \<Rightarrow> (string + unit) \<times> 'w"
  co_set_client_config :: "ClientTls \<Rightarrow> 'w \<Rightarrow> 'w"

text \<open>The accept loop of the client has no exit.\<close>

partial_function (option) client_accept_loop :: "('w, 'z) client_ops_scheme \<Rightarrow> 'w \<Rightarrow> 'w option" where
  "client_accept_loop ops w =
     (case co_tcp_accept ops w of
        (Inl err, w1) \<Rightarrow> client_accept_loop ops w1
      | (Inr tcp, w1) \<Rightarrow> client_accept_loop ops (co_spawn_bridge ops tcp w1))"

text \<open>
  Up to the accept loop the client is a computation that ends. \<open>ticket_from_str\<close> is \<^verbatim>\<open>serde_json::from_str\<close>;
  files are read from \<open>fs\<close>.
\<close>

definition connect_prepare ::
  "('sk, 'vk, 'sg, 'y) crates_scheme \<Rightarrow> (string \<Rightarrow> string + SignedTicket) \<Rightarrow> file_system \<Rightarrow>
     ('w, 'z) client_ops_scheme \<Rightarrow> SocketAddr \<Rightarrow> path \<Rightarrow> 'vk \<Rightarrow> path \<Rightarrow> ('w, TunnelError, SignedTicket) io" where
  "connect_prepare cr ticket_from_str fs ops relay_addr ticket_path issuer_public_key client_secret_key_path =
     io_bind (io_result (map_err (ReadTicket ticket_path) (fs_read_to_string fs ticket_path))) (\<lambda>ticket_raw.
     io_bind (io_result (map_err (ParseTicket ticket_path) (ticket_from_str (trim ticket_raw)))) (\<lambda>ticket.
     io_bind (io_result (map_err (ReadSecretKey client_secret_key_path) (fs_read_to_string fs client_secret_key_path))) (\<lambda>secret_raw.
     io_bind (io_result (map_err DecodeSecretKey (decode_secret_key cr (trim secret_raw)))) (\<lambda>_.
     io_bind (io_call ConnectToRelay (co_connect ops relay_addr ''localhost'')) (\<lambda>_.
     io_bind (io_call RelayHandshake (co_connecting ops)) (\<lambda>_.
     io_bind (\<lambda>w. case co_now ops w of (t, w') \<Rightarrow> (map_option Inr (now_unix_seconds t), w')) (\<lambda>now.
     io_bind (io_result (map_err (\<lambda>err. LocalVerification (ticket_error_label err))
        (verify_ticket cr ticket issuer_public_key now))) (\<lambda>_.
     io_ok ticket))))))))"

definition connect_setup ::
  "('sk, 'vk, 'sg, 'y) session_crates_scheme \<Rightarrow> (string \<Rightarrow> string + SignedTicket) \<Rightarrow> (nat \<Rightarrow> bool) \<Rightarrow> file_system \<Rightarrow>
     ('w, 'z) client_ops_scheme \<Rightarrow> SocketAddr \<Rightarrow> path \<Rightarrow> 'vk \<Rightarrow> path \<Rightarrow> ('w, TunnelError, HandshakeSummary) io" where
  "connect_setup cr ticket_from_str alloc fs ops relay_addr ticket_path issuer_public_key client_secret_key_path =
     io_bind (connect_prepare cr ticket_from_str fs ops relay_addr ticket_path issuer_public_key client_secret_key_path) (\<lambda>ticket.
     io_map_err ServerRejected (client_handshake cr alloc (quinn.truncate ops) ticket))"

definition connect_with ::
  "('sk, 'vk, 'sg, 'y) session_crates_scheme \<Rightarrow> (string \<Rightarrow> string + SignedTicket) \<Rightarrow> (nat \<Rightarrow> bool) \<Rightarrow> file_system \<Rightarrow>
     ('w, 'z) client_ops_scheme \<Rightarrow> SocketAddr \<Rightarrow> path \<Rightarrow> 'vk \<Rightarrow> path \<Rightarrow> 'w \<Rightarrow> ((TunnelError + unit) option \<times> 'w) option" where
  "connect_with cr ticket_from_str alloc fs ops relay_addr ticket_path issuer_public_key client_secret_key_path w =
     (case connect_setup cr ticket_from_str alloc fs ops relay_addr ticket_path issuer_public_key client_secret_key_path w of
        (None, w') \<Rightarrow> Some (None, w')
      | (Some (Inl e), w') \<Rightarrow> Some (Some (Inl e), w')
      | (Some (Inr _), w') \<Rightarrow> map_option (Pair (Some (Inr ()))) (client_accept_loop ops w'))"

definition tunnel_connect_cfg ::
  "('sk, 'vk, 'sg, 'y) session_crates_scheme \<Rightarrow> tls_crates \<Rightarrow> (string \<Rightarrow> string + SignedTicket) \<Rightarrow> (nat \<Rightarrow> bool) \<Rightarrow> file_system \<Rightarrow>
     ('w, 'z) client_ops_scheme \<Rightarrow> TunnelConfig \<Rightarrow> path \<Rightarrow> path \<Rightarrow> bytes \<Rightarrow> 'vk \<Rightarrow> string \<Rightarrow> 'w \<Rightarrow>
     ((TunnelError + unit) option \<times> 'w) option" where
  "tunnel_connect_cfg cr tls ticket_from_str alloc fs ops cfg ticket_path client_secret_key_path server_cert_der
       issuer_public_key alpn w =
     (case co_tcp_bind ops (tn_listen_addr cfg) w of
        (Inl err, w1) \<Rightarrow> Some (Some (Inl (BindLocal (tn_listen_addr cfg) err)), w1)
      | (Inr _, w1) \<Rightarrow>
     (case co_endpoint_client ops w1 of
        (Inl err, w2) \<Rightarrow> Some (Some (Inl (ClientEndpoint err)), w2)
      | (Inr _, w2) \<Rightarrow>
     (case pinned_client_config_with_alpn tls server_cert_der alpn of
        Inl e \<Rightarrow> Some (Some (Inl (ClientTlsError e)), w2)
      | Inr client_config \<Rightarrow>
          connect_with cr ticket_from_str alloc fs ops (tn_relay_addr cfg) ticket_path issuer_public_key
            client_secret_key_path (co_set_client_config ops client_config w2))))"

section \<open>What a bridge delivers\<close>

inductive_cases copy_stepE: "copy_step d d'"
inductive_cases bridge_stepE: "bridge_step s s'"

lemma copy_next_Some:
  "copy_next ph an = Some ph' \<longleftrightarrow>
     ph = Reading \<and> (\<exists>bs. an = Chunk bs \<and> ph' = (if bs = [] then Closing else Writing bs)) \<or>
     ph = Reading \<and> (an = Eof \<or> an = ReadFailed) \<and> ph' = Closing \<or>
     (\<exists>bs. ph = Writing bs) \<and> (an = Written \<and> ph' = Reading \<or> (\<exists>k. an = WriteFailed k) \<and> ph' = Closing) \<or>
     ph = Closing \<and> an = CloseDone \<and> ph' = Ended"
  by (cases "(ph, an)" rule: copy_next.cases) auto

lemma copy_step_iff_apply: "copy_step d d' \<longleftrightarrow> (\<exists>an. copy_apply an d = Some d')"
proof
  assume "copy_step d d'"
  then show "\<exists>an. copy_apply an d = Some d'"
  proof (cases rule: copy_step.cases)
    case (read_chunk bs rest ph)
    then show ?thesis by (intro exI [of _ "Chunk bs"]) simp
  next
    case (read_eof ph)
    then show ?thesis by (intro exI [of _ Eof]) simp
  next
    case (read_failed ph)
    then show ?thesis by (intro exI [of _ ReadFailed]) simp
  next
    case (written bs ph)
    then show ?thesis by (intro exI [of _ Written]) simp
  next
    case (write_failed bs k ph)
    then show ?thesis by (intro exI [of _ "WriteFailed k"]) simp
  next
    case (close_sink ph)
    then show ?thesis by (intro exI [of _ CloseDone]) simp
  qed
next
  assume "\<exists>an. copy_apply an d = Some d'"
  then obtain an where an: "copy_apply an d = Some d'" by blast
  show "copy_step d d'"
  proof (cases an)
    case (Chunk bs)
    with an read_chunk [of d bs "drop (length bs) (dr_source d)"] show ?thesis
      by (auto split: option.splits if_splits) (metis append_take_drop_id)
  qed (use an read_eof [of d] read_failed [of d] written [of d] write_failed [of d] close_sink [of d]
      in \<open>auto simp: copy_next_Some split: option.splits if_splits\<close>)
qed

declare copy_apply.simps [simp del]

text \<open>The relation is what some schedule does.\<close>

lemma bridge_exec_steps: "bridge_exec sched s = Some s' \<Longrightarrow> bridge_step\<^sup>*\<^sup>* s s'"
proof (induction sched s rule: bridge_exec.induct)
  case (2 quic_side an sched a b)
  show ?case
  proof (cases quic_side)
    case True
    with "2.prems" obtain a' where "copy_apply an a = Some a'" "bridge_exec sched (a', b) = Some s'"
      by (auto split: option.splits)
    with True "2.IH"(1) [of a'] show ?thesis
      by (meson bridge_step.qs_to_tcp converse_rtranclp_into_rtranclp copy_step_iff_apply)
  next
    case False
    with "2.prems" obtain b' where "copy_apply an b = Some b'" "bridge_exec sched (a, b') = Some s'"
      by (auto split: option.splits)
    with False "2.IH"(2) [of b'] show ?thesis
      by (meson bridge_step.tcp_to_qs converse_rtranclp_into_rtranclp copy_step_iff_apply)
  qed
qed simp

lemma bridge_steps_exec: "bridge_step\<^sup>*\<^sup>* s s' \<Longrightarrow> \<exists>sched. bridge_exec sched s = Some s'"
proof (induction rule: converse_rtranclp_induct)
  case base
  show ?case by (intro exI [of _ "[]"]) simp
next
  case (step s m)
  then obtain sched where sched: "bridge_exec sched m = Some s'" by blast
  from step(1) show ?case
  proof cases
    case (qs_to_tcp a a' b)
    then obtain an where "copy_apply an a = Some a'" by (auto simp only: copy_step_iff_apply)
    with qs_to_tcp sched show ?thesis by (intro exI [of _ "(True, an) # sched"]) simp
  next
    case (tcp_to_qs b b' a)
    then obtain an where "copy_apply an b = Some b'" by (auto simp only: copy_step_iff_apply)
    with tcp_to_qs sched show ?thesis by (intro exI [of _ "(False, an) # sched"]) simp
  qed
qed

text \<open>
  The invariant of a direction that started with \<open>src\<close>: without a failure nothing is lost or
  reordered, a failed direction has delivered a prefix and reads no more, and only a direction
  that has ended has closed its sink.
\<close>

definition direction_inv :: "bytes \<Rightarrow> direction \<Rightarrow> bool" where
  "direction_inv src d \<longleftrightarrow>
     (if dr_failed d then prefix (dr_sink d) src \<and> dr_phase d \<in> {Closing, Ended}
      else dr_sink d @ pending (dr_phase d) @ dr_source d = src \<and>
        (dr_phase d \<in> {Closing, Ended} \<longrightarrow> dr_source d = [])) \<and>
     (dr_closed d \<longleftrightarrow> dr_phase d = Ended)"

lemma prefix_take_append: "prefix (take k xs) (xs @ ys)"
  by (metis append_assoc append_take_drop_id prefixI)

lemma direction_inv_start: "direction_inv src (direction_start src)"
  by (simp add: direction_inv_def direction_start_def)

lemma direction_inv_step: "copy_step d d' \<Longrightarrow> direction_inv src d \<Longrightarrow> direction_inv src d'"
  by (erule copy_stepE)
    (auto simp: copy_next_Some direction_inv_def prefix_take_append split: if_splits)

lemma bridge_inv:
  assumes "bridge_quic_to_tcp a b s"
  shows "direction_inv a (fst s) \<and> direction_inv b (snd s)"
  using assms unfolding bridge_quic_to_tcp_def
  by (induction rule: rtranclp_induct)
    (auto simp: direction_inv_start elim!: bridge_stepE dest: direction_inv_step)

text \<open>The measure of a direction, which every step decreases.\<close>

fun phase_weight :: "copy_phase \<Rightarrow> nat" where
  "phase_weight Reading = 2"
| "phase_weight (Writing _) = 3"
| "phase_weight Closing = 1"
| "phase_weight Ended = 0"

definition direction_weight :: "direction \<Rightarrow> nat" where
  "direction_weight d = 2 * length (dr_source d) + phase_weight (dr_phase d)"

lemma direction_weight_step: "copy_step d d' \<Longrightarrow> direction_weight d' < direction_weight d"
  by (erule copy_stepE) (auto simp: copy_next_Some direction_weight_def neq_Nil_conv)

definition bridge_weight :: "direction \<times> direction \<Rightarrow> nat" where
  "bridge_weight s = direction_weight (fst s) + direction_weight (snd s)"

lemma bridge_weight_step: "bridge_step s s' \<Longrightarrow> bridge_weight s' < bridge_weight s"
  by (erule bridge_stepE) (auto simp: bridge_weight_def dest: direction_weight_step)

lemma bridge_steps_bounded:
  "(bridge_step ^^ n) s s' \<Longrightarrow> n + bridge_weight s' \<le> bridge_weight s"
proof (induction n arbitrary: s')
  case (Suc n)
  then obtain m where "(bridge_step ^^ n) s m" and "bridge_step m s'" by auto
  with Suc.IH [of m] bridge_weight_step [of m s'] show ?case by simp
qed simp

text \<open>
  A direction that has not ended can always go on, even without a failure: the end is reached
  from wherever it stands.
\<close>

lemma copy_progress: "dr_phase d \<noteq> Ended \<Longrightarrow> \<exists>d'. copy_step d d' \<and> dr_failed d' = dr_failed d"
proof (cases "dr_phase d")
  case Reading
  show ?thesis
  proof (cases "dr_source d")
    case Nil
    with Reading show ?thesis using read_eof [of d Closing] by auto
  next
    case (Cons x xs)
    with Reading show ?thesis using read_chunk [of d "[x]" xs "Writing [x]"] by (auto simp: BRIDGE_BUF_def)
  qed
next
  case (Writing bs)
  then show ?thesis using written [of d bs Reading] by auto
next
  case Closing
  then show ?thesis using close_sink [of d Ended] by auto
qed simp

lemma bridge_progress:
  "\<not> bridge_ended s \<Longrightarrow> \<exists>s'. bridge_step s s' \<and> dr_failed (fst s') = dr_failed (fst s) \<and> dr_failed (snd s') = dr_failed (snd s)"
  by (cases s) (auto simp: bridge_ended_def dest!: copy_progress intro: qs_to_tcp tcp_to_qs; metis fst_conv snd_conv qs_to_tcp tcp_to_qs)

lemma bridge_reaches_end:
  "\<exists>s'. bridge_step\<^sup>*\<^sup>* s s' \<and> bridge_ended s' \<and> dr_failed (fst s') = dr_failed (fst s) \<and> dr_failed (snd s') = dr_failed (snd s)"
proof (induction "bridge_weight s" arbitrary: s rule: less_induct)
  case less
  show ?case
  proof (cases "bridge_ended s")
    case False
    then obtain m where "bridge_step s m" "dr_failed (fst m) = dr_failed (fst s)" "dr_failed (snd m) = dr_failed (snd s)"
      using bridge_progress by blast
    with less [of m] bridge_weight_step [of s m] show ?thesis
      by (metis converse_rtranclp_into_rtranclp)
  qed blast
qed

text \<open>
  C8. What the tasks of a tunnelled stream deliver, for every interleaving of the two directions and
  every failure of a read or a write: each side has received a prefix of what the other
  sent, in order and once; a sink is closed only by a direction that has ended; and a direction that
  ended without a failure has delivered everything and closed its sink. If the target cannot be
  dialled nothing is delivered and the QUIC stream is finished.
\<close>

theorem tunnel_stream_delivers:
  assumes "server_stream_task r a b s \<or> client_stream_task r a b s"
  shows "prefix (dr_sink (fst s)) a \<and> prefix (dr_sink (snd s)) b \<and>
    (\<forall>(d, src) \<in> {(fst s, a), (snd s, b)}.
       (dr_closed d \<longrightarrow> dr_phase d = Ended) \<and>
       (dr_phase d = Ended \<and> \<not> dr_failed d \<longrightarrow> dr_sink d = src \<and> dr_closed d)) \<and>
    (server_stream_task r a b s \<and> \<not> is_ok r \<longrightarrow> dr_sink (fst s) = [] \<and> dr_sink (snd s) = [] \<and> dr_closed (snd s))"
proof (cases r)
  case (Inl e)
  with assms show ?thesis
    by (auto simp: server_stream_task_def client_stream_task_def direction_dropped_def direction_start_def)
next
  case (Inr u)
  with assms have "direction_inv a (fst s) \<and> direction_inv b (snd s)"
    using bridge_inv by (auto simp: server_stream_task_def client_stream_task_def)
  then show ?thesis using Inr by (auto simp: direction_inv_def split: if_splits)
qed

text \<open>
  C9. A bridge always ends: a run from two sources takes at most twice their length plus four steps,
  whatever the environment answers, and from every state it can reach both directions go on to
  their end.
\<close>

theorem bridge_terminates:
  "((bridge_step ^^ n) (direction_start a, direction_start b) s \<longrightarrow> n \<le> 2 * (length a + length b) + 4) \<and>
   (bridge_quic_to_tcp a b s \<longrightarrow> bridge_ended s \<or> (\<exists>s'. bridge_step s s')) \<and>
   (bridge_quic_to_tcp a b s \<longrightarrow> (\<exists>s'. bridge_step\<^sup>*\<^sup>* s s' \<and> bridge_ended s'))"
proof -
  have "bridge_weight (direction_start a, direction_start b) = 2 * (length a + length b) + 4"
    by (simp add: bridge_weight_def direction_weight_def direction_start_def)
  then show ?thesis
    using bridge_steps_bounded [of n "(direction_start a, direction_start b)" s]
      bridge_progress [of s] bridge_reaches_end [of s] by auto
qed

text \<open>
  A run in which the two directions alternate: the bytes from QUIC arrive in two chunks, a write to QUIC
  fails after one byte.
\<close>

definition demo_schedule :: "(bool \<times> answer) list" where
  "demo_schedule =
     [(True, Chunk [1]), (False, Chunk [3, 4]), (True, Written), (False, WriteFailed 1), (True, Chunk [2]),
      (True, Written), (False, CloseDone), (True, Eof), (True, CloseDone)]"

theorem tunnel_stream_delivers_witness:
  "\<exists>s. bridge_exec demo_schedule (direction_start [1, 2], direction_start [3, 4]) = Some s \<and> bridge_ended s \<and>
     dr_sink (fst s) = [1, 2] \<and> dr_closed (fst s) \<and> prefix (dr_sink (snd s)) [3, 4] \<and> dr_sink (snd s) = [3]"
proof -
  obtain s where s: "bridge_exec demo_schedule (direction_start [1, 2], direction_start [3, 4]) = Some s"
      "bridge_ended s" "\<not> dr_failed (fst s)" "dr_sink (snd s) = [3]"
    by (simp add: demo_schedule_def copy_apply.simps direction_start_def BRIDGE_BUF_def bridge_ended_def)
  then have "server_stream_task (Inr ()) [1, 2] [3, 4] s"
    using bridge_exec_steps by (simp add: server_stream_task_def bridge_quic_to_tcp_def)
  from tunnel_stream_delivers [OF disjI1 [OF this]] s show ?thesis by (auto simp: bridge_ended_def)
qed

theorem bridge_terminates_witness:
  "\<exists>s'. bridge_step\<^sup>*\<^sup>* (direction_start [1, 2], direction_start [3]) s' \<and> bridge_ended s'"
  using bridge_terminates [of 0 "[1, 2]" "[3]" "(direction_start [1, 2], direction_start [3])"]
  by (simp add: bridge_quic_to_tcp_def)

section \<open>What the server opens, and to whom\<close>

lemma tunnel_lost_connection_ends:
  "lo_cancelled ops w = (False, w1) \<Longrightarrow> q_accept_bi ops w1 = (Inl e, w2) \<Longrightarrow> tunnel_stream_loop ops target w = Some w2"
  by (simp add: tunnel_stream_loop.simps)

text \<open>
  The tunnel is gated by the handshake: either the client's first stream carried a ticket that
  passes every check at that time, or the task ends (by returning or by a panic) and no bridge to the
  target is ever started, so that what starting one would do is irrelevant.
\<close>

lemma tunnel_gate:
  "(\<exists>s w1 t w2 now body w3 c. q_accept_bi ops w = (Inr s, w1) \<and> lo_now ops w1 = (t, w2) \<and>
      now_unix_seconds t = Some now \<and> read_frame alloc (quinn.truncate ops) s w2 = (Some (Inr body), w3) \<and>
      admission cr issuer subject trust now body = Inr c) \<or>
   (\<exists>r. \<forall>spawn. handle_tunnel_connection cr alloc (ops\<lparr>to_spawn_bridge := spawn\<rparr>) target trust issuer subject w = Some r)"
proof (cases "q_accept_bi ops w")
  case (Pair rs w1)
  show ?thesis
  proof (cases rs)
    case Inl
    with Pair show ?thesis by (simp add: handle_tunnel_connection_def)
  next
    case (Inr s)
    obtain t w2 where t: "lo_now ops w1 = (t, w2)" by fastforce
    show ?thesis
    proof (cases "now_unix_seconds t")
      case None
      with Pair Inr t show ?thesis by (simp add: handle_tunnel_connection_def)
    next
      case (Some now)
      obtain h w3 where h: "server_handshake cr alloc (quinn.truncate ops) s issuer subject trust now w2 = (h, w3)"
        by fastforce
      show ?thesis
      proof (cases "\<exists>sm. h = Some (Inr sm)")
        case True
        then obtain sm where "h = Some (Inr sm)" by blast
        from server_handshake_Inr [OF h [unfolded this]] Pair Inr t Some show ?thesis by blast
      next
        case False
        then consider "h = None" | e where "h = Some (Inl e)" by (metis option.exhaust sum.exhaust)
        then show ?thesis
          using h Pair Inr t Some by cases (simp_all add: handle_tunnel_connection_def quinn.defs)
      qed
    qed
  qed
qed

section \<open>What the client sends\<close>

lemma client_accept_loop_diverges: "client_accept_loop ops w = None"
proof (rule ccontr)
  assume "client_accept_loop ops w \<noteq> None"
  then obtain r where r: "client_accept_loop ops w = Some r" by blast
  show False
    by (rule client_accept_loop.raw_induct [OF _ r, where P = "\<lambda>_ _ _. False"])
      (auto split: prod.splits sum.splits)
qed

text \<open>
  C33. The client opens a stream, and so sends anything, only for a ticket of the file that verifies
  under the issuer's key at that time; otherwise it stops with an error, and what opening a stream
  would do is irrelevant. It never returns successfully: after the handshake its accept loop has no exit.
\<close>

theorem client_sends_only_verified:
  "((\<exists>raw ticket v1 v2 t v3 now c. fs_read_to_string fs ticket_path = Inr raw \<and> ticket_from_str (trim raw) = Inr ticket \<and>
       co_connect ops relay_addr ''localhost'' w = (Inr (), v1) \<and> co_connecting ops v1 = (Inr (), v2) \<and>
       co_now ops v2 = (t, v3) \<and> now_unix_seconds t = Some now \<and> verify_ticket cr ticket issuer now = Inr c) \<or>
    (\<exists>r v. (\<nexists>sm. r = Some (Inr sm)) \<and>
       (\<forall>open_bi. connect_setup cr ticket_from_str alloc fs (ops\<lparr>q_open_bi := open_bi\<rparr>) relay_addr ticket_path issuer secret_path w = (r, v)))) \<and>
   connect_with cr ticket_from_str alloc fs ops relay_addr ticket_path issuer secret_path w \<noteq> Some (Some (Inr ()), w')"
  (is "(?sent \<or> ?silent) \<and> ?never")
proof
  show ?never
    by (simp add: connect_with_def client_accept_loop_diverges split: prod.splits option.splits sum.splits)
  let ?prep = "\<lambda>ops. connect_prepare cr ticket_from_str fs ops relay_addr ticket_path issuer secret_path w"
  have prep: "?prep (ops\<lparr>q_open_bi := open_bi\<rparr>) = ?prep ops" for open_bi
    by (simp add: connect_prepare_def)
  show "?sent \<or> ?silent"
  proof (cases "\<exists>ticket v. ?prep ops = (Some (Inr ticket), v)")
    case True
    then have ?sent
      by (auto simp: connect_prepare_def io_bind_eq_Inr io_call_eq_Inr case_prod_beta)
        (metis prod.collapse)
    then show ?thesis ..
  next
    case False
    then consider v where "?prep ops = (None, v)" | e v where "?prep ops = (Some (Inl e), v)"
      by (metis option.exhaust prod.exhaust sum.exhaust)
    then have ?silent
    proof cases
      case 1
      with prep show ?thesis by (intro exI [of _ None] exI [of _ v]) (simp add: connect_setup_def io_bind_def)
    next
      case 2
      with prep show ?thesis
        by (intro exI [of _ "Some (Inl e)"] exI [of _ v]) (simp add: connect_setup_def io_bind_def)
    qed
    then show ?thesis ..
  qed
qed

end
