(* ===== verification/Cli.thy ===== *)
theory Cli
  imports Nonce_Store Tunnel
begin

text \<open>
  \<^verbatim>\<open>src/main.rs\<close>: the commands of the \<^verbatim>\<open>snappipe\<close> binary. The world of a command is the file
  system, the lines printed so far and the reading of the system clock; standard output accepts
  every line, and standard error is left out. What \<^verbatim>\<open>clap\<close> has parsed from the command line is the
  argument record of the command. Keys and nonces drawn from the operating system are
  arguments. Files that are read as text hold UTF-8.
\<close>

section \<open>Arguments\<close>

record KeygenArgs =
  kg_out :: path
  kg_public_out :: path

record TicketIssueArgs =
  ti_secret_key :: path
  ti_subject_public_key :: "path option"
  ti_relay_url :: string
  ti_alpn :: string
  ti_ttl_seconds :: int
  ti_output :: "path option"

record TicketInspectArgs =
  tx_ticket :: path

record TicketVerifyArgs =
  tv_ticket :: path
  tv_public_key :: path
  tv_now :: "int option"

datatype TicketCommand = Issue TicketIssueArgs | Inspect TicketInspectArgs | Verify TicketVerifyArgs

record RelaySampleConfigArgs =
  rs_output :: "path option"

datatype RelayCommand = SampleConfig RelaySampleConfigArgs

record QuicProfileArgs =
  qa_preset :: string
  qa_alpn :: string
  qa_output :: "path option"

datatype QuicCommand = QuicProfile QuicProfileArgs

record TunnelServeArgs =
  ts_issuer_public_key :: path
  ts_public_key :: path
  ts_trust_store :: "path option"
  ts_quic_bind :: string
  ts_target :: string
  ts_alpn :: string

record TunnelConnectArgs =
  cn_secret_key :: path
  cn_ticket :: path
  cn_issuer_public_key :: path
  cn_server_cert :: path
  cn_relay :: string
  cn_listen :: string
  cn_alpn :: string

datatype TunnelCommand = Serve TunnelServeArgs | Connect TunnelConnectArgs

record MetricsArgs =
  ma_nonce_ttl_secs :: int
  ma_rate_default_per_min :: u32

datatype Command =
    Keygen KeygenArgs
  | TicketCmd TicketCommand
  | RelayCmd RelayCommand
  | QuicCmd QuicCommand
  | TunnelCmd TunnelCommand
  | Metrics MetricsArgs

record V03Trigger =
  vt_description :: string
  vt_note :: string

record MetricsSnapshot =
  ms_nonce_store :: NonceStoreMetrics
  ms_rate_limiter :: RateLimiterMetrics
  ms_v0_3_0_trigger :: V03Trigger

section \<open>The world of a command\<close>

record cli_world =
  cw_fs :: file_system
  cw_stdout :: "string list"
  cw_time :: system_time

datatype CliError =
    FailedToRead path io_error
  | FailedToWrite path io_error
  | FailedToParse path string
  | TicketFailure TicketError
  | UnknownPreset string
  | TrustStoreUnsupported path
  | BadSocketAddr string
  | QuicFailure QuicEndpointError
  | BindFailure SocketAddr string
  | RuntimeFailure string
  | TunnelFailure TunnelError

text \<open>
  The printers and the parser of \<^verbatim>\<open>serde_json\<close> the commands use, and the parser of socket addresses,
  whose results are only passed on.
\<close>

record ('sk, 'vk, 'sg) cli_crates = "('sk, 'vk, 'sg) session_crates" +
  ticket_to_pretty :: "SignedTicket \<Rightarrow> string + string"
  claims_to_pretty :: "TicketClaims \<Rightarrow> string + string"
  profile_to_pretty :: "QuicTransportProfile \<Rightarrow> string + string"
  metrics_to_pretty :: "MetricsSnapshot \<Rightarrow> string + string"
  ticket_from_str :: "string \<Rightarrow> string + SignedTicket"
  parse_socket_addr :: "string \<Rightarrow> string + SocketAddr"

definition to_pretty_json :: "('a \<Rightarrow> string + string) \<Rightarrow> 'a \<Rightarrow> TicketError + string" where
  "to_pretty_json printer value = map_err Serialization (printer value)"

definition println :: "string \<Rightarrow> (cli_world, 'e, unit) io" where
  "println line w = (Some (Inr ()), w\<lparr>cw_stdout := cw_stdout w @ [line]\<rparr>)"

definition read_text :: "path \<Rightarrow> (cli_world, CliError, string) io" where
  "read_text p = io_call (FailedToRead p) (\<lambda>w. (fs_read_to_string (cw_fs w) p, w))"

definition write_text :: "path \<Rightarrow> string \<Rightarrow> (cli_world, CliError, unit) io" where
  "write_text p body = io_call (FailedToWrite p) (\<lambda>w. case fs_write (cw_fs w) p body of (r, fs) \<Rightarrow> (r, w\<lparr>cw_fs := fs\<rparr>))"

definition current_time :: "(cli_world, 'e, int) io" where
  "current_time w = (map_option Inr (now_unix_seconds (cw_time w)), w)"

section \<open>The commands\<close>

definition keygen ::
  "('sk, 'vk, 'sg, 'y) crates_scheme \<Rightarrow> 'sk \<Rightarrow> KeygenArgs \<Rightarrow> (cli_world, CliError, unit) io" where
  "keygen cr signing_key args =
     (let secret = encode_secret_key cr signing_key;
          public = encode_public_key cr (verifying_key cr signing_key)
      in io_bind (write_text (kg_out args) (secret @ [LF])) (\<lambda>_.
         io_bind (write_text (kg_public_out args) (public @ [LF])) (\<lambda>_.
         io_bind (println (''secret_key_path='' @ path_display (kg_out args))) (\<lambda>_.
         io_bind (println (''public_key_path='' @ path_display (kg_public_out args))) (\<lambda>_.
         println (''node_id='' @ public))))))"

text \<open>\<^verbatim>\<open>Option::map\<close> and \<^verbatim>\<open>transpose\<close>: the subject's key is read only if a path is given.\<close>

definition read_subject_key ::
  "('sk, 'vk, 'sg, 'y) crates_scheme \<Rightarrow> path option \<Rightarrow> (cli_world, CliError, 'vk option) io" where
  "read_subject_key cr subject =
     (case subject of
        None \<Rightarrow> io_ok None
      | Some p \<Rightarrow>
          io_bind (read_text p) (\<lambda>raw.
          io_bind (io_result (map_err TicketFailure (decode_public_key cr (trim raw)))) (\<lambda>k. io_ok (Some k))))"

text \<open>Text that goes to a file, whose path is then printed, or to standard output.\<close>

definition emit :: "path option \<Rightarrow> string \<Rightarrow> string \<Rightarrow> string \<Rightarrow> (cli_world, CliError, unit) io" where
  "emit output label body text =
     (case output of
        Some p \<Rightarrow> io_bind (write_text p body) (\<lambda>_. println (label @ path_display p))
      | None \<Rightarrow> println text)"

definition issue ::
  "('sk, 'vk, 'sg, 'y) cli_crates_scheme \<Rightarrow> bool \<Rightarrow> bytes \<Rightarrow> TicketIssueArgs \<Rightarrow> (cli_world, CliError, unit) io" where
  "issue cr checks random_nonce args =
     io_bind (read_text (ti_secret_key args)) (\<lambda>secret_key.
     io_bind (io_result (map_err TicketFailure (decode_secret_key cr (trim secret_key)))) (\<lambda>signing_key.
     io_bind (read_subject_key cr (ti_subject_public_key args)) (\<lambda>subject_key.
     io_bind current_time (\<lambda>now.
     io_bind (\<lambda>w. (map_option (map_err TicketFailure)
        (issue_ticket cr checks random_nonce signing_key subject_key (ti_relay_url args) (ti_alpn args)
           (ti_ttl_seconds args) now), w)) (\<lambda>ticket.
     io_bind (io_result (map_err TicketFailure (to_pretty_json (ticket_to_pretty cr) ticket))) (\<lambda>json.
     emit (ti_output args) ''ticket_path='' (json @ [LF]) json))))))"

definition load_ticket ::
  "('sk, 'vk, 'sg, 'y) cli_crates_scheme \<Rightarrow> path \<Rightarrow> (cli_world, CliError, SignedTicket) io" where
  "load_ticket cr p =
     io_bind (read_text p) (\<lambda>raw. io_result (map_err (FailedToParse p) (ticket_from_str cr (trim raw))))"

definition inspect ::
  "('sk, 'vk, 'sg, 'y) cli_crates_scheme \<Rightarrow> TicketInspectArgs \<Rightarrow> (cli_world, CliError, unit) io" where
  "inspect cr args =
     io_bind (load_ticket cr (tx_ticket args)) (\<lambda>ticket.
     io_bind (io_result (map_err TicketFailure (to_pretty_json (claims_to_pretty cr) (st_claims ticket)))) println)"

definition verify_cmd ::
  "('sk, 'vk, 'sg, 'y) cli_crates_scheme \<Rightarrow> TicketVerifyArgs \<Rightarrow> (cli_world, CliError, unit) io" where
  "verify_cmd cr args =
     io_bind (load_ticket cr (tv_ticket args)) (\<lambda>ticket.
     io_bind (read_text (tv_public_key args)) (\<lambda>public_key.
     io_bind (io_result (map_err TicketFailure (decode_public_key cr (trim public_key)))) (\<lambda>vk.
     io_bind (case tv_now args of Some now \<Rightarrow> io_ok now | None \<Rightarrow> current_time) (\<lambda>now.
     io_bind (io_result (map_err TicketFailure (verify_ticket cr ticket vk now))) (\<lambda>claims.
     io_bind (println ''verified=true'') (\<lambda>_.
     io_bind (println (''issuer='' @ NodeId_as_str (tc_issuer claims))) (\<lambda>_.
     io_bind (println (''subject='' @ NodeId_as_str (tc_subject claims))) (\<lambda>_.
     io_bind (println (''relay_url='' @ tc_relay_url claims)) (\<lambda>_.
     io_bind (println (''alpn='' @ tc_alpn claims)) (\<lambda>_.
     println (''expires_at='' @ show_int (tc_expires_at claims))))))))))))"

definition sample_config :: "RelaySampleConfigArgs \<Rightarrow> (cli_world, CliError, unit) io" where
  "sample_config args =
     (let config = RelayConfig_to_toml_like RelayConfig_sample
      in emit (rs_output args) ''sample_config_path='' config config)"

definition quic_profile ::
  "('sk, 'vk, 'sg, 'y) cli_crates_scheme \<Rightarrow> QuicProfileArgs \<Rightarrow> (cli_world, CliError, unit) io" where
  "quic_profile cr args =
     (let preset = qa_preset args in
      io_bind
        (if preset = ''low-latency-interactive'' then io_ok (low_latency_interactive (qa_alpn args))
         else if preset = ''relay-backhaul'' then io_ok (relay_backhaul (qa_alpn args))
         else io_err (UnknownPreset preset)) (\<lambda>profile.
      io_bind (io_result (map_err TicketFailure (to_pretty_json (profile_to_pretty cr) profile))) (\<lambda>json.
      emit (qa_output args) ''quic_profile_path='' (json @ [LF]) json)))"

section \<open>The metrics workload\<close>

text \<open>The nonce of round \<open>i\<close>: sixteen bytes, the first of which is \<open>i\<close>.\<close>

definition workload_nonce :: "nat \<Rightarrow> bytes" where
  "workload_nonce i = of_nat i # replicate 15 0"

definition nonce_workload :: "int \<Rightarrow> NonceStore" where
  "nonce_workload ttl =
     (let s0 = NonceStore_new ttl;
          s1 = fold (\<lambda>i s. snd (NonceStore_check_and_record s (workload_nonce i) 1700000000)) [0..<50] s0
      in fold (\<lambda>i s. snd (NonceStore_check_and_record s (workload_nonce i) 1700000010)) [0..<30] s1)"

definition limiter_workload :: "u32 \<Rightarrow> NodeId \<Rightarrow> NodeId \<Rightarrow> RateLimiter" where
  "limiter_workload per_min rate_node second_node =
     (let now = Fin 1700000000;
          consume = (\<lambda>node l. snd (RateLimiter_try_consume l node now));
          l0 = RateLimiter_set_limit (RateLimiter_new per_min) rate_node 25 now;
          l1 = (consume rate_node ^^ 25) l0;
          l2 = (consume rate_node ^^ 5) l1
      in (consume second_node ^^ 3) l2)"

text \<open>The dash of the note is written as its three UTF-8 bytes.\<close>

definition v03_trigger :: V03Trigger where
  "v03_trigger =
     \<lparr>vt_description = ''Sustained >100 try_consume_calls / sec per edge triggers '' @
        ''migration to sharded RateLimiter/NonceStore. See docs/SECURITY-MODEL.md.'',
      vt_note = ''Single snapshot only '' @ [CHR 0xE2, CHR 0x80, CHR 0x94] @
        '' diff two consecutive snapshots over a known interval to derive throughput.''\<rparr>"

definition metrics_snapshot :: "MetricsArgs \<Rightarrow> NodeId \<Rightarrow> NodeId \<Rightarrow> MetricsSnapshot" where
  "metrics_snapshot args rate_node second_node =
     \<lparr>ms_nonce_store = NonceStore_metrics (nonce_workload (ma_nonce_ttl_secs args)),
      ms_rate_limiter = RateLimiter_metrics (limiter_workload (ma_rate_default_per_min args) rate_node second_node),
      ms_v0_3_0_trigger = v03_trigger\<rparr>"

definition metrics_cmd ::
  "('sk, 'vk, 'sg, 'y) cli_crates_scheme \<Rightarrow> 'sk \<Rightarrow> 'sk \<Rightarrow> MetricsArgs \<Rightarrow> (cli_world, CliError, unit) io" where
  "metrics_cmd cr rate_key second_key args =
     (let snapshot = metrics_snapshot args (NodeId_from_verifying_key cr (verifying_key cr rate_key))
            (NodeId_from_verifying_key cr (verifying_key cr second_key))
      in io_bind (io_result (map_err TicketFailure (to_pretty_json (metrics_to_pretty cr) snapshot))) println)"

section \<open>The tunnel commands\<close>

text \<open>What \<^verbatim>\<open>tunnel serve\<close> hands to the accept loop.\<close>

record 'vk serve_setup =
  ss_endpoint :: "ServerTls Endpoint"
  ss_target :: SocketAddr
  ss_trust :: TrustCheck
  ss_issuer :: 'vk
  ss_subject :: 'vk

text \<open>
  Everything before the runtime starts, in the order of the source: the keys, the refusal of the
  trust store, the addresses, the certificate, the TLS and transport configuration, the socket.
\<close>

definition tunnel_serve_setup ::
  "('sk, 'vk, 'sg, 'y) cli_crates_scheme \<Rightarrow> tls_crates \<Rightarrow> TunnelServeArgs \<Rightarrow> (cli_world, CliError, 'vk serve_setup) io" where
  "tunnel_serve_setup cr tls args =
     io_bind (read_text (ts_issuer_public_key args)) (\<lambda>issuer_text.
     io_bind (io_result (map_err TicketFailure (decode_public_key cr (trim issuer_text)))) (\<lambda>issuer_key.
     io_bind (read_text (ts_public_key args)) (\<lambda>pub_key_text.
     io_bind (io_result (map_err TicketFailure (decode_public_key cr (trim pub_key_text)))) (\<lambda>expected_subject.
     io_bind (case ts_trust_store args of Some p \<Rightarrow> io_err (TrustStoreUnsupported p) | None \<Rightarrow> io_ok ()) (\<lambda>_.
     io_bind (io_result (map_err BadSocketAddr (parse_socket_addr cr (ts_quic_bind args)))) (\<lambda>bind.
     io_bind (io_result (map_err BadSocketAddr (parse_socket_addr cr (ts_target args)))) (\<lambda>target.
     io_bind (io_result (map_err QuicFailure (self_signed_dev_cert tls []))) (\<lambda>cert.
     io_bind (io_result (map_err QuicFailure (default_server_config tls cert))) (\<lambda>server_cfg.
     io_bind (io_result (map_err (\<lambda>e. QuicFailure (Profile e))
        (build_transport_config (tls_varint tls) (relay_backhaul (ts_alpn args))))) (\<lambda>transport.
     io_bind (io_result (map_err (BindFailure bind) (tls_bind tls bind))) (\<lambda>_.
     io_ok \<lparr>ss_endpoint = \<lparr>ep_bind = bind, ep_tls = server_cfg, ep_transport = transport\<rparr>,
            ss_target = target, ss_trust = allow_all_trust, ss_issuer = issuer_key,
            ss_subject = expected_subject\<rparr>)))))))))))"

text \<open>
  The two tunnel commands run on a pair: the command's own world, and the network \<open>'w\<close>. \<open>runtime\<close>
  is the result of building the executor, \<open>net\<close> the operations of the endpoint that was set up;
  its spawned connections run \<open>handle_tunnel_connection\<close> with the target, the keys and the trust of the
  set-up. \<open>None\<close> is a command that never ends.
\<close>

definition tunnel_serve ::
  "('sk, 'vk, 'sg, 'y) cli_crates_scheme \<Rightarrow> tls_crates \<Rightarrow> (string + unit) \<Rightarrow> ('vk serve_setup \<Rightarrow> 'w tunnel_ops) \<Rightarrow>
     TunnelServeArgs \<Rightarrow> cli_world \<times> 'w \<Rightarrow> ((CliError + unit) option \<times> cli_world \<times> 'w) option" where
  "tunnel_serve cr tls runtime net args = (\<lambda>(cw, w).
     case tunnel_serve_setup cr tls args cw of
       (None, cw') \<Rightarrow> Some (None, cw', w)
     | (Some (Inl e), cw') \<Rightarrow> Some (Some (Inl e), cw', w)
     | (Some (Inr su), cw') \<Rightarrow>
         (case runtime of
            Inl err \<Rightarrow> Some (Some (Inl (RuntimeFailure err)), cw', w)
          | Inr _ \<Rightarrow>
              (case tunnel_serve_loop (net su) w of
                 None \<Rightarrow> None
               | Some (_, w') \<Rightarrow> Some (Some (Inr ()), cw', w'))))"

text \<open>\<^verbatim>\<open>fs::read\<close>: the bytes of a file.\<close>

definition read_bytes :: "path \<Rightarrow> (cli_world, CliError, bytes) io" where
  "read_bytes p = io_bind (read_text p) (\<lambda>s. io_ok (map of_char s))"

definition unspecified_addr :: "string \<Rightarrow> SocketAddr" where
  "unspecified_addr ip = \<lparr>sa_ip = ip, sa_port = 0\<rparr>"

definition tunnel_connect_setup ::
  "('sk, 'vk, 'sg, 'y) cli_crates_scheme \<Rightarrow> TunnelConnectArgs \<Rightarrow>
     (cli_world, CliError, 'vk \<times> bytes \<times> TunnelConfig) io" where
  "tunnel_connect_setup cr args =
     io_bind (read_text (cn_secret_key args)) (\<lambda>secret_raw.
     io_bind (io_result (map_err TicketFailure (decode_secret_key cr (trim secret_raw)))) (\<lambda>_.
     io_bind (read_text (cn_issuer_public_key args)) (\<lambda>issuer_pub_text.
     io_bind (io_result (map_err TicketFailure (decode_public_key cr (trim issuer_pub_text)))) (\<lambda>issuer_public_key.
     io_bind (read_bytes (cn_server_cert args)) (\<lambda>server_cert_der.
     io_bind (io_result (map_err BadSocketAddr (parse_socket_addr cr (cn_listen args)))) (\<lambda>listen_addr.
     io_bind (io_result (map_err BadSocketAddr (parse_socket_addr cr (cn_relay args)))) (\<lambda>relay_addr.
     io_ok (issuer_public_key, server_cert_der,
       \<lparr>tn_quic_bind = unspecified_addr ''0.0.0.0'', tn_target_addr = unspecified_addr ''127.0.0.1'',
        tn_listen_addr = listen_addr, tn_relay_addr = relay_addr\<rparr>))))))))"

definition tunnel_connect ::
  "('sk, 'vk, 'sg, 'y) cli_crates_scheme \<Rightarrow> tls_crates \<Rightarrow> (nat \<Rightarrow> bool) \<Rightarrow> (string + unit) \<Rightarrow> 'w client_ops \<Rightarrow>
     TunnelConnectArgs \<Rightarrow> cli_world \<times> 'w \<Rightarrow> ((CliError + unit) option \<times> cli_world \<times> 'w) option" where
  "tunnel_connect cr tls alloc runtime net args = (\<lambda>(cw, w).
     case tunnel_connect_setup cr args cw of
       (None, cw') \<Rightarrow> Some (None, cw', w)
     | (Some (Inl e), cw') \<Rightarrow> Some (Some (Inl e), cw', w)
     | (Some (Inr (issuer_public_key, server_cert_der, cfg)), cw') \<Rightarrow>
         (case runtime of
            Inl err \<Rightarrow> Some (Some (Inl (RuntimeFailure err)), cw', w)
          | Inr _ \<Rightarrow>
              (case tunnel_connect_cfg cr tls (ticket_from_str cr) alloc (cw_fs cw') net cfg (cn_ticket args)
                      (cn_secret_key args) server_cert_der issuer_public_key (cn_alpn args) w of
                 None \<Rightarrow> None
               | Some (None, w') \<Rightarrow> Some (None, cw', w')
               | Some (Some (Inl e), w') \<Rightarrow> Some (Some (Inl (TunnelFailure e)), cw', w')
               | Some (Some (Inr _), w') \<Rightarrow> None)))"

section \<open>The dispatcher\<close>

text \<open>What the operating system draws for a command: keys and the ticket nonce.\<close>

record 'sk entropy =
  en_key :: 'sk
  en_second_key :: 'sk
  en_nonce :: bytes

definition local_command ::
  "(cli_world, CliError, unit) io \<Rightarrow> cli_world \<times> 'w \<Rightarrow> ((CliError + unit) option \<times> cli_world \<times> 'w) option" where
  "local_command m = (\<lambda>(cw, w). case m cw of (r, cw') \<Rightarrow> Some (r, cw', w))"

fun main_cmd ::
  "('sk, 'vk, 'sg, 'y) cli_crates_scheme \<Rightarrow> tls_crates \<Rightarrow> (nat \<Rightarrow> bool) \<Rightarrow> bool \<Rightarrow> (string + unit) \<Rightarrow> 'sk entropy \<Rightarrow>
     ('vk serve_setup \<Rightarrow> 'w tunnel_ops) \<Rightarrow> 'w client_ops \<Rightarrow> Command \<Rightarrow> cli_world \<times> 'w \<Rightarrow>
     ((CliError + unit) option \<times> cli_world \<times> 'w) option" where
  "main_cmd cr tls alloc checks rt en snet cnet (Keygen args) = local_command (keygen cr (en_key en) args)"
| "main_cmd cr tls alloc checks rt en snet cnet (TicketCmd (Issue args)) = local_command (issue cr checks (en_nonce en) args)"
| "main_cmd cr tls alloc checks rt en snet cnet (TicketCmd (Inspect args)) = local_command (inspect cr args)"
| "main_cmd cr tls alloc checks rt en snet cnet (TicketCmd (Verify args)) = local_command (verify_cmd cr args)"
| "main_cmd cr tls alloc checks rt en snet cnet (RelayCmd (SampleConfig args)) = local_command (sample_config args)"
| "main_cmd cr tls alloc checks rt en snet cnet (QuicCmd (QuicProfile args)) = local_command (quic_profile cr args)"
| "main_cmd cr tls alloc checks rt en snet cnet (TunnelCmd (Serve args)) = tunnel_serve cr tls rt snet args"
| "main_cmd cr tls alloc checks rt en snet cnet (TunnelCmd (Connect args)) = tunnel_connect cr tls alloc rt cnet args"
| "main_cmd cr tls alloc checks rt en snet cnet (Metrics args) = local_command (metrics_cmd cr (en_key en) (en_second_key en) args)"

section \<open>What the workload does to the stores\<close>

lemma check_fresh:
  assumes "nonce_ok s" and "hm_get (ns_inner s) n = None"
  shows "snd (NonceStore_check_and_record s n t) =
    s\<lparr>ns_total_check_calls := ns_total_check_calls s + 1, ns_total_accepted := ns_total_accepted s + 1,
      ns_inner := hm_insert n t (ns_inner s)\<rparr>"
  using assms by (simp add: NonceStore_check_and_record_def check_locked_def count_check_def)

lemma fresh_checks:
  assumes "nonce_ok s" and "distinct ns" and "is_i64 t"
    and "\<forall>n \<in> set ns. length n = 16 \<and> hm_get (ns_inner s) n = None"
  shows "\<exists>m. fold (\<lambda>n s. snd (NonceStore_check_and_record s n t)) ns s =
      s\<lparr>ns_total_check_calls := ns_total_check_calls s + of_nat (length ns),
        ns_total_accepted := ns_total_accepted s + of_nat (length ns), ns_inner := m\<rparr> \<and>
      hm_wf m \<and> hm_get m = hm_get (ns_inner s) ++ (\<lambda>n. if n \<in> set ns then Some t else None)"
  using assms
proof (induction ns arbitrary: s)
  case Nil
  then show ?case by (auto simp: nonce_ok_def map_add_def intro!: exI [of _ "ns_inner s"])
next
  case (Cons n ns)
  let ?s = "snd (NonceStore_check_and_record s n t)"
  have s: "?s = s\<lparr>ns_total_check_calls := ns_total_check_calls s + 1, ns_total_accepted := ns_total_accepted s + 1,
      ns_inner := hm_insert n t (ns_inner s)\<rparr>"
    using Cons.prems by (intro check_fresh) simp_all
  have wf: "hm_wf (ns_inner s)" using Cons.prems(1) by (rule nonce_okD)
  have "nonce_ok ?s" using nonce_exec_ok [of s "Check n t"] Cons.prems by simp
  moreover have "\<forall>k \<in> set ns. length k = 16 \<and> hm_get (ns_inner ?s) k = None"
    using Cons.prems by (auto simp: s hm.get_insert [OF wf])
  ultimately obtain m where "fold (\<lambda>n s. snd (NonceStore_check_and_record s n t)) ns ?s =
      ?s\<lparr>ns_total_check_calls := ns_total_check_calls ?s + of_nat (length ns),
        ns_total_accepted := ns_total_accepted ?s + of_nat (length ns), ns_inner := m\<rparr>" "hm_wf m"
      "hm_get m = hm_get (ns_inner ?s) ++ (\<lambda>n. if n \<in> set ns then Some t else None)"
    using Cons.IH [of ?s] Cons.prems by auto
  then show ?case
    by (intro exI [of _ m]) (auto simp: s hm.get_insert [OF wf] map_add_def fun_eq_iff add.assoc add.commute)
qed

lemma check_known:
  assumes "nonce_ok s" and "hm_get (ns_inner s) n = Some r" and "is_i64 t" and "is_i64 r"
  shows "snd (NonceStore_check_and_record s n t) =
    (if t - r < ns_ttl_secs s
     then s\<lparr>ns_total_check_calls := ns_total_check_calls s + 1, ns_total_rejected_replay := ns_total_rejected_replay s + 1\<rparr>
     else s\<lparr>ns_total_check_calls := ns_total_check_calls s + 1, ns_total_accepted_after_ttl := ns_total_accepted_after_ttl s + 1,
            ns_inner := hm_insert n t (ns_inner s)\<rparr>)"
  using assms i64_saturating_sub_less_iff [of "ns_ttl_secs s" t r] nonce_okD [OF assms(1)]
  by (auto simp: NonceStore_check_and_record_def check_locked_def count_check_def i64_min_def)

lemma known_checks:
  assumes "nonce_ok s" and "distinct ns" and "is_i64 t"
    and "\<forall>n \<in> set ns. length n = 16 \<and> hm_get (ns_inner s) n = Some r"
  shows "let s' = fold (\<lambda>n s. snd (NonceStore_check_and_record s n t)) ns s in
      nonce_ok s' \<and> dom (hm_get (ns_inner s')) = dom (hm_get (ns_inner s)) \<and>
      ns_total_check_calls s' = ns_total_check_calls s + of_nat (length ns) \<and>
      ns_total_accepted s' = ns_total_accepted s \<and>
      ns_total_rejected_replay s' = ns_total_rejected_replay s + (if t - r < ns_ttl_secs s then of_nat (length ns) else 0) \<and>
      ns_total_accepted_after_ttl s' = ns_total_accepted_after_ttl s + (if t - r < ns_ttl_secs s then 0 else of_nat (length ns))"
  using assms
proof (induction ns arbitrary: s)
  case (Cons n ns)
  let ?s = "snd (NonceStore_check_and_record s n t)"
  have r: "is_i64 r" and wf: "hm_wf (ns_inner s)" using Cons.prems(1,4) by (auto simp: nonce_ok_def)
  note s = check_known [OF Cons.prems(1) _ Cons.prems(3) r, of n]
  have "nonce_ok ?s" using nonce_exec_ok [of s "Check n t"] Cons.prems by simp
  moreover have "\<forall>k \<in> set ns. length k = 16 \<and> hm_get (ns_inner ?s) k = Some r"
    using Cons.prems by (auto simp: s hm.get_insert [OF wf])
  ultimately show ?case
    using Cons.IH [of ?s] Cons.prems(2-4)
    by (auto simp: s Let_def hm.get_insert [OF wf] insert_absorb domI)
qed simp


lemma retune_full: "TokenBucket_retune (TokenBucket_full w (Fin n)) w (Fin n) = TokenBucket_full w (Fin n)"
  by (simp add: TokenBucket_retune_def TokenBucket_refill_def TokenBucket_full_def Let_def f64_of_u32_def f64_min_def)

lemma tracked_burst:
  assumes "hm_wf (rl_inner l)" and "hm_get (rl_inner l) node = Some (TokenBucket_full w (Fin n))" and "rep n"
  shows "limiter_decisions l node (replicate k (Fin n)) = replicate (min k (unat w)) True @ replicate (k - unat w) False"
  using limiter_decisions_tracked [OF assms(1,2)] bucket_burst [OF full_inv [OF assms(3), of w], of k] by simp

lemma untracked_burst:
  assumes "hm_wf (rl_inner l)" and "hm_get (rl_inner l) node = None" and "rep n"
  shows "limiter_decisions l node (replicate k (Fin n)) =
    replicate (min k (unat (rl_default_per_min l))) True @ replicate (k - unat (rl_default_per_min l)) False"
  using limiter_decisions_bucket [OF assms(1), of node "Fin n" "replicate (k - 1) (Fin n)"] assms(2)
    bucket_burst [OF full_inv [OF assms(3), of "rl_default_per_min l"], of k]
  by (cases k) (simp_all add: bucket_or_def)

definition workload_ops :: "NodeId \<Rightarrow> NodeId \<Rightarrow> limiter_op list" where
  "workload_ops a b = SetLimit a 25 (Fin 1700000000) # replicate 30 (Consume a (Fin 1700000000)) @
     replicate 3 (Consume b (Fin 1700000000))"

lemma set_limit_calls_consumes:
  "set_limit_calls (replicate k (Consume x n) @ ops) = set_limit_calls ops"
  "set_limit_calls (replicate k (Consume x n)) = 0"
  by (induction k) simp_all

lemma limiter_workload_run: "limiter_workload w a b = limiter_run (workload_ops a b) (RateLimiter_new w)"
proof -
  have k: "fold limiter_exec (replicate k (Consume x n)) = (\<lambda>l. snd (RateLimiter_try_consume l x n)) ^^ k" for k x n
  proof -
    have "limiter_exec (Consume x n) = (\<lambda>l. snd (RateLimiter_try_consume l x n))" by (rule ext) simp
    then show ?thesis by simp
  qed
  have "replicate 30 (Consume a (Fin 1700000000)) = replicate 25 (Consume a (Fin 1700000000)) @ replicate 5 (Consume a (Fin 1700000000))"
    by (simp flip: replicate_add)
  then show ?thesis
    unfolding limiter_workload_def workload_ops_def limiter_run_def Let_def by (simp only: fold_append fold_simps k limiter_exec.simps o_apply)
qed

lemma workload_outcomes:
  assumes "a \<noteq> b"
  shows "consume_outcomes (workload_ops a b) (RateLimiter_new w) =
    (let c = unat (if w = 0 then DEFAULT_RATE_PER_MIN else w) in
     replicate 25 True @ replicate 5 False @ replicate (min 3 c) True @ replicate (3 - c) False)"
proof -
  let ?t = "Fin 1700000000" and ?l0 = "RateLimiter_new w"
  let ?l1 = "RateLimiter_set_limit ?l0 a 25 ?t"
  let ?l2 = "limiter_run (replicate 30 (Consume a ?t)) ?l1"
  have rep: "rep 1700000000" using f64.rp_nat [of 1700000000] by simp
  have wf0: "hm_wf (rl_inner ?l0)" by (rule limiter_ok_wf [OF limiter_ok_new])
  then have wf1: "hm_wf (rl_inner ?l1)" using limiter_exec_wf [of ?l0 "SetLimit a 25 ?t"] by simp
  have "hm_get (rl_inner ?l1) a = Some (TokenBucket_full 25 ?t)"
    by (simp add: set_limit_inner bucket_or_def hm.get_insert [OF wf0] retune_full Let_def)
  then have d1: "limiter_decisions ?l1 a (replicate 30 ?t) = replicate 25 True @ replicate 5 False"
    using tracked_burst [OF wf1 _ rep, of a 25 30] by simp
  have keep: "hm_wf (rl_inner (limiter_run (replicate k (Consume a ?t)) l)) \<and>
      hm_get (rl_inner (limiter_run (replicate k (Consume a ?t)) l)) b = hm_get (rl_inner l) b \<and>
      rl_default_per_min (limiter_run (replicate k (Consume a ?t)) l) = rl_default_per_min l"
    if "hm_wf (rl_inner l)" for k l
    using that
  proof (induction k arbitrary: l)
    case (Suc k)
    with assms limiter_exec_other [of l "Consume a ?t" b] limiter_exec_wf [of l "Consume a ?t"] show ?case
      by (simp add: try_consume_inner)
  qed simp
  have "hm_get (rl_inner ?l1) b = None"
    using assms limiter_exec_other [OF wf0, of "SetLimit a 25 ?t" b] by simp
  then have "limiter_decisions ?l2 b (replicate 3 ?t) =
      replicate (min 3 (unat (rl_default_per_min ?l1))) True @ replicate (3 - unat (rl_default_per_min ?l1)) False"
    using untracked_burst [OF _ _ rep, of ?l2 b 3] keep [OF wf1, of 30] by simp
  then show ?thesis
    by (simp add: workload_ops_def consume_outcomes_append consume_outcomes_replicate d1 set_limit_inner(2) Let_def)
qed

lemma workload_nonces:
  assumes "k \<le> 50"
  shows "distinct (map workload_nonce [0..<k])" and "\<forall>n \<in> set (map workload_nonce [0..<k]). length n = 16"
proof -
  have "inj_on workload_nonce {0..<50}"
    by (rule inj_onI) (auto simp: workload_nonce_def word_of_nat_eq_iff take_bit_nat_eq_self)
  then have "inj_on workload_nonce (set [0..<k])" by (rule inj_on_subset) (use assms in auto)
  then show "distinct (map workload_nonce [0..<k])" by (simp add: distinct_map)
qed (auto simp: workload_nonce_def)

lemma nonce_workload_metrics:
  assumes "is_i64 ttl"
  shows "NonceStore_metrics (nonce_workload ttl) =
    (let replays = (10 < (if 0 < ttl then ttl else 60)) in
     \<lparr>nm_total_check_calls = 80, nm_total_accepted = 50,
      nm_total_rejected_replay = (if replays then 30 else 0),
      nm_total_accepted_after_ttl = (if replays then 0 else 30), nm_current_size = 50\<rparr>)"
proof -
  let ?chk = "\<lambda>t n s. snd (NonceStore_check_and_record s n t)"
  let ?ns = "\<lambda>k. map workload_nonce [0..<k]" and ?s0 = "NonceStore_new ttl"
  let ?s1 = "fold (?chk 1700000000) (?ns 50) ?s0"
  let ?s2 = "fold (?chk 1700000010) (?ns 30) ?s1"
  have ok0: "nonce_ok ?s0" using assms by (rule nonce_ok_new)
  have times: "is_i64 1700000000" "is_i64 1700000010" by (simp_all add: i64_simps)
  have "\<forall>n \<in> set (?ns 50). length n = 16 \<and> hm_get (ns_inner ?s0) n = None"
    using workload_nonces(2) [of 50] by (auto simp: hm.get_new)
  from fresh_checks [OF ok0 workload_nonces(1) [of 50] times(1) this]
  obtain m where s1: "?s1 = ?s0\<lparr>ns_total_check_calls := 50, ns_total_accepted := 50, ns_inner := m\<rparr>" and "hm_wf m"
      and m: "hm_get m = (\<lambda>n. if n \<in> set (?ns 50) then Some 1700000000 else None)"
    by (auto simp only: length_map length_upt NonceStore_new_simps hm.get_new map_add_empty empty_map_add
        of_nat_numeral add_0 diff_zero)
  have ttl: "ns_ttl_secs ?s1 = (if 0 < ttl then ttl else 60)" unfolding s1 by (simp add: NonceStore_new_def)
  have ok1: "nonce_ok ?s1"
    using ok0 \<open>hm_wf m\<close> m workload_nonces(2) [of 50] times(1) by (auto simp: s1 nonce_ok_def split: if_splits)
  have "\<forall>n \<in> set (?ns 30). length n = 16 \<and> hm_get (ns_inner ?s1) n = Some 1700000000"
    using workload_nonces(2) [of 30] m by (auto simp: s1)
  note s2 = known_checks [OF ok1 workload_nonces(1) [of 30] times(2) this, unfolded Let_def ttl]
  have "dom (hm_get m) = set (?ns 50)" by (auto simp: m split: if_splits)
  then have "NonceStore_len ?s2 = 50"
    using s2 hm.len_card [OF nonce_okD(1)] distinct_card [OF workload_nonces(1) [of 50]]
    by (simp add: NonceStore_len_def s1)
  moreover have "nonce_workload ttl = ?s2" by (simp add: nonce_workload_def fold_map comp_def)
  moreover have "ns_total_check_calls ?s1 = 50" "ns_total_accepted ?s1 = 50"
      "ns_total_rejected_replay ?s1 = 0" "ns_total_accepted_after_ttl ?s1 = 0"
    unfolding s1 by simp_all
  ultimately show ?thesis using s2 by (simp add: NonceStore_metrics_def Let_def)
qed


text \<open>
  C35. The metrics command reports exactly what its workload did, for every TTL and every default rate and
  any two distinct node identities: 80 checks of 50 nonces, of which the 30 repetitions ten
  seconds later are replays if and only if the effective TTL is above ten seconds; and 33 requests,
  of which the 25 of the override's budget and at most three within the default rate are allowed. It prints one line and
  changes nothing else.
\<close>

theorem metrics_cmd_exact:
  assumes "is_i64 (ma_nonce_ttl_secs args)"
    and "NodeId_from_verifying_key cr (verifying_key cr k1) \<noteq> NodeId_from_verifying_key cr (verifying_key cr k2)"
    and "\<And>m. metrics_to_pretty cr m = Inr (render m)"
  shows "metrics_cmd cr k1 k2 args w = (Some (Inr ()), w\<lparr>cw_stdout := cw_stdout w @ [render
    (let ttl = ma_nonce_ttl_secs args; replays = 10 < (if 0 < ttl then ttl else 60);
         per_min = ma_rate_default_per_min args; c = unat (if per_min = 0 then 100 else per_min)
     in \<lparr>ms_nonce_store = \<lparr>nm_total_check_calls = 80, nm_total_accepted = 50,
           nm_total_rejected_replay = (if replays then 30 else 0),
           nm_total_accepted_after_ttl = (if replays then 0 else 30), nm_current_size = 50\<rparr>,
         ms_rate_limiter = \<lparr>rm_total_try_consume_calls = 33, rm_total_allowed = of_nat (25 + min 3 c),
           rm_total_denied = of_nat (5 + (3 - c)), rm_total_set_limit_calls = 1, rm_tracked_nodes = 2\<rparr>,
         ms_v0_3_0_trigger = v03_trigger\<rparr>)]\<rparr>)"
proof -
  let ?a = "NodeId_from_verifying_key cr (verifying_key cr k1)" and ?b = "NodeId_from_verifying_key cr (verifying_key cr k2)"
  define c where "c = unat (if ma_rate_default_per_min args = 0 then DEFAULT_RATE_PER_MIN else ma_rate_default_per_min args)"
  have "limiter_node ` set (workload_ops ?a ?b) = {?a, ?b}" by (auto simp: workload_ops_def)
  then have nodes: "card (limiter_node ` set (workload_ops ?a ?b)) = 2" using assms(2) by simp
  have sets: "set_limit_calls (workload_ops ?a ?b) = 1" by (simp add: workload_ops_def set_limit_calls_consumes)
  have "25 + min 3 c + (5 + (3 - c)) = 33" by simp
  then have total: "of_nat (25 + min 3 c) + of_nat (5 + (3 - c)) = (33 :: u64)"
    by (metis of_nat_add of_nat_numeral)
  have "RateLimiter_metrics (limiter_workload (ma_rate_default_per_min args) ?a ?b) =
      \<lparr>rm_total_try_consume_calls = 33, rm_total_allowed = of_nat (25 + min 3 c),
       rm_total_denied = of_nat (5 + (3 - c)), rm_total_set_limit_calls = 1, rm_tracked_nodes = 2\<rparr>"
    using total
    by (simp add: limiter_workload_run limiter_metrics_account workload_outcomes [OF assms(2)] nodes sets Let_def
        flip: c_def)
  then show ?thesis
    using nonce_workload_metrics [OF assms(1)] assms(3)
    by (simp add: metrics_cmd_def metrics_snapshot_def to_pretty_json_def println_def io_bind_def Let_def c_def
        DEFAULT_RATE_PER_MIN_def)
qed


section \<open>From key to verified ticket\<close>

text \<open>
  What the pipeline needs of its environment: base64 text of a non-empty string has no white space
  at its ends, a path can be written and read back, and the printed form of a ticket parses
  to the ticket.
\<close>

definition base64_printable :: "('sk, 'vk, 'sg, 'z) crates_scheme \<Rightarrow> bool" where
  "base64_printable cr \<longleftrightarrow>
     (\<forall>bs. bs \<noteq> [] \<longrightarrow> (let s = b64_encode_string cr bs in s \<noteq> [] \<and> solid (hd s) \<and> solid (last s)))"

definition usable :: "file_system \<Rightarrow> path \<Rightarrow> bool" where
  "usable fs p \<longleftrightarrow> fs_write_fault fs p = None \<and> fs_read_fault fs p = None"

definition prints_ticket :: "('sk, 'vk, 'sg, 'z) cli_crates_scheme \<Rightarrow> SignedTicket \<Rightarrow> bool" where
  "prints_ticket cr t \<longleftrightarrow> (\<exists>s. ticket_to_pretty cr t = Inr s \<and> s \<noteq> [] \<and> solid (hd s) \<and> solid (last s) \<and>
     ticket_from_str cr s = Inr t)"

lemma key_file_roundtrip:
  assumes "ed25519_correct cr" and "base64_roundtrip cr" and "base64_printable cr"
  shows "decode_secret_key cr (trim (encode_secret_key cr sk @ [LF])) = Inr sk"
    and "decode_public_key cr (trim (encode_public_key cr vk @ [LF])) = Inr vk"
proof -
  have sk: "length (sk_to_keypair_bytes cr sk) = 64" "sk_from_keypair_bytes cr (sk_to_keypair_bytes cr sk) = Some sk"
    and vk: "length (vk_as_bytes cr vk) = 32" "vk_from_bytes cr (vk_as_bytes cr vk) = Some vk"
    using assms(1) by (auto simp: ed25519_correct_def)
  have dec: "b64_decode cr (b64_encode_string cr bs) (length bs) = Some bs" for bs
    using assms(2) by (simp add: base64_roundtrip_def)
  have tr: "trim (b64_encode_string cr bs @ [LF]) = b64_encode_string cr bs" if "bs \<noteq> []" for bs
    using that assms(3) by (intro trim_solid_newline) (auto simp: base64_printable_def Let_def)
  have ne: "sk_to_keypair_bytes cr sk \<noteq> []" "vk_as_bytes cr vk \<noteq> []" using sk(1) vk(1) by auto
  show "decode_secret_key cr (trim (encode_secret_key cr sk @ [LF])) = Inr sk"
    using dec [of "sk_to_keypair_bytes cr sk"] sk tr [OF ne(1)] by (simp add: encode_secret_key_def decode_secret_key_def)
  show "decode_public_key cr (trim (encode_public_key cr vk @ [LF])) = Inr vk"
    using dec [of "vk_as_bytes cr vk"] vk tr [OF ne(2)] by (simp add: encode_public_key_def decode_public_key_def)
qed

lemmas cli_run = io_bind_def io_call_def read_text_def write_text_def println_def current_time_def
  fs_write_def fs_read_to_string_def

text \<open>
  C10. The operator's pipeline on the command line: \<^verbatim>\<open>keygen\<close>, then \<^verbatim>\<open>ticket issue\<close> with the secret it wrote, then
  \<^verbatim>\<open>ticket verify\<close> with the public key it wrote all succeed. Up to the expiry \<^verbatim>\<open>verify\<close> prints that the
  ticket is verified, with the issuer's identity as issuer and subject and the relay, ALPN and expiry that
  were asked for; afterwards it fails as expired and prints nothing.
\<close>

theorem cli_ticket_pipeline:
  assumes crates: "ed25519_correct cr" "base64_roundtrip cr" "json_total cr" "base64_printable cr"
    and paths: "distinct [sp, pp, tp]" "usable (cw_fs w) sp" "usable (cw_fs w) pp" "usable (cw_fs w) tp"
    and time: "now_unix_seconds (cw_time w) = Some now" "is_i64 (now + ttl)"
    and json: "\<And>t. issue_ticket cr checks nonce sk None url alpn ttl now = Some (Inr t) \<Longrightarrow> prints_ticket cr t"
  shows "\<exists>w1 w2.
    keygen cr sk \<lparr>kg_out = sp, kg_public_out = pp\<rparr> w = (Some (Inr ()), w1) \<and>
    issue cr checks nonce \<lparr>ti_secret_key = sp, ti_subject_public_key = None, ti_relay_url = url, ti_alpn = alpn,
      ti_ttl_seconds = ttl, ti_output = Some tp\<rparr> w1 = (Some (Inr ()), w2) \<and>
    (\<forall>tm. verify_cmd cr \<lparr>tv_ticket = tp, tv_public_key = pp, tv_now = Some tm\<rparr> w2 =
      (if tm \<le> now + ttl then (Some (Inr ()), w2\<lparr>cw_stdout := cw_stdout w2 @
         [''verified=true'', ''issuer='' @ encode_public_key cr (verifying_key cr sk),
          ''subject='' @ encode_public_key cr (verifying_key cr sk), ''relay_url='' @ url, ''alpn='' @ alpn,
          ''expires_at='' @ show_int (now + ttl)]\<rparr>)
       else (Some (Inl (TicketFailure Expired)), w2)))"
proof -
  obtain t where t: "issue_ticket cr checks nonce sk None url alpn ttl now = Some (Inr t)"
    using issue_ticket_total [OF crates(3) time(2)] by blast
  note c = issue_ticket_claims [OF t]
  have claims: "verify_ticket cr t (verifying_key cr sk) tm = (if tm \<le> now + ttl then Inr (st_claims t) else Inl Expired)" for tm
    using verify_sign_ticket [OF crates(1,2) c(2), of tm] c(1) time(2)
    by (auto simp: i64_add_exact verify_ticket_def)
  obtain s where s: "ticket_to_pretty cr t = Inr s" "trim (s @ [LF]) = s" "ticket_from_str cr s = Inr t"
    using json [OF t] trim_solid_newline by (auto simp: prints_ticket_def)
  note keys = key_file_roundtrip [OF crates(1,2,4)]
  let ?files = "(fs_file (cw_fs w))(sp \<mapsto> encode_secret_key cr sk @ [LF], pp \<mapsto> encode_public_key cr (verifying_key cr sk) @ [LF])"
  let ?w1 = "w\<lparr>cw_fs := (cw_fs w)\<lparr>fs_file := ?files\<rparr>,
    cw_stdout := cw_stdout w @ [''secret_key_path='' @ path_display sp, ''public_key_path='' @ path_display pp,
      ''node_id='' @ encode_public_key cr (verifying_key cr sk)]\<rparr>"
  let ?w2 = "?w1\<lparr>cw_fs := (cw_fs ?w1)\<lparr>fs_file := ?files(tp \<mapsto> s @ [LF])\<rparr>,
    cw_stdout := cw_stdout ?w1 @ [''ticket_path='' @ path_display tp]\<rparr>"
  have "keygen cr sk \<lparr>kg_out = sp, kg_public_out = pp\<rparr> w = (Some (Inr ()), ?w1)"
    using paths by (simp add: keygen_def cli_run usable_def Let_def)
  moreover have "issue cr checks nonce \<lparr>ti_secret_key = sp, ti_subject_public_key = None, ti_relay_url = url, ti_alpn = alpn,
      ti_ttl_seconds = ttl, ti_output = Some tp\<rparr> ?w1 = (Some (Inr ()), ?w2)"
    using paths time t s(1) keys(1)
    by (simp add: issue_def read_subject_key_def emit_def to_pretty_json_def cli_run usable_def)
  moreover have "verify_cmd cr \<lparr>tv_ticket = tp, tv_public_key = pp, tv_now = Some tm\<rparr> ?w2 =
      (if tm \<le> now + ttl then (Some (Inr ()), ?w2\<lparr>cw_stdout := cw_stdout ?w2 @
         [''verified=true'', ''issuer='' @ encode_public_key cr (verifying_key cr sk),
          ''subject='' @ encode_public_key cr (verifying_key cr sk), ''relay_url='' @ url, ''alpn='' @ alpn,
          ''expires_at='' @ show_int (now + ttl)]\<rparr>)
       else (Some (Inl (TicketFailure Expired)), ?w2))" for tm
    using paths s(2,3) keys(2) claims [of tm] c(1) time(2)
    by (simp add: verify_cmd_def load_ticket_def cli_run usable_def i64_add_exact NodeId_from_verifying_key_def
        encode_public_key_def)
  ultimately show ?thesis by blast
qed

section \<open>The protocol of the tunnel\<close>

lemma server_config_alpn: "default_server_config tls dev = Inr st \<Longrightarrow> st_alpn_protocols st = [DEFAULT_ALPN]"
  by (auto simp: default_server_config_def rustls_server_config_def default_alpn_bytes_def split: sum.splits)

lemma pinned_config_alpn: "pinned_client_config_with_alpn tls cert alpn = Inr ct \<Longrightarrow> ct_alpn_protocols ct = [alpn]"
  by (auto simp: pinned_client_config_with_alpn_def rustls_pinned_client_config_def split: sum.splits)

text \<open>TLS protocol negotiation: the server takes the first of its protocols that the client offers.\<close>

definition alpn_negotiated :: "ServerTls \<Rightarrow> ClientTls \<Rightarrow> string option" where
  "alpn_negotiated server client = find (\<lambda>p. p \<in> set (ct_alpn_protocols client)) (st_alpn_protocols server)"

text \<open>
  C34. The ALPN option of \<^verbatim>\<open>tunnel serve\<close> never reaches the TLS configuration: a server that was set up, with any
  ALPN, offers only the ticket protocol \<^verbatim>\<open>/snappipe/0\<close>. A client of \<^verbatim>\<open>tunnel connect\<close> agrees on a protocol
  with it only if it was told that one explicitly; with the default of both commands there is none.
\<close>

theorem tunnel_alpn_mismatch:
  assumes "tunnel_serve_setup cr tls sargs w = (Some (Inr su), w')"
    and "pinned_client_config_with_alpn tls' cert (cn_alpn cargs) = Inr client"
  shows "alpn_negotiated (ep_tls (ss_endpoint su)) client =
      (if cn_alpn cargs = DEFAULT_ALPN then Some DEFAULT_ALPN else None) \<and>
    (cn_alpn cargs = TUNNEL_ALPN \<longrightarrow> alpn_negotiated (ep_tls (ss_endpoint su)) client = None)"
proof -
  obtain dev where "default_server_config tls dev = Inr (ep_tls (ss_endpoint su))"
    using assms(1) by (auto simp: tunnel_serve_setup_def io_bind_eq_Inr split: option.splits)
  then have "st_alpn_protocols (ep_tls (ss_endpoint su)) = [DEFAULT_ALPN]" by (rule server_config_alpn)
  moreover have "ct_alpn_protocols client = [cn_alpn cargs]"
    using assms(2) by (rule pinned_config_alpn)
  ultimately show ?thesis by (auto simp: alpn_negotiated_def TUNNEL_ALPN_def DEFAULT_ALPN_def)
qed

text \<open>
  The trust of a tunnel server is not configurable: a trust store given on the command line makes the command
  fail before anything is bound, and every server that starts trusts every issuer whose
  ticket verifies under the issuer key it read.
\<close>

lemma tunnel_serve_trust:
  "(ts_trust_store sargs = Some p \<longrightarrow> (\<nexists>su w'. tunnel_serve_setup cr tls sargs w = (Some (Inr su), w'))) \<and>
   (tunnel_serve_setup cr tls sargs w = (Some (Inr su), w') \<longrightarrow>
      ts_trust_store sargs = None \<and> (\<forall>issuer. ss_trust su issuer) \<and> w' = w \<and>
      (\<exists>raw. fs_read_to_string (cw_fs w) (ts_issuer_public_key sargs) = Inr raw \<and>
         decode_public_key cr (trim raw) = Inr (ss_issuer su)))"
  by (auto simp: tunnel_serve_setup_def io_bind_eq_Inr read_text_def io_call_eq_Inr allow_all_trust_def split: option.splits)

section \<open>Witnesses\<close>

text \<open>
  Concrete crates for the witnesses: hexadecimal for base64, one-byte keys, and a printer that
  knows one ticket.
\<close>

definition demo_hex :: "(u8, u8, u8) crates" where
  "demo_hex = demo_crates\<lparr>b64_encode_string := hex_encode,
     b64_decode := (\<lambda>s n. case hex_pairs s of Inl _ \<Rightarrow> None | Inr bs \<Rightarrow> if length bs = n then Some bs else None)\<rparr>"

definition demo_issued :: SignedTicket where
  "demo_issued = (case issue_ticket demo_hex True [1, 2] 7 None ''quic://relay'' ''/snappipe/0'' 300 1000 of
     Some (Inr t) \<Rightarrow> t | _ \<Rightarrow> demo_ticket)"

definition demo_cli :: "(u8, u8, u8) cli_crates" where
  "demo_cli = crates.extend demo_hex
     \<lparr>ticket_to_vec = (\<lambda>_. Inl ''unused''), ticket_from_slice = (\<lambda>_. Inl ''unused''),
      response_to_vec = (\<lambda>_. Inl ''unused''), response_from_slice = (\<lambda>_. Inl ''unused''),
      ticket_to_pretty = (\<lambda>_. Inr ''{ticket}''), claims_to_pretty = (\<lambda>_. Inr ''{claims}''),
      profile_to_pretty = (\<lambda>_. Inr ''{profile}''),
      metrics_to_pretty = (\<lambda>m. Inr (show_nat (nm_current_size (ms_nonce_store m)))),
      ticket_from_str = (\<lambda>s. if s = ''{ticket}'' then Inr demo_issued else Inl ''syntax''),
      parse_socket_addr = (\<lambda>s. Inr \<lparr>sa_ip = s, sa_port = 4443\<rparr>)\<rparr>"

lemma demo_cli_fields [simp]:
  "verifying_key demo_cli = verifying_key demo_hex" "vk_as_bytes demo_cli = vk_as_bytes demo_hex"
  "b64_encode_string demo_cli = hex_encode" "b64_encode_string demo_hex = hex_encode" "b64_decode demo_cli = b64_decode demo_hex"
  "claims_to_json demo_cli = claims_to_json demo_hex" "sign demo_cli = sign demo_hex"
  "sig_to_bytes demo_cli = sig_to_bytes demo_hex"
  "ticket_to_pretty demo_cli t = Inr ''{ticket}''" "ticket_from_str demo_cli ''{ticket}'' = Inr demo_issued"
  "metrics_to_pretty demo_cli m = Inr (show_nat (nm_current_size (ms_nonce_store m)))"
  by (simp_all add: demo_cli_def crates.defs demo_hex_def)

lemma demo_cli_correct [simp]:
  "ed25519_correct demo_cli" "base64_roundtrip demo_cli" "json_total demo_cli" "base64_printable demo_cli"
proof -
  show "ed25519_correct demo_cli" "json_total demo_cli"
    by (simp_all add: ed25519_correct_def json_total_def demo_cli_def crates.defs demo_hex_def demo_crates_def)
  show "base64_roundtrip demo_cli"
    by (simp add: base64_roundtrip_def demo_cli_def crates.defs demo_hex_def hex_pairs_encode)
  have "hex_encode bs \<noteq> []" if "bs \<noteq> []" for bs using that length_hex_encode [of bs] by auto
  then show "base64_printable demo_cli"
    using hex_encode_chars by (auto simp: base64_printable_def Let_def dest: hd_in_set last_in_set)
qed

lemma demo_cli_issue:
  "issue_ticket demo_cli checks nonce sk sub url alpn ttl now = issue_ticket demo_hex checks nonce sk sub url alpn ttl now"
  by (cases sub; cases "i64_add checks now ttl")
    (simp_all add: issue_ticket_def sign_ticket_def canonical_ticket_payload_def NodeId_from_verifying_key_def Let_def
      split: sum.split)

definition demo_disk :: cli_world where
  "demo_disk = \<lparr>cw_fs = \<lparr>fs_file = Map.empty, fs_read_fault = Map.empty, fs_write_fault = Map.empty, fs_mkdir_fault = Map.empty\<rparr>,
     cw_stdout = [], cw_time = 1000 * 1000000000\<rparr>"

theorem cli_ticket_pipeline_witness:
  "\<exists>w1 w2. keygen demo_cli 7 \<lparr>kg_out = [''s''], kg_public_out = [''p'']\<rparr> demo_disk = (Some (Inr ()), w1) \<and>
    issue demo_cli True [1, 2] \<lparr>ti_secret_key = [''s''], ti_subject_public_key = None, ti_relay_url = ''quic://relay'',
      ti_alpn = ''/snappipe/0'', ti_ttl_seconds = 300, ti_output = Some [''t'']\<rparr> w1 = (Some (Inr ()), w2) \<and>
    fst (verify_cmd demo_cli \<lparr>tv_ticket = [''t''], tv_public_key = [''p''], tv_now = Some 1300\<rparr> w2) = Some (Inr ()) \<and>
    fst (verify_cmd demo_cli \<lparr>tv_ticket = [''t''], tv_public_key = [''p''], tv_now = Some 1301\<rparr> w2) =
      Some (Inl (TicketFailure Expired))"
proof -
  have d: "distinct [[''s''], [''p''], [''t'']]" by simp
  have u: "usable (cw_fs demo_disk) p" for p by (simp add: usable_def demo_disk_def)
  have t: "now_unix_seconds (cw_time demo_disk) = Some 1000"
    by (simp add: now_unix_seconds_def duration_since_epoch_def as_secs_def demo_disk_def i64_simps i64_wrap_def)
  have r: "is_i64 (1000 + 300)" by (simp add: i64_simps)
  have j: "prints_ticket demo_cli x"
    if "issue_ticket demo_cli True [1, 2] 7 None ''quic://relay'' ''/snappipe/0'' 300 1000 = Some (Inr x)" for x
    using that by (simp add: prints_ticket_def demo_cli_issue demo_issued_def solid_def)
  show ?thesis
    using cli_ticket_pipeline [OF demo_cli_correct d u u u t r j] by fastforce
qed

theorem metrics_cmd_exact_witness:
  "metrics_cmd demo_cli 7 9 \<lparr>ma_nonce_ttl_secs = 60, ma_rate_default_per_min = 100\<rparr> demo_disk =
     (Some (Inr ()), demo_disk\<lparr>cw_stdout := [show_nat 50]\<rparr>)"
proof -
  let ?args = "\<lparr>ma_nonce_ttl_secs = 60, ma_rate_default_per_min = 100\<rparr> :: MetricsArgs"
  have t: "is_i64 (ma_nonce_ttl_secs ?args)" by (simp add: i64_simps)
  have n: "NodeId_from_verifying_key demo_cli (verifying_key demo_cli 7) \<noteq> NodeId_from_verifying_key demo_cli (verifying_key demo_cli 9)"
    using hex_pairs_encode [of "replicate 32 7"] hex_pairs_encode [of "replicate 32 9"]
    by (auto simp: NodeId_from_verifying_key_def demo_hex_def demo_crates_def)
  show ?thesis
    using metrics_cmd_exact [OF t n, of "\<lambda>m. show_nat (nm_current_size (ms_nonce_store m))" demo_disk]
    by (simp add: demo_disk_def Let_def)
qed

text \<open>TLS crates that accept everything, and a server set up with key files on disk.\<close>

definition demo_serve_args :: TunnelServeArgs where
  "demo_serve_args = \<lparr>ts_issuer_public_key = [''p''], ts_public_key = [''p''], ts_trust_store = None,
     ts_quic_bind = ''0.0.0.0:4443'', ts_target = ''127.0.0.1:25565'', ts_alpn = TUNNEL_ALPN\<rparr>"

definition demo_connect_args :: TunnelConnectArgs where
  "demo_connect_args = \<lparr>cn_secret_key = [''s''], cn_ticket = [''t''], cn_issuer_public_key = [''p''],
     cn_server_cert = [''c''], cn_relay = ''relay:4443'', cn_listen = ''127.0.0.1:25566'', cn_alpn = TUNNEL_ALPN\<rparr>"

definition demo_keys :: cli_world where
  "demo_keys = demo_disk\<lparr>cw_fs := (cw_fs demo_disk)\<lparr>fs_file := [[''p''] \<mapsto> encode_public_key demo_cli 7 @ [LF]]\<rparr>\<rparr>"

lemma demo_serve_setup: "\<exists>su. tunnel_serve_setup demo_cli demo_tls demo_serve_args demo_keys = (Some (Inr su), demo_keys)"
proof -
  have k: "decode_public_key demo_cli (trim (encode_public_key demo_cli 7 @ [LF])) = Inr 7"
    by (rule key_file_roundtrip) simp_all
  have a: "parse_socket_addr demo_cli s = Inr \<lparr>sa_ip = s, sa_port = 4443\<rparr>" for s
    by (simp add: demo_cli_def crates.defs)
  show ?thesis
    by (simp add: tunnel_serve_setup_def cli_run demo_keys_def demo_serve_args_def demo_disk_def k a demo_tls_def
        self_signed_dev_cert_def default_server_config_def rustls_server_config_def build_transport_config_def)
qed

theorem tunnel_alpn_mismatch_witness:
  "\<exists>su client. tunnel_serve_setup demo_cli demo_tls demo_serve_args demo_keys = (Some (Inr su), demo_keys) \<and>
     pinned_client_config_with_alpn demo_tls [1] (cn_alpn demo_connect_args) = Inr client \<and>
     alpn_negotiated (ep_tls (ss_endpoint su)) client = None"
proof -
  obtain su where s: "tunnel_serve_setup demo_cli demo_tls demo_serve_args demo_keys = (Some (Inr su), demo_keys)"
    using demo_serve_setup by blast
  obtain client where c: "pinned_client_config_with_alpn demo_tls [1] (cn_alpn demo_connect_args) = Inr client"
    by (simp add: pinned_client_config_with_alpn_def rustls_pinned_client_config_def demo_tls_def)
  have "cn_alpn demo_connect_args = TUNNEL_ALPN" by (simp add: demo_connect_args_def)
  with tunnel_alpn_mismatch [OF s c] s c show ?thesis by blast
qed

end
