(* ===== verification/Rendezvous.thy ===== *)
theory Rendezvous
  imports Listener
begin

text \<open>
  A client's \<^verbatim>\<open>client_handshake\<close> (\<^verbatim>\<open>src/session.rs\<close>) against the connection task of the relay listener
  (\<^verbatim>\<open>src/relay/listener.rs\<close>). Both open a stream of their own and wait for a frame on it. The two run concurrently
  over the same world, so the argument is one of rely and guarantee: what each side's code does to the
  bytes on their way is proved of it, and is what the other side relies on while it waits.
\<close>

section \<open>What quinn promises\<close>







section \<open>The two sides\<close>






section \<open>Witness\<close>










end
