(* ===== verification/Handshake_Example.thy ===== *)
theory Handshake_Example
  imports Tunnel
begin

text \<open>
  \<^verbatim>\<open>examples/handshake.rs\<close>: Alice issues a ticket for Bob, connects to Bob's endpoint, passes the handshake and
  has a payload echoed. Alice is the main task, Bob the spawned one; both are computations over the same
  world, Alice with the operations of the client's connection and Bob with those of the server's. Progress messages on
  standard output are left out; the keys and the nonce drawn from the operating system are arguments.
\<close>

section \<open>Bob\<close>

definition AllowOne_is_trusted :: "NodeId \<Rightarrow> TrustCheck" where
  "AllowOne_is_trusted allowed issuer \<longleftrightarrow> issuer = allowed"

datatype BobError =
    NoIncoming
  | IncomingAwait quinn_error
  | AcceptBi quinn_error
  | ServerHandshakeFailed SessionError
  | BobRead quinn_error
  | BobEof
  | BobWrite quinn_error
  | BobFinish quinn_error

record 'w bob_ops = "'w quinn" +
  bo_accept :: "'w \<Rightarrow> bool \<times> 'w"
  bo_incoming :: "'w \<Rightarrow> (quinn_error + unit) \<times> 'w"
  bo_sleep :: "nat \<Rightarrow> 'w \<Rightarrow> 'w"
  bo_close :: "nat \<Rightarrow> string \<Rightarrow> 'w \<Rightarrow> 'w"

definition bob_admit ::
  "('sk, 'vk, 'sg, 'y) session_crates_scheme \<Rightarrow> (nat \<Rightarrow> bool) \<Rightarrow> ('w, 'z) bob_ops_scheme \<Rightarrow> TrustCheck \<Rightarrow> 'vk \<Rightarrow> 'vk \<Rightarrow>
     int \<Rightarrow> ('w, BobError, HandshakeSummary) io" where
  "bob_admit cr alloc ops trust alice_vk bob_vk expires_at =
     io_bind (\<lambda>w. case bo_accept ops w of (incoming, w') \<Rightarrow> (Some (if incoming then Inr () else Inl NoIncoming), w')) (\<lambda>_.
     io_bind (io_call IncomingAwait (bo_incoming ops)) (\<lambda>_.
     io_bind (io_call AcceptBi (q_accept_bi ops)) (\<lambda>s.
     io_map_err ServerHandshakeFailed
       (server_handshake cr alloc (quinn.truncate ops) s alice_vk bob_vk trust expires_at))))"

text \<open>The echo on the stream \<open>s\<close>; the result is the number of bytes.\<close>

definition bob_echo :: "(nat \<Rightarrow> bool) \<Rightarrow> ('w, 'z) bob_ops_scheme \<Rightarrow> stream_id \<Rightarrow> ('w, BobError, nat) io" where
  "bob_echo alloc ops s =
     io_bind (vec_zeroed alloc 4096) (\<lambda>_.
     io_bind (io_call BobRead (q_read ops s 4096)) (\<lambda>got.
     io_bind (io_result (case got of None \<Rightarrow> Inl BobEof | Some bs \<Rightarrow> Inr bs)) (\<lambda>bs.
     io_bind (io_call BobWrite (q_write_all ops s bs)) (\<lambda>_.
     io_bind (io_call BobFinish (q_finish ops s)) (\<lambda>_.
     io_ok (length bs))))))"

definition bob_leave :: "('w, 'z) bob_ops_scheme \<Rightarrow> ('w, BobError, unit) io" where
  "bob_leave ops w = (Some (Inr ()), bo_close ops 0 ''echo done'' (bo_sleep ops 50 w))"

definition run_bob ::
  "('sk, 'vk, 'sg, 'y) session_crates_scheme \<Rightarrow> (nat \<Rightarrow> bool) \<Rightarrow> ('w, 'z) bob_ops_scheme \<Rightarrow> TrustCheck \<Rightarrow> 'vk \<Rightarrow> 'vk \<Rightarrow>
     int \<Rightarrow> ('w, BobError, unit) io" where
  "run_bob cr alloc ops trust alice_vk bob_vk expires_at =
     io_bind (bob_admit cr alloc ops trust alice_vk bob_vk expires_at) (\<lambda>_.
     io_bind (io_call AcceptBi (q_accept_bi ops)) (\<lambda>s.
     io_finally (io_bind (bob_echo alloc ops s) (\<lambda>_. bob_leave ops)) (q_drop ops s)))"

section \<open>The text of an error\<close>

text \<open>A \<^verbatim>\<open>dyn Error\<close> is what it displays and what caused it.\<close>

datatype dyn_error = Dyn (err_text: string) (err_source: "dyn_error option")

fun source_loop :: "string \<Rightarrow> dyn_error option \<Rightarrow> string" where
  "source_loop chain None = chain"
| "source_loop chain (Some (Dyn text cause)) = source_loop (chain @ '': '' @ text) cause"

fun source :: "dyn_error \<Rightarrow> string" where
  "source (Dyn text cause) = source_loop text cause"

text \<open>The errors made by \<^verbatim>\<open>anyhow!\<close> have a text and no cause; those of \<^verbatim>\<open>quinn\<close> keep their own cause.\<close>

fun BobError_dyn :: "(SessionError \<Rightarrow> string) \<Rightarrow> (quinn_error \<Rightarrow> dyn_error option) \<Rightarrow> BobError \<Rightarrow> dyn_error" where
  "BobError_dyn display cause NoIncoming = Dyn ''no incoming'' None"
| "BobError_dyn display cause (IncomingAwait e) = Dyn (''incoming await: '' @ e) None"
| "BobError_dyn display cause (AcceptBi e) = Dyn (''accept_bi: '' @ e) None"
| "BobError_dyn display cause (ServerHandshakeFailed e) = Dyn (''server handshake failed: '' @ display e) None"
| "BobError_dyn display cause (BobRead e) = Dyn e (cause e)"
| "BobError_dyn display cause BobEof = Dyn ''eof'' None"
| "BobError_dyn display cause (BobWrite e) = Dyn e (cause e)"
| "BobError_dyn display cause (BobFinish e) = Dyn e (cause e)"

section \<open>Alice\<close>

datatype ExampleError =
    EX_Ticket TicketError
  | EX_Quic QuicEndpointError
  | EX_ServerBind string
  | EX_LocalAddr io_error
  | EX_ConnectAttempt string
  | EX_ConnectTimeout
  | EX_ConnectFailed string
  | EX_ClientHandshake SessionError
  | EX_OpenBi quinn_error
  | EX_Write quinn_error
  | EX_Finish quinn_error
  | EX_ReadExact quinn_error
  | EX_EchoMismatch bytes bytes
  | EX_TaskTimeout
  | EX_Join string
  | EX_BobFailed string

text \<open>
  \<open>ao_spawn_bob\<close> starts Bob's task with the endpoint and the arguments of \<open>run_bob\<close> (the last one an addition that may
  overflow); \<open>ao_join\<close> waits for it for some seconds, with \<open>None\<close> for the timeout.
\<close>

record ('vk, 'w) alice_ops = "'w quinn" +
  ao_now :: "'w \<Rightarrow> system_time \<times> 'w"
  ao_local_addr :: "'w \<Rightarrow> (io_error + SocketAddr) \<times> 'w"
  ao_spawn_bob :: "ServerTls \<Rightarrow> TrustCheck \<Rightarrow> 'vk \<Rightarrow> 'vk \<Rightarrow> int option \<Rightarrow> 'w \<Rightarrow> 'w"
  ao_connect :: "SocketAddr \<Rightarrow> string \<Rightarrow> 'w \<Rightarrow> (string + unit) \<times> 'w"
  ao_connecting :: "nat \<Rightarrow> 'w \<Rightarrow> (string + unit) option \<times> 'w"
  ao_close :: "nat \<Rightarrow> string \<Rightarrow> 'w \<Rightarrow> 'w"
  ao_join :: "nat \<Rightarrow> 'w \<Rightarrow> (string + (BobError + unit)) option \<times> 'w"

definition loopback :: SocketAddr where
  "loopback = \<lparr>sa_ip = ''127.0.0.1'', sa_port = 0\<rparr>"

definition example_payload :: bytes where
  "example_payload = map of_char ''hello from alice''"

text \<open>Up to the spawning of Bob's task; the result is the ticket and the address to connect to.\<close>

definition alice_setup ::
  "('sk, 'vk, 'sg, 'y) session_crates_scheme \<Rightarrow> tls_crates \<Rightarrow> bool \<Rightarrow> bytes \<Rightarrow> ('vk, 'w, 'z) alice_ops_scheme \<Rightarrow> 'sk \<Rightarrow> 'sk \<Rightarrow>
     ('w, ExampleError, SignedTicket \<times> SocketAddr) io" where
  "alice_setup cr tls checks nonce ops alice_key bob_key =
     (let alice_vk = verifying_key cr alice_key; bob_vk = verifying_key cr bob_key in
      io_bind (\<lambda>w. case ao_now ops w of (t, w') \<Rightarrow> (map_option Inr (now_unix_seconds t), w')) (\<lambda>now.
      io_bind (\<lambda>w. (map_option (map_err EX_Ticket)
         (issue_ticket cr checks nonce alice_key (Some bob_vk) ''quic://direct'' DEFAULT_ALPN 300 now), w)) (\<lambda>ticket.
      io_bind (io_result (map_err EX_Quic (self_signed_dev_cert tls []))) (\<lambda>cert.
      io_bind (io_result (map_err EX_Quic (default_server_config tls cert))) (\<lambda>server_cfg.
      io_bind (io_result (map_err EX_ServerBind (tls_bind tls loopback))) (\<lambda>_.
      io_bind (io_result (map_err EX_Quic (build_client_endpoint tls (QuicEndpointConfig_client loopback) cert))) (\<lambda>_.
      io_bind (io_call EX_LocalAddr (ao_local_addr ops)) (\<lambda>server_addr w.
        (Some (Inr (ticket, server_addr)),
         ao_spawn_bob ops server_cfg (AllowOne_is_trusted (NodeId_from_verifying_key cr alice_vk)) alice_vk bob_vk
           (i64_add checks now 300) w)))))))))"

definition alice_connect :: "('vk, 'w, 'z) alice_ops_scheme \<Rightarrow> SocketAddr \<Rightarrow> ('w, ExampleError, unit) io" where
  "alice_connect ops server_addr =
     io_bind (io_call EX_ConnectAttempt (ao_connect ops server_addr ''localhost'')) (\<lambda>_ w.
     case ao_connecting ops 5 w of
       (None, w') \<Rightarrow> (Some (Inl EX_ConnectTimeout), w')
     | (Some r, w') \<Rightarrow> (Some (map_err EX_ConnectFailed r), w'))"

definition alice_say :: "('vk, 'w, 'z) alice_ops_scheme \<Rightarrow> stream_id \<Rightarrow> ('w, ExampleError, unit) io" where
  "alice_say ops s =
     io_bind (io_call EX_Write (q_write_all ops s example_payload)) (\<lambda>_. io_call EX_Finish (q_finish ops s))"

definition alice_hear :: "(nat \<Rightarrow> bool) \<Rightarrow> ('vk, 'w, 'z) alice_ops_scheme \<Rightarrow> stream_id \<Rightarrow> ('w, ExampleError, unit) io" where
  "alice_hear alloc ops s =
     io_bind (vec_zeroed alloc (length example_payload)) (\<lambda>_.
     io_bind (io_call EX_ReadExact (q_read_exact ops s (length example_payload))) (\<lambda>buf.
     if buf \<noteq> example_payload then io_err (EX_EchoMismatch example_payload buf) else io_ok ()))"

definition alice_leave ::
  "(BobError \<Rightarrow> dyn_error) \<Rightarrow> ('vk, 'w, 'z) alice_ops_scheme \<Rightarrow> ('w, ExampleError, unit) io" where
  "alice_leave to_dyn ops w =
     (case ao_join ops 2 (ao_close ops 0 ''demo done'' w) of
        (None, w') \<Rightarrow> (Some (Inl EX_TaskTimeout), w')
      | (Some (Inl e), w') \<Rightarrow> (Some (Inl (EX_Join e)), w')
      | (Some (Inr bob_result), w') \<Rightarrow> (Some (map_err (\<lambda>e. EX_BobFailed (source (to_dyn e))) bob_result), w'))"

definition example_main ::
  "('sk, 'vk, 'sg, 'y) session_crates_scheme \<Rightarrow> tls_crates \<Rightarrow> (nat \<Rightarrow> bool) \<Rightarrow> bool \<Rightarrow> bytes \<Rightarrow> (BobError \<Rightarrow> dyn_error) \<Rightarrow>
     ('vk, 'w, 'z) alice_ops_scheme \<Rightarrow> 'sk \<Rightarrow> 'sk \<Rightarrow> ('w, ExampleError, unit) io" where
  "example_main cr tls alloc checks nonce to_dyn ops alice_key bob_key =
     io_bind (alice_setup cr tls checks nonce ops alice_key bob_key) (\<lambda>(ticket, server_addr).
     io_bind (alice_connect ops server_addr) (\<lambda>_.
     io_bind (io_map_err EX_ClientHandshake (client_handshake cr alloc (quinn.truncate ops) ticket)) (\<lambda>_.
     io_bind (io_call EX_OpenBi (q_open_bi ops)) (\<lambda>s.
     io_finally
       (io_bind (alice_say ops s) (\<lambda>_. io_bind (alice_hear alloc ops s) (\<lambda>_. alice_leave to_dyn ops)))
       (q_drop ops s)))))"

section \<open>What success means\<close>

text \<open>The text of an error is those of its causes, joined by colons.\<close>

fun cause_texts :: "dyn_error option \<Rightarrow> string list" where
  "cause_texts None = []"
| "cause_texts (Some (Dyn text cause)) = text # cause_texts cause"

lemma source_loop_texts: "source_loop chain cause = chain @ concat (map (\<lambda>text. '': '' @ text) (cause_texts cause))"
  by (induction chain cause rule: source_loop.induct) simp_all

lemma source_texts: "source (Dyn text cause) = text @ concat (map (\<lambda>text. '': '' @ text) (cause_texts cause))"
  by (simp add: source_loop_texts)

text \<open>Bob's task succeeds only after it has admitted a client and echoed what it read.\<close>

lemma run_bob_admitted:
  assumes "run_bob cr alloc qb trust alice_vk bob_vk expires_at w = (Some (Inr ()), w')"
  shows "\<exists>s v body v' c. read_frame alloc (quinn.truncate qb) s v = (Some (Inr body), v') \<and>
    admission cr alice_vk bob_vk trust expires_at body = Inr c"
proof -
  obtain s v sm v' where
    "server_handshake cr alloc (quinn.truncate qb) s alice_vk bob_vk trust expires_at v = (Some (Inr sm), v')"
    using assms by (auto simp: run_bob_def bob_admit_def io_bind_eq_Inr io_map_err_eq_Inr)
  from server_handshake_Inr [OF this] show ?thesis by blast
qed

lemma run_bob_echoed:
  assumes "run_bob cr alloc qb trust alice_vk bob_vk expires_at w = (Some (Inr ()), w')"
  shows "\<exists>e v bs v1 v2. q_read qb e 4096 v = (Inr (Some bs), v1) \<and> q_write_all qb e bs v1 = (Inr (), v2)"
proof -
  obtain e v n v' where "bob_echo alloc qb e v = (Some (Inr n), v')"
    using assms by (auto simp: run_bob_def io_bind_eq_Inr io_finally_eq)
  then show ?thesis
    by (auto simp: bob_echo_def io_bind_eq_Inr io_call_eq_Inr vec_zeroed_def split: if_splits option.splits) blast
qed

text \<open>
  What \<^verbatim>\<open>tokio\<close> promises of a spawned task: joining it gives the result of the future it was spawned with, here a run of \<open>run_bob\<close> on
  the arguments of the spawn. \<open>task w\<close> are the arguments of the task that was spawned, which no other call changes.
\<close>

definition task_joined ::
  "('sk, 'vk, 'sg, 'y) session_crates_scheme \<Rightarrow> (nat \<Rightarrow> bool) \<Rightarrow> 'b bob_ops \<Rightarrow> ('vk, 'w) alice_ops \<Rightarrow>
     ('w \<Rightarrow> (TrustCheck \<times> 'vk \<times> 'vk \<times> int option) option) \<Rightarrow> bool" where
  "task_joined cr alloc qb ops task \<longleftrightarrow>
     (\<forall>w cfg trust avk bvk expires_at.
        task (ao_spawn_bob ops cfg trust avk bvk expires_at w) = Some (trust, avk, bvk, expires_at)) \<and>
     (\<forall>w. task (snd (q_open_bi ops w)) = task w) \<and> (\<forall>w s bs. task (snd (q_write_all ops s bs w)) = task w) \<and>
     (\<forall>w s. task (snd (q_finish ops s w)) = task w) \<and> (\<forall>w s n. task (snd (q_read_exact ops s n w)) = task w) \<and>
     (\<forall>w s. task (q_drop ops s w) = task w) \<and> (\<forall>w addr name. task (snd (ao_connect ops addr name w)) = task w) \<and>
     (\<forall>w secs. task (snd (ao_connecting ops secs w)) = task w) \<and> (\<forall>w code msg. task (ao_close ops code msg w) = task w) \<and>
     (\<forall>w secs trust avk bvk expires_at result w'.
        task w = Some (trust, avk, bvk, Some expires_at) \<and> ao_join ops secs w = (Some (Inr result), w') \<longrightarrow>
        (\<exists>v v'. run_bob cr alloc qb trust avk bvk expires_at v = (Some result, v')))"

lemma task_kept:
  assumes "task_joined cr alloc qb ops task"
  shows "io_keeps task (alice_connect ops addr)" "io_keeps task (client_handshake cr alloc' (quinn.truncate ops) t)"
    "io_keeps task (alice_say ops s)" "io_keeps task (alice_hear alloc' ops s)"
proof -
  have k: "task (snd (q_open_bi ops w)) = task w" "task (snd (q_write_all ops s bs w)) = task w" "task (snd (q_finish ops s w)) = task w"
      "task (snd (q_read_exact ops s n w)) = task w" "task (q_drop ops s w) = task w" "task (snd (ao_connect ops addr name w)) = task w"
      "task (snd (ao_connecting ops secs w)) = task w" for w s bs n addr name secs
    using assms by (simp_all add: task_joined_def)
  have "task (snd (case ao_connecting ops 5 w of
      (None, w') \<Rightarrow> (Some (Inl EX_ConnectTimeout), w') | (Some r, w') \<Rightarrow> (Some (map_err EX_ConnectFailed r), w'))) = task w" for w
    using k(7) [of 5 w] by (auto split: prod.split option.split)
  then show "io_keeps task (alice_connect ops addr)"
    unfolding alice_connect_def by (intro io_keeps_intros) (simp_all add: k io_keeps_def)
  show "io_keeps task (client_handshake cr alloc' (quinn.truncate ops) t)" by (rule client_handshake_keeps) (simp_all add: k)
  show "io_keeps task (alice_say ops s)" unfolding alice_say_def by (intro io_keeps_intros) (simp_all add: k)
  show "io_keeps task (alice_hear alloc' ops s)"
    unfolding alice_hear_def vec_zeroed_def by (intro io_keeps_intros) (simp_all add: k io_keeps_intros)
qed

lemma alice_setup_spawns:
  assumes "task_joined cr alloc qb ops task"
    and "alice_setup cr tls checks nonce ops alice_key bob_key w = (Some (Inr (t, addr)), w')"
  shows "\<exists>now. issue_ticket cr checks nonce alice_key (Some (verifying_key cr bob_key)) ''quic://direct'' DEFAULT_ALPN 300 now =
      Some (Inr t) \<and>
    task w' = Some (AllowOne_is_trusted (NodeId_from_verifying_key cr (verifying_key cr alice_key)), verifying_key cr alice_key,
      verifying_key cr bob_key, i64_add checks now 300)"
proof -
  have "task (ao_spawn_bob ops cfg trust avk bvk expires_at v) = Some (trust, avk, bvk, expires_at)"
    for cfg trust avk bvk expires_at v using assms(1) by (simp add: task_joined_def)
  with assms(2) show ?thesis
    by (auto simp: alice_setup_def Let_def io_bind_eq_Inr split: prod.splits)
qed

lemma alice_hear_echo:
  "alice_hear alloc ops s w = (Some (Inr ()), w') \<Longrightarrow> \<exists>v. q_read_exact ops s (length example_payload) w = (Inr example_payload, v)"
  by (auto simp: alice_hear_def io_bind_eq_Inr io_call_eq_Inr vec_zeroed_def split: if_splits)

lemma alice_leave_joined:
  "alice_leave to_dyn ops w = (Some (Inr ()), w') \<Longrightarrow>
     \<exists>v. ao_join ops 2 (ao_close ops 0 ''demo done'' w) = (Some (Inr (Inr ())), v)"
  by (auto simp: alice_leave_def split: prod.splits option.splits sum.splits)

text \<open>
  C27. What it means when the example ends without an error, over every behaviour of the network and of the scheduler. The ticket was issued
  by Alice's key for Bob; Alice's handshake with this ticket succeeded; the payload she then sent on a stream came back on it unchanged.
  And Bob's task, started by the program, admitted a ticket that verifies under Alice's key and names Alice as issuer and Bob as
  subject, at the expiry of Alice's ticket (which is passed for the current time), and echoed what it read. That ticket has the
  claims of Alice's, the only one she signed, unless its signature is a forgery.
\<close>

theorem example_sound:
  assumes joined: "task_joined cr alloc qb ops task"
    and main: "example_main cr tls alloc checks nonce to_dyn ops alice_key bob_key w = (Some (Inr ()), w')"
  shows "let alice_vk = verifying_key cr alice_key; bob_vk = verifying_key cr bob_key in
    \<exists>now t. issue_ticket cr checks nonce alice_key (Some bob_vk) ''quic://direct'' DEFAULT_ALPN 300 now = Some (Inr t) \<and>
      (\<exists>sm v v'. client_handshake cr alloc (quinn.truncate ops) t v = (Some (Inr sm), v')) \<and>
      (\<exists>s v v1 v2. alice_say ops s v = (Some (Inr ()), v1) \<and>
         q_read_exact ops s (length example_payload) v1 = (Inr example_payload, v2)) \<and>
      (\<exists>s v body v1 t' c. read_frame alloc (quinn.truncate qb) s v = (Some (Inr body), v1) \<and> ticket_from_slice cr body = Inr t' \<and>
         verify_ticket cr t' alice_vk (tc_expires_at (st_claims t)) = Inr c \<and>
         tc_issuer c = NodeId_from_verifying_key cr alice_vk \<and> tc_subject c = NodeId_from_verifying_key cr bob_vk \<and>
         (json_injective cr \<longrightarrow> c = st_claims t \<or> (\<exists>m sg. forgery cr alice_vk (payloads cr {st_claims t}) m sg))) \<and>
      (\<exists>e v bs v1 v2. q_read qb e 4096 v = (Inr (Some bs), v1) \<and> q_write_all qb e bs v1 = (Inr (), v2))"
proof -
  let ?avk = "verifying_key cr alice_key" and ?bvk = "verifying_key cr bob_key"
  obtain t addr w1 w2 sm w3 s w4 w5 w6 w7 where
    begun: "alice_setup cr tls checks nonce ops alice_key bob_key w = (Some (Inr (t, addr)), w1)"
    and connect: "alice_connect ops addr w1 = (Some (Inr ()), w2)"
    and shake: "client_handshake cr alloc (quinn.truncate ops) t w2 = (Some (Inr sm), w3)"
    and opened: "q_open_bi ops w3 = (Inr s, w4)" and say: "alice_say ops s w4 = (Some (Inr ()), w5)"
    and hear: "alice_hear alloc ops s w5 = (Some (Inr ()), w6)" and leave: "alice_leave to_dyn ops w6 = (Some (Inr ()), w7)"
    using main by (auto simp: example_main_def io_bind_eq_Inr io_map_err_eq_Inr io_call_eq_Inr io_finally_eq split: prod.splits)
  obtain now where now: "issue_ticket cr checks nonce alice_key (Some ?bvk) ''quic://direct'' DEFAULT_ALPN 300 now = Some (Inr t)"
    and "task w1 = Some (AllowOne_is_trusted (NodeId_from_verifying_key cr ?avk), ?avk, ?bvk, i64_add checks now 300)"
    using alice_setup_spawns [OF joined begun] by blast
  moreover obtain expires_at where e: "i64_add checks now 300 = Some expires_at"
    using now by (auto simp: issue_ticket_def Let_def split: option.splits)
  moreover have "task w6 = task w1"
    using io_keepsD [OF task_kept(1) [OF joined] connect] io_keepsD [OF task_kept(2) [OF joined] shake]
      io_keepsD [OF task_kept(3) [OF joined] say] io_keepsD [OF task_kept(4) [OF joined] hear] joined opened
    unfolding task_joined_def by (metis snd_conv)
  ultimately obtain v v' where bob: "run_bob cr alloc qb (AllowOne_is_trusted (NodeId_from_verifying_key cr ?avk)) ?avk ?bvk expires_at v =
      (Some (Inr ()), v')"
    using alice_leave_joined [OF leave] joined unfolding task_joined_def by metis
  have exp: "tc_expires_at (st_claims t) = expires_at" using issue_ticket_claims(1) [OF now] e by simp
  obtain u x body x' c where r: "read_frame alloc (quinn.truncate qb) u x = (Some (Inr body), x')"
      and a: "admission cr ?avk ?bvk (AllowOne_is_trusted (NodeId_from_verifying_key cr ?avk)) expires_at body = Inr c"
    using run_bob_admitted [OF bob] by blast
  then obtain t' where t': "ticket_from_slice cr body = Inr t'" "verify_ticket cr t' ?avk expires_at = Inr c"
      "tc_issuer c = NodeId_from_verifying_key cr ?avk" "tc_subject c = NodeId_from_verifying_key cr ?bvk"
    by (auto simp: admission_Inr_iff AllowOne_is_trusted_def)
  have "c = st_claims t \<or> (\<exists>m sg. forgery cr ?avk (payloads cr {st_claims t}) m sg)" if "json_injective cr"
    using t'(2) accepted_claims_forged [OF that] unfolding verify_ticket_Ok_iff by blast
  then show ?thesis
    unfolding Let_def using now shake say alice_hear_echo [OF hear] run_bob_echoed [OF bob] r t' exp by blast
qed

section \<open>Witness\<close>

text \<open>
  A run of the program. Bob's world is the number of the next stream he accepts, Alice's the number of the next stream she opens and the
  arguments of the task she spawned; joining runs Bob. Each side finds on its streams what the other one sends there.
\<close>

definition stage_ticket :: SignedTicket where
  "stage_ticket = (case issue_ticket demo_session True [1, 2] 7 (Some 9) ''quic://direct'' DEFAULT_ALPN 300 1000 of
     Some (Inr t) \<Rightarrow> t | _ \<Rightarrow> demo_ticket)"

definition stage_crates :: "(u8, u8, u8) session_crates" where
  "stage_crates = demo_session
     \<lparr>ticket_to_vec := (\<lambda>_. Inr [1, 2, 3]), ticket_from_slice := (\<lambda>_. Inr stage_ticket),
      response_to_vec := (\<lambda>_. Inr [4, 5]), response_from_slice := (\<lambda>_. Inr (HandshakeResponse_Ok (st_claims stage_ticket)))\<rparr>"

definition stage_bob :: "nat bob_ops" where
  "stage_bob =
     \<lparr>q_open_bi = (\<lambda>w. (Inl ''none'', w)), q_accept_bi = (\<lambda>w. (Inr w, Suc w)), q_write_all = (\<lambda>s bs w. (Inr (), w)),
      q_finish = (\<lambda>s w. (Inr (), w)), q_read_exact = (\<lambda>s n w. (Inr (if n = 8 then length_prefix [1, 2, 3] else [1, 2, 3]), w)),
      q_read = (\<lambda>s n w. (Inr (Some example_payload), w)), q_drop = (\<lambda>s w. w),
      bo_accept = (\<lambda>w. (True, w)), bo_incoming = (\<lambda>w. (Inr (), w)), bo_sleep = (\<lambda>_ w. w), bo_close = (\<lambda>_ _ w. w)\<rparr>"

type_synonym stage = "nat \<times> (TrustCheck \<times> u8 \<times> u8 \<times> int option) option"

definition stage_alice :: "(u8, stage) alice_ops" where
  "stage_alice =
     \<lparr>q_open_bi = (\<lambda>(n, a). (Inr n, (Suc n, a))), q_accept_bi = (\<lambda>w. (Inl ''none'', w)), q_write_all = (\<lambda>s bs w. (Inr (), w)),
      q_finish = (\<lambda>s w. (Inr (), w)),
      q_read_exact = (\<lambda>s n w. (Inr (if s = 0 then if n = 8 then length_prefix [4, 5] else [4, 5] else example_payload), w)),
      q_read = (\<lambda>s n w. (Inl ''unused'', w)), q_drop = (\<lambda>s w. w),
      ao_now = (\<lambda>w. (1000 * 1000000000, w)), ao_local_addr = (\<lambda>w. (Inr loopback, w)),
      ao_spawn_bob = (\<lambda>cfg trust avk bvk expires_at (n, a). (n, Some (trust, avk, bvk, expires_at))),
      ao_connect = (\<lambda>_ _ w. (Inr (), w)), ao_connecting = (\<lambda>_ w. (Some (Inr ()), w)), ao_close = (\<lambda>_ _ w. w),
      ao_join = (\<lambda>_ w. case snd w of
         Some (trust, avk, bvk, Some expires_at) \<Rightarrow>
           (case run_bob stage_crates (\<lambda>_. True) stage_bob trust avk bvk expires_at 0 of
              (Some result, _) \<Rightarrow> (Some (Inr result), w) | (None, _) \<Rightarrow> (Some (Inl ''panic''), w))
       | _ \<Rightarrow> (Some (Inl ''panic''), w))\<rparr>"

lemma stage_joined: "task_joined stage_crates (\<lambda>_. True) stage_bob stage_alice snd"
  unfolding task_joined_def
  by (auto simp: stage_alice_def case_prod_beta split: prod.splits option.splits) (metis eq_fst_iff eq_snd_iff prod.exhaust_sel)

lemma stage_crates_fields:
  "verifying_key stage_crates = (\<lambda>k. k)" "claims_to_json stage_crates = claims_to_json demo_crates"
  "sign stage_crates = sign demo_crates" "sig_to_bytes stage_crates = sig_to_bytes demo_crates"
  "b64_encode_string stage_crates = b64_encode_string demo_crates" "verify stage_crates = verify demo_crates"
  "sig_from_bytes stage_crates = sig_from_bytes demo_crates" "b64_decode stage_crates = b64_decode demo_crates"
  "vk_as_bytes stage_crates = vk_as_bytes demo_crates" "vk_from_bytes stage_crates = vk_from_bytes demo_crates"
  "sk_to_keypair_bytes stage_crates = sk_to_keypair_bytes demo_crates"
  "sk_from_keypair_bytes stage_crates = sk_from_keypair_bytes demo_crates"
  by (simp_all add: stage_crates_def demo_session_def crates.defs) (simp add: demo_crates_def)

lemma stage_crates_ok: "ed25519_correct stage_crates" "base64_roundtrip stage_crates"
  using demo_ed25519 demo_base64 by (simp_all add: ed25519_correct_def base64_roundtrip_def stage_crates_fields) (simp_all add: demo_crates_def)

lemma stage_issued:
  "issue_ticket stage_crates True [1, 2] 7 (Some 9) ''quic://direct'' DEFAULT_ALPN 300 1000 = Some (Inr stage_ticket)"
proof -
  have f: "verifying_key demo_session = (\<lambda>k. k)" "claims_to_json demo_session = claims_to_json demo_crates"
    "sign demo_session = sign demo_crates" "sig_to_bytes demo_session = sig_to_bytes demo_crates"
    "b64_encode_string demo_session = b64_encode_string demo_crates" "vk_as_bytes demo_session = vk_as_bytes demo_crates"
    by (simp_all add: demo_session_def crates.defs) (simp add: demo_crates_def)
  have same: "issue_ticket stage_crates True [1, 2] 7 (Some 9) ''quic://direct'' DEFAULT_ALPN 300 1000 =
      issue_ticket demo_session True [1, 2] 7 (Some 9) ''quic://direct'' DEFAULT_ALPN 300 1000"
    by (simp add: issue_ticket_def sign_ticket_def canonical_ticket_payload_def NodeId_from_verifying_key_def
        stage_crates_fields f Let_def split: sum.split option.split)
  have "json_total demo_session" by (simp add: json_total_def f) (simp add: demo_crates_def)
  from issue_ticket_total [OF this, of 1000 300 True "[1, 2]" 7 "Some 9" "''quic://direct''" DEFAULT_ALPN] obtain t where
    "issue_ticket demo_session True [1, 2] 7 (Some 9) ''quic://direct'' DEFAULT_ALPN 300 1000 = Some (Inr t)"
    by (auto simp: i64_simps)
  with same show ?thesis by (simp add: stage_ticket_def)
qed

lemma stage_admission:
  "admission stage_crates 7 9 (AllowOne_is_trusted (NodeId_from_verifying_key stage_crates 7)) 1300 [1, 2, 3] = Inr (st_claims stage_ticket)"
proof -
  note c = issue_ticket_claims [OF stage_issued]
  have "verify_ticket stage_crates stage_ticket (verifying_key stage_crates 7) 1300 = Inr (st_claims stage_ticket)"
    using c(1) by (intro verify_sign_ticket [OF stage_crates_ok c(2)]) (simp_all add: i64_add_exact i64_simps)
  moreover have "ticket_from_slice stage_crates [1, 2, 3] = Inr stage_ticket" by (simp add: stage_crates_def)
  ultimately show ?thesis using c(1) by (simp add: admission_Inr_iff AllowOne_is_trusted_def stage_crates_fields)
qed

lemma stage_ops [simp]:
  "q_accept_bi stage_bob n = (Inr n, Suc n)" "q_write_all stage_bob s bs n = (Inr (), n)" "q_finish stage_bob s n = (Inr (), n)"
  "q_read stage_bob s k n = (Inr (Some example_payload), n)" "q_drop stage_bob s n = n"
  "bo_accept stage_bob n = (True, n)" "bo_incoming stage_bob n = (Inr (), n)" "bo_sleep stage_bob k n = n" "bo_close stage_bob k m n = n"
  "q_open_bi stage_alice (i, a) = (Inr i, (Suc i, a))" "q_write_all stage_alice s bs w = (Inr (), w)"
  "q_finish stage_alice s w = (Inr (), w)" "q_drop stage_alice s w = w" "ao_connect stage_alice addr name w = (Inr (), w)"
  "ao_connecting stage_alice k w = (Some (Inr ()), w)" "ao_close stage_alice k m w = w"
  "q_read_exact stage_alice (Suc i) k w = (Inr example_payload, w)"
  by (simp_all add: stage_bob_def stage_alice_def)

lemma stage_frames:
  "read_frame (\<lambda>_. True) (quinn.truncate stage_bob) s n = (Some (Inr [1, 2, 3]), n)"
  "read_frame (\<lambda>_. True) (quinn.truncate stage_alice) 0 w = (Some (Inr [4, 5]), w)"
proof -
  have "unat (u64_from_be_bytes (length_prefix [1, 2, 3])) = 3" "unat (u64_from_be_bytes (length_prefix [4, 5])) = 2"
    using length_prefix_decoded [of "[1, 2, 3]"] length_prefix_decoded [of "[4, 5]"] by (simp_all add: isize_max_def)
  then show "read_frame (\<lambda>_. True) (quinn.truncate stage_bob) s n = (Some (Inr [1, 2, 3]), n)"
    "read_frame (\<lambda>_. True) (quinn.truncate stage_alice) 0 w = (Some (Inr [4, 5]), w)"
    by (simp_all add: read_frame_def io_bind_def io_call_def vec_zeroed_def isize_max_def stage_bob_def stage_alice_def)
qed

lemma stage_bob_run:
  "run_bob stage_crates (\<lambda>_. True) stage_bob (AllowOne_is_trusted (NodeId_from_verifying_key stage_crates 7)) 7 9 1300 0 = (Some (Inr ()), 2)"
proof -
  have "response_to_vec stage_crates r = Inr [4, 5]" for r by (simp add: stage_crates_def)
  then have "server_handshake stage_crates (\<lambda>_. True) (quinn.truncate stage_bob) 0 7 9
      (AllowOne_is_trusted (NodeId_from_verifying_key stage_crates 7)) 1300 1 = (Some (Inr (summary_of (st_claims stage_ticket))), 1)"
    using stage_admission stage_frames(1) [of 0 1]
    by (simp add: server_handshake_eq io_finally_def io_bind_def futures_block_on_send_def write_frame_def io_call_def)
  then show ?thesis
    by (simp add: run_bob_def bob_admit_def bob_echo_def bob_leave_def io_bind_def io_call_def io_map_err_def io_finally_def
        vec_zeroed_def isize_max_def)
qed

lemma stage_main:
  "\<exists>w'. example_main stage_crates demo_tls (\<lambda>_. True) True [1, 2] to_dyn stage_alice 7 9 (0, None) = (Some (Inr ()), w')"
proof -
  let ?trust = "AllowOne_is_trusted (NodeId_from_verifying_key stage_crates 7)"
  let ?task = "Some (?trust, 7, 9, Some 1300)"
  have "now_unix_seconds (1000 * 1000000000) = Some 1000"
    by (simp add: now_unix_seconds_def duration_since_epoch_def as_secs_def i64_wrap_def)
  then have "alice_setup stage_crates demo_tls True [1, 2] stage_alice 7 9 (0, None) = (Some (Inr (stage_ticket, loopback)), (0, ?task))"
    using stage_issued
    by (simp add: alice_setup_def io_bind_def io_call_def Let_def stage_crates_fields self_signed_dev_cert_def default_server_config_def
        rustls_server_config_def build_client_endpoint_def default_client_config_def rustls_client_config_def demo_tls_def
        build_transport_config_def QuicEndpointConfig_client_def stage_alice_def i64_add_exact i64_simps)
  moreover have "client_handshake stage_crates (\<lambda>_. True) (quinn.truncate stage_alice) stage_ticket (0, ?task) =
      (Some (Inr (summary_of (st_claims stage_ticket))), (1, ?task))"
  proof -
    have "ticket_to_vec stage_crates t = Inr [1, 2, 3]" "response_from_slice stage_crates b = Inr (HandshakeResponse_Ok (st_claims stage_ticket))"
      for t b by (simp_all add: stage_crates_def)
    then show ?thesis
      using stage_frames(2)
      by (simp add: client_handshake_def client_send_def client_receive_def io_finally_def io_bind_def write_frame_def io_call_def)
  qed
  moreover have "alice_leave to_dyn stage_alice (Suc (Suc 0), ?task) = (Some (Inr ()), (Suc (Suc 0), ?task))"
    using stage_bob_run by (simp add: alice_leave_def stage_alice_def)
  moreover have "length example_payload = 16" by (simp add: example_payload_def)
  ultimately show ?thesis
    by (simp add: example_main_def alice_connect_def alice_say_def alice_hear_def io_bind_def io_call_def io_map_err_def io_finally_def
        vec_zeroed_def isize_max_def)
qed

theorem example_sound_witness:
  "\<exists>now t s v body v1 t' c. issue_ticket stage_crates True [1, 2] 7 (Some 9) ''quic://direct'' DEFAULT_ALPN 300 now = Some (Inr t) \<and>
     read_frame (\<lambda>_. True) (quinn.truncate stage_bob) s v = (Some (Inr body), v1) \<and> ticket_from_slice stage_crates body = Inr t' \<and>
     verify_ticket stage_crates t' 7 (tc_expires_at (st_claims t)) = Inr c \<and> tc_issuer c = NodeId_from_verifying_key stage_crates 7"
proof -
  obtain w' where "example_main stage_crates demo_tls (\<lambda>_. True) True [1, 2] (\<lambda>_. Dyn [] None) stage_alice 7 9 (0, None) = (Some (Inr ()), w')"
    using stage_main by blast
  from example_sound [OF stage_joined this] show ?thesis by (simp only: Let_def stage_crates_fields) blast
qed

end
