(* ===== verification/Tests_Stores.thy ===== *)
theory Tests_Stores
  imports Nonce_Threads Rate_Limit Trust
begin

text \<open>
  The repository's own unit tests of the three stores, as predicates over the model: each \<open>test_\<close> definition makes the calls of
  a \<^verbatim>\<open>#[test]\<close> function and collects its assertions. They hold for all keys the tests draw at random, all iteration orders of the
  hash maps, all clock readings and, for tests that spawn threads, all interleavings. A temporary directory is an
  empty file system.
\<close>

section \<open>Nonce store\<close>

definition fixed :: "u8 \<Rightarrow> bytes" where
  "fixed n = (replicate 16 0)[0 := n]"

definition test_first_sight_accepts_subsequent_sight_rejects :: bool where
  "test_first_sight_accepts_subsequent_sight_rejects \<longleftrightarrow>
     (let n = fixed 1; store = NonceStore_new 60;
          (r1, store) = NonceStore_check_and_record store n 1700000000;
          (r2, store) = NonceStore_check_and_record store n 1700000010;
          (r3, store) = NonceStore_check_and_record store n 1700000059;
          (_, store) = NonceStore_cleanup_expired store 1700000061;
          (r4, store) = NonceStore_check_and_record store n 1700000062
      in r1 = Inr True \<and> r2 = Inr False \<and> r3 = Inr False \<and> r4 = Inr True)"

definition test_ttl_expiration_frees_nonces :: bool where
  "test_ttl_expiration_frees_nonces \<longleftrightarrow>
     (let store = NonceStore_new 30;
          (r1, store) = NonceStore_check_and_record store (fixed 7) 1000;
          (r2, store) = NonceStore_check_and_record store (fixed 8) 1005;
          len = NonceStore_len store;
          (removed, store) = NonceStore_cleanup_expired store 1040
      in is_ok r1 \<and> is_ok r2 \<and> len = 2 \<and> removed = 2 \<and> NonceStore_is_empty store)"

definition test_zero_or_negative_ttl_clamps_to_default :: bool where
  "test_zero_or_negative_ttl_clamps_to_default \<longleftrightarrow>
     NonceStore_ttl_secs (NonceStore_new 0) = 60 \<and> NonceStore_ttl_secs (NonceStore_new (- 5)) = 60"

definition test_persistence_roundtrip_replays_state :: "((bytes, int) hashmap \<Rightarrow> (bytes \<times> int) list) \<Rightarrow> bool" where
  "test_persistence_roundtrip_replays_state it \<longleftrightarrow>
     (let path = [''tmp'', ''nonces.txt'']; original = NonceStore_new 120;
          (r1, original) = NonceStore_check_and_record original (fixed 11) 1700000000;
          (r2, original) = NonceStore_check_and_record original (fixed 22) 1700000010;
          (saved, fs) = NonceStore_persist_to it original empty_fs path
      in is_ok r1 \<and> is_ok r2 \<and> is_ok saved \<and>
        (case NonceStore_load_from fs path 120 of
           Inl _ \<Rightarrow> False
         | Inr restored \<Rightarrow>
             let len = NonceStore_len restored;
                 (r3, restored) = NonceStore_check_and_record restored (fixed 11) 1700000020;
                 (r4, restored) = NonceStore_check_and_record restored (fixed 22) 1700000030;
                 (r5, restored) = NonceStore_check_and_record restored (fixed 33) 1700000040
             in len = 2 \<and> r3 = Inr False \<and> r4 = Inr False \<and> r5 = Inr True))"

definition test_load_from_missing_file_returns_empty_store :: bool where
  "test_load_from_missing_file_returns_empty_store \<longleftrightarrow>
     (case NonceStore_load_from empty_fs [''tmp'', ''missing.txt''] 60 of
        Inl _ \<Rightarrow> False
      | Inr store \<Rightarrow> NonceStore_is_empty store \<and> NonceStore_ttl_secs store = 60)"

text \<open>The state in which the ten tasks end up, and what the test asserts of it.\<close>

definition test_concurrent_check_and_record_serializes_correctly :: "nonce_sys \<Rightarrow> bool" where
  "test_concurrent_check_and_record_serializes_correctly S \<longleftrightarrow>
     (nonce_step\<^sup>*\<^sup>* (race_start (fixed 99) 300 (replicate 10 1700000000)) S \<and> list_all is_done (sys_threads S) \<longrightarrow>
        length (filter is_accepted (sys_threads S)) = 1)"

definition test_metrics_track_check_accept_replay_outcomes :: bool where
  "test_metrics_track_check_accept_replay_outcomes \<longleftrightarrow>
     (let store = NonceStore_new 60; n1 = fixed 1; n2 = fixed 2;
          (r1, store) = NonceStore_check_and_record store n1 1000;
          (r2, store) = NonceStore_check_and_record store n2 1010;
          (r3, store) = NonceStore_check_and_record store n1 1020;
          (r4, store) = NonceStore_check_and_record store n2 1030;
          (r5, store) = NonceStore_check_and_record store n1 1090;
          m = NonceStore_metrics store
      in r1 = Inr True \<and> r2 = Inr True \<and> r3 = Inr False \<and> r4 = Inr False \<and> r5 = Inr True \<and>
        nm_total_check_calls m = 5 \<and> nm_total_accepted m = 2 \<and> nm_total_rejected_replay m = 2 \<and>
        nm_total_accepted_after_ttl m = 1 \<and> nm_current_size m = 2)"

definition test_nonce_metrics_are_lock_free_under_concurrent_load :: "nonce_sys \<Rightarrow> bool" where
  "test_nonce_metrics_are_lock_free_under_concurrent_load S \<longleftrightarrow>
     (nonce_step\<^sup>*\<^sup>* (load_start 60 (map (\<lambda>i. (fixed (of_nat i), 1700000000)) [0..<50])) S \<and> list_all is_done (sys_threads S) \<longrightarrow>
        (let m = NonceStore_metrics (sys_store S) in
         nm_total_check_calls m = 50 \<and> nm_total_accepted m = 50 \<and> nm_total_rejected_replay m = 0 \<and>
         nm_total_accepted_after_ttl m = 0 \<and> nm_current_size m = 50))"

lemma first_sight_passes: test_first_sight_accepts_subsequent_sight_rejects
  by code_simp

lemma ttl_expiration_passes: test_ttl_expiration_frees_nonces
  by code_simp

lemma ttl_clamp_passes: test_zero_or_negative_ttl_clamps_to_default
  by code_simp

lemma missing_nonce_file_passes: test_load_from_missing_file_returns_empty_store
  by code_simp

lemma nonce_metrics_passes: test_metrics_track_check_accept_replay_outcomes
  by code_simp

lemma length_fixed [simp]: "length (fixed n) = 16"
  by (simp add: fixed_def)

lemma fixed_inj [simp]: "fixed m = fixed n \<longleftrightarrow> m = n"
  by (simp add: fixed_def numeral_eq_Suc)

lemma nonce_race_passes: "test_concurrent_check_and_record_serializes_correctly S"
  using race_result [of "fixed 99" 300 "replicate 10 1700000000" S]
  by (auto simp: test_concurrent_check_and_record_serializes_correctly_def i64_simps)

lemma nonce_load_passes: "test_nonce_metrics_are_lock_free_under_concurrent_load S"
proof -
  have "inj_on (\<lambda>i. of_nat i :: u8) {0..<50}"
    by (auto intro!: inj_onI simp: word_of_nat_eq_iff take_bit_nat_eq_self)
  then have "distinct (map fst (map (\<lambda>i. (fixed (of_nat i), 1700000000 :: int)) [0..<50]))"
    by (auto simp: distinct_map inj_on_def)
  then show ?thesis
    using distinct_checks_all_accepted [of 60 "map (\<lambda>i. (fixed (of_nat i), 1700000000)) [0..<50]" S]
    by (auto simp: test_nonce_metrics_are_lock_free_under_concurrent_load_def Let_def)
qed

lemma rejected_keeps:
  "nonce_ok s \<Longrightarrow> replayed s n t \<Longrightarrow>
     \<exists>s'. NonceStore_check_and_record s n t = (Inr False, s') \<and> nonce_ok s' \<and> ns_inner s' = ns_inner s \<and> ns_ttl_secs s' = ns_ttl_secs s"
  using check_and_record_result [of s n t]
  by (cases "NonceStore_check_and_record s n t") (auto simp: nonce_ok_def)

lemma persistence_passes:
  assumes "iteration_order it"
  shows "test_persistence_roundtrip_replays_state it"
proof -
  let ?ops = "[Check (fixed 11) 1700000000, Check (fixed 22) 1700000010]" and ?p = "[''tmp'', ''nonces.txt'']"
  define s where "s = nonce_run ?ops (NonceStore_new 120)"
  have ok: "nonce_ok s" "ns_ttl_secs s = 120"
    using nonce_run_ok [OF nonce_ok_new, of 120 ?ops] by (simp_all add: s_def i64_simps NonceStore_new_def)
  have get: "hm_get (ns_inner s) = [fixed 11 \<mapsto> 1700000000, fixed 22 \<mapsto> 1700000010]"
    by (simp add: s_def NonceStore_check_and_record_def check_locked_def count_check_def hm_laws NonceStore_new_def)
  obtain fs where w: "NonceStore_persist_to it s empty_fs ?p = (Inr (), fs)"
    by (simp add: NonceStore_persist_to_def Let_def fs_write_def empty_fs_def)
  obtain r where r: "NonceStore_load_from fs ?p 120 = Inr r" "nonce_ok r" "hm_get (ns_inner r) = hm_get (ns_inner s)" "ns_ttl_secs r = 120"
    using load_persisted [OF ok(1) assms w] ok(2) by (auto simp: empty_fs_def)
  have len: "NonceStore_len r = 2"
    using r(3) get nonce_okD(1) [OF r(2)] by (simp add: NonceStore_len_def hm.len_card)
  obtain r1 where r1: "NonceStore_check_and_record r (fixed 11) 1700000020 = (Inr False, r1)" "nonce_ok r1"
      "ns_inner r1 = ns_inner r" "ns_ttl_secs r1 = 120"
    using rejected_keeps [of r "fixed 11" 1700000020] r get by (auto simp: replayed_def)
  obtain r2 where r2: "NonceStore_check_and_record r1 (fixed 22) 1700000030 = (Inr False, r2)" "nonce_ok r2"
      "ns_inner r2 = ns_inner r" "ns_ttl_secs r2 = 120"
    using rejected_keeps [of r1 "fixed 22" 1700000030] r1 r(3) get by (auto simp: replayed_def)
  have r3: "fst (NonceStore_check_and_record r2 (fixed 33) 1700000040) = Inr True"
    using check_and_record_result(1) [OF r2(2), of "fixed 33" 1700000040] r2(3) r(3) get by (simp add: replayed_def)
  obtain s1 where s1: "NonceStore_check_and_record (NonceStore_new 120) (fixed 11) 1700000000 = (Inr True, s1)"
    by (simp add: NonceStore_check_and_record_def check_locked_def hm.get_new)
  have "fst (NonceStore_check_and_record s1 (fixed 22) 1700000010) = Inr True"
    using s1 by (auto simp: NonceStore_check_and_record_def check_locked_def hm_laws)
  then have s2: "NonceStore_check_and_record s1 (fixed 22) 1700000010 = (Inr True, s)"
    by (simp add: s_def s1 prod_eq_iff)
  show ?thesis
    using s1 s2 w r(1) len r1(1) r2(1) r3
    by (simp add: test_persistence_roundtrip_replays_state_def Let_def case_prod_beta)
qed

section \<open>Rate limiter\<close>

text \<open>The calls of a test as a history; the loops of the source are replicated calls.\<close>

definition test_allows_burst_up_to_capacity_then_denies :: "NodeId \<Rightarrow> bool" where
  "test_allows_burst_up_to_capacity_then_denies node \<longleftrightarrow>
     consume_outcomes (replicate 5 (Consume node (Fin 1000)) @ [Consume node (Fin 1000)]) (RateLimiter_new 5) =
       replicate 5 True @ [False]"

definition test_refills_proportional_to_elapsed_time :: "NodeId \<Rightarrow> bool" where
  "test_refills_proportional_to_elapsed_time node \<longleftrightarrow>
     consume_outcomes (replicate 60 (Consume node (Fin 1000)) @
         [Consume node (Fin 1000), Consume node (Fin (2001 / 2)), Consume node (Fin 1001), Consume node (Fin 1001)])
       (RateLimiter_new 60) = replicate 60 True @ [False, False, True, False]"

definition test_per_node_override_retunes_capacity :: "NodeId \<Rightarrow> bool" where
  "test_per_node_override_retunes_capacity node \<longleftrightarrow>
     (let before = [Consume node (Fin 1000), Consume node (Fin 1000), Consume node (Fin 1000), SetLimit node 10 (Fin 1001)];
          limiter = limiter_run before (RateLimiter_new 2)
      in consume_outcomes before (RateLimiter_new 2) = [True, True, False] \<and>
        (case RateLimiter_snapshot limiter node of
           None \<Rightarrow> False
         | Some snap \<Rightarrow> tb_capacity snap = Fin 10 \<and> \<not> f64_le (tb_refill_per_sec snap) (Fin 0)) \<and>
        consume_outcomes [Consume node (Fin 1061), Consume node (Fin 1061)] limiter = [True, True])"

definition test_buckets_are_isolated_per_node :: "NodeId \<Rightarrow> NodeId \<Rightarrow> bool" where
  "test_buckets_are_isolated_per_node a b \<longleftrightarrow>
     (let calls = replicate 3 (Consume a (Fin 1000)) @ replicate 3 (Consume b (Fin 1000)) in
      consume_outcomes calls (RateLimiter_new 2) = [True, True, False, True, True, False] \<and>
      RateLimiter_tracked_nodes (limiter_run calls (RateLimiter_new 2)) = 2)"

definition test_zero_default_clamps_to_fallback :: bool where
  "test_zero_default_clamps_to_fallback \<longleftrightarrow> rl_default_per_min (RateLimiter_new 0) = DEFAULT_RATE_PER_MIN"

definition test_set_limit_zero_clamps_to_fallback :: "NodeId \<Rightarrow> bool" where
  "test_set_limit_zero_clamps_to_fallback node \<longleftrightarrow>
     (case RateLimiter_snapshot (RateLimiter_set_limit (RateLimiter_new 60) node 0 (Fin 1000)) node of
        None \<Rightarrow> False
      | Some snap \<Rightarrow> tb_capacity snap = f64_of_u32 DEFAULT_RATE_PER_MIN \<and>
          tb_refill_per_sec snap = f64_div_by (f64_of_u32 DEFAULT_RATE_PER_MIN) 60)"

definition test_metrics_track_try_consume_allow_deny_outcomes :: "NodeId \<Rightarrow> bool" where
  "test_metrics_track_try_consume_allow_deny_outcomes node \<longleftrightarrow>
     (let calls = replicate 5 (Consume node (Fin 1000)) @ replicate 2 (Consume node (Fin 1000)) @ [SetLimit node 0 (Fin 1000)];
          m = RateLimiter_metrics (limiter_run calls (RateLimiter_new 5))
      in consume_outcomes calls (RateLimiter_new 5) = replicate 5 True @ replicate 2 False \<and>
        rm_total_try_consume_calls m = 7 \<and> rm_total_allowed m = 5 \<and> rm_total_denied m = 2 \<and>
        rm_total_set_limit_calls m = 1 \<and> rm_tracked_nodes m = 1)"

text \<open>The nodes of the fifty threads in the order in which the mutex admits them.\<close>

definition test_limiter_metrics_are_lock_free_under_concurrent_load :: "NodeId list \<Rightarrow> bool" where
  "test_limiter_metrics_are_lock_free_under_concurrent_load nodes \<longleftrightarrow>
     (length nodes = 50 \<longrightarrow>
        (let m = RateLimiter_metrics (limiter_run (map (\<lambda>n. Consume n (Fin 1700000000)) nodes) (RateLimiter_new 1000)) in
         rm_total_try_consume_calls m = 50 \<and> rm_total_allowed m + rm_total_denied m = 50 \<and> rm_total_set_limit_calls m = 0))"

lemma burst_outcomes:
  assumes "w \<noteq> 0"
  shows "consume_outcomes (replicate k (Consume node (Fin 1000))) (RateLimiter_new w) =
    replicate (min k (unat w)) True @ replicate (k - unat w) False"
proof -
  have "f64_finite (Fin 1000)" using f64_finite_nat [of 1000] by simp
  from limiter_burst_exact [OF this, of w node k] assms show ?thesis
    using consume_outcomes_node [of node "replicate k (Fin 1000)" "RateLimiter_new w"] by (simp add: Let_def map_replicate)
qed

lemma burst_passes: "test_allows_burst_up_to_capacity_then_denies node"
proof -
  have "replicate 5 x @ [x] = replicate 6 x" for x :: limiter_op by (simp add: numeral_eq_Suc)
  with burst_outcomes [of 5 6 node] show ?thesis by (simp add: test_allows_burst_up_to_capacity_then_denies_def)
qed

lemma zero_default_passes: test_zero_default_clamps_to_fallback
  by (simp add: test_zero_default_clamps_to_fallback_def)

lemma zero_limit_passes: "test_set_limit_zero_clamps_to_fallback node"
  using set_limit_effective [of "[]" "Fin 1000" DEFAULT_RATE_PER_MIN 0 "RateLimiter_new 60" 60 node] f64_finite_nat [of 1000]
  by (auto simp: test_set_limit_zero_clamps_to_fallback_def)

lemma limiter_metrics_passes: "test_metrics_track_try_consume_allow_deny_outcomes node"
proof -
  let ?c = "replicate 5 (Consume node (Fin 1000)) @ replicate 2 (Consume node (Fin 1000)) @ [SetLimit node 0 (Fin 1000)]"
  have r: "replicate 5 x @ replicate 2 x = replicate 7 x" for x :: limiter_op by (simp add: numeral_eq_Suc)
  have out: "consume_outcomes ?c (RateLimiter_new 5) = replicate 5 True @ replicate 2 False"
    using burst_outcomes [of 5 7 node] by (simp add: consume_outcomes_append r flip: append_assoc)
  have n: "limiter_node ` set ?c = {node}" by auto
  have s: "set_limit_calls ?c = 1" by (simp add: numeral_eq_Suc)
  show ?thesis
    unfolding test_metrics_track_try_consume_allow_deny_outcomes_def Let_def limiter_metrics_account out n s by simp
qed

lemma limiter_load_passes: "test_limiter_metrics_are_lock_free_under_concurrent_load nodes"
proof -
  let ?c = "map (\<lambda>n. Consume n (Fin 1700000000)) nodes"
  have "length (consume_outcomes (map (\<lambda>n. Consume n t) ns) l) = length ns" for t ns l by (induction ns arbitrary: l) simp_all
  moreover have "length ds = length (filter id ds) + length (filter Not ds)" for ds :: "bool list" by (induction ds) auto
  ultimately have "(of_nat (length (filter id (consume_outcomes ?c (RateLimiter_new 1000)))) +
      of_nat (length (filter Not (consume_outcomes ?c (RateLimiter_new 1000)))) :: u64) = of_nat (length nodes)"
    by (metis of_nat_add)
  moreover have "set_limit_calls ?c = 0" by (induction nodes) simp_all
  ultimately show ?thesis
    by (simp add: test_limiter_metrics_are_lock_free_under_concurrent_load_def Let_def limiter_metrics_account)
qed

lemma decisions_same_for:
  "same_for node l l' \<Longrightarrow> limiter_decisions l node ts = limiter_decisions l' node ts"
proof (induction ts arbitrary: l l')
  case (Cons t ts)
  have "same_for node (snd (RateLimiter_try_consume l node t)) (snd (RateLimiter_try_consume l' node t))"
    using same_for_step [OF Cons.prems, of "Consume node t"] by simp
  from Cons.IH [OF this] same_for_decision [OF Cons.prems, of t] show ?case by (simp add: case_prod_beta)
qed simp

lemma isolation_passes:
  assumes "a \<noteq> b"
  shows "test_buckets_are_isolated_per_node a b"
proof -
  let ?A = "replicate 3 (Consume a (Fin 1000))" and ?B = "replicate 3 (Consume b (Fin 1000))" and ?l = "RateLimiter_new 2"
  have "same_for b (limiter_run ?A ?l) (limiter_run [x \<leftarrow> ?A. limiter_node x = b] ?l)"
    by (intro same_for_run same_for_refl limiter_ok_wf limiter_ok_new)
  with assms have same: "same_for b (limiter_run ?A ?l) ?l" by simp
  have "consume_outcomes ?B (limiter_run ?A ?l) = consume_outcomes ?B ?l"
    using decisions_same_for [OF same, of "replicate 3 (Fin 1000)"]
      consume_outcomes_node [of b "replicate 3 (Fin 1000)"] by (simp add: map_replicate)
  moreover have "replicate 2 True @ [False] = [True, True, False]" by (simp add: numeral_eq_Suc)
  ultimately have out: "consume_outcomes (?A @ ?B) ?l = [True, True, False, True, True, False]"
    using burst_outcomes [of 2 3 a] burst_outcomes [of 2 3 b] by (simp add: consume_outcomes_append)
  have "rm_tracked_nodes (RateLimiter_metrics (limiter_run (?A @ ?B) ?l)) = card {a, b}"
    by (simp add: limiter_metrics_account Let_def image_Un insert_commute)
  with assms out show ?thesis
    by (simp add: test_buckets_are_isolated_per_node_def RateLimiter_metrics_def)
qed

fun bucket_after :: "TokenBucket \<Rightarrow> f64 list \<Rightarrow> TokenBucket" where
  "bucket_after b [] = b"
| "bucket_after b (t # ts) = bucket_after (snd (TokenBucket_try_consume b t)) ts"

lemma bucket_decisions_append:
  "bucket_decisions b (xs @ ys) = bucket_decisions b xs @ bucket_decisions (bucket_after b xs) ys"
  by (induction xs arbitrary: b) (simp_all add: case_prod_beta)

lemma bucket_after_burst:
  "bucket_inv c (of_nat j) n b \<Longrightarrow> bucket_inv c (of_nat (j - k)) n (bucket_after b (replicate k (Fin n)))"
proof (induction k arbitrary: j b)
  case (Suc k)
  from Suc.IH [OF consume_same_instant(2) [OF Suc.prems]] show ?case by simp
qed simp

lemma refill_passes: "test_refills_proportional_to_elapsed_time node"
proof -
  let ?now = "Fin 1000" and ?l = "RateLimiter_new 60"
  define ts where "ts = replicate 60 ?now @ [?now, Fin (2001 / 2), Fin 1001, Fin 1001]"
  define b0 where "b0 = TokenBucket_full 60 ?now"
  define b where "b = bucket_after b0 (replicate 60 ?now)"
  have i0: "bucket_inv 60 (of_nat 60) 1000 b0" using full_inv [of 1000 60] by (simp add: b0_def)
  have i: "bucket_inv 60 0 1000 b" using bucket_after_burst [OF i0, of 60] by (simp add: b_def)
  have "rnd (60 / 60) = 1" using f64.rp_rn [OF f64.rp_1] by simp
  with i have b: "tb_capacity b = Fin 60" "tb_tokens b = Fin 0" "tb_last_refill_unix b = Fin 1000" "tb_refill_per_sec b = Fin 1"
    by (simp_all add: bucket_inv_def)
  have e: "f64_of_rat (1 / 2) = Fin (1 / 2)" "f64_of_rat 1 = Fin 1" "f64_of_rat 0 = Fin 0"
    using f64_exact rep_half f64.rp_1 f64.rp_0 by simp_all
  have tail: "bucket_decisions b [?now, Fin (2001 / 2), Fin 1001, Fin 1001] = [False, False, True, False]"
    by (simp add: TokenBucket_try_consume_def TokenBucket_refill_def b e Let_def f64_sub_def f64_min_def)
  have "ts = ?now # tl ts" by (simp add: ts_def numeral_eq_Suc)
  then have "limiter_decisions ?l node ts = bucket_decisions b0 ts"
    using limiter_decisions_bucket [OF limiter_ok_wf [OF limiter_ok_new [of 60]], of node ?now "tl ts"]
    by (simp add: b0_def bucket_or_def)
  then show ?thesis
    using bucket_burst [OF i0, of 60] tail consume_outcomes_node [of node ts ?l]
    by (simp add: test_refills_proportional_to_elapsed_time_def ts_def bucket_decisions_append map_replicate flip: b_def)
qed

lemma rnd_sixth: "5 / 32 \<le> rnd (1 / 6)"
proof -
  have "rep (5 / 32)" unfolding rep_def by (rule exI [of _ 5], rule exI [of _ "- 5"]) (simp add: pow2_def)
  then show ?thesis by (rule f64.rn_ge) simp
qed

lemma retuned_allows:
  assumes i: "bucket_inv 10 t 1001 b"
  shows "bucket_decisions b [Fin 1061, Fin 1061] = [True, True]"
proof -
  note b = i [unfolded bucket_inv_def]
  have r9: "rep 9" "rep 10" "rep 60" "rep 600" using f64.rp_nat [of 9] f64.rp_nat [of 10] f64.rp_nat [of 60] f64.rp_nat [of 600] by simp_all
  have q: "5 / 32 \<le> rnd (1 / 6)" "rnd (1 / 6) \<le> 1" using rnd_sixth f64.rn_le [OF f64.rp_1, of "1 / 6"] by simp_all
  define p where "p = rnd (60 * rnd (1 / 6))"
  have p: "9 \<le> p" "p \<le> 60" unfolding p_def using q by (auto intro!: f64.rn_ge [OF r9(1)] f64.rn_le [OF r9(3)])
  have t: "0 \<le> t" "t \<le> 10" using b by simp_all
  have tp: "9 \<le> rnd (t + p)" using p t by (intro f64.rn_ge [OF r9(1)]) simp
  have e: "f64_of_rat 60 = Fin 60" "f64_of_rat (60 * rnd (1 / 6)) = Fin p" "f64_of_rat (t + p) = Fin (rnd (t + p))"
    using f64_exact [OF r9(3)] f64_of_rat_small [of "60 * rnd (1 / 6)"] f64_of_rat_small [of "t + p"] q p t by (simp_all add: p_def)
  define u where "u = min (rnd (t + p)) 10"
  have u: "rep u" "9 \<le> u" "u \<le> 10" using tp r9(2) f64.rn_rp [of "t + p"] by (auto simp: u_def min_def)
  have s: "f64_of_rat (u - 1) = Fin (u - 1)" using sub_one(1) [of u 10] u by (simp add: f64_sub_def)
  have m: "f64_min (Fin (rnd (t + p))) (Fin 10) = Fin u" by (simp add: f64_min_def u_def)
  show ?thesis
    using b u by (simp add: TokenBucket_try_consume_def TokenBucket_refill_def Let_def f64_sub_def e m s)
qed

lemma run_bucket:
  "hm_wf (rl_inner l) \<Longrightarrow> ts \<noteq> [] \<Longrightarrow>
     hm_get (rl_inner (limiter_run (map (Consume node) ts) l)) node =
       Some (bucket_after (bucket_or l node (TokenBucket_full (rl_default_per_min l) (hd ts))) ts)"
proof (induction ts arbitrary: l)
  case (Cons t ts)
  let ?l' = "limiter_exec (Consume node t) l"
  have wf: "hm_wf (rl_inner ?l')" using Cons.prems(1) by (rule limiter_exec_wf)
  have get: "hm_get (rl_inner ?l') node =
      Some (snd (TokenBucket_try_consume (bucket_or l node (TokenBucket_full (rl_default_per_min l) t)) t))"
    using Cons.prems(1) by (simp add: try_consume_inner hm.get_insert)
  show ?case
  proof (cases "ts = []")
    case False
    from Cons.IH [OF wf False] get show ?thesis by (simp add: bucket_or_def)
  qed (use get in simp)
qed simp

lemma override_passes: "test_per_node_override_retunes_capacity node"
proof -
  let ?l = "RateLimiter_new 2" and ?c = "Consume node (Fin 1000)"
  define l3 where "l3 = limiter_run [?c, ?c, ?c] ?l"
  have three: "[x, x, x] = replicate 3 x" for x :: 'a by (simp add: numeral_eq_Suc)
  have "replicate 2 True @ [False] = [True, True, False]" by (simp add: numeral_eq_Suc)
  then have out: "consume_outcomes [?c, ?c, ?c] ?l = [True, True, False]"
    using burst_outcomes [of 2 3 node] by (simp add: three del: consume_outcomes.simps)
  define b3 where "b3 = bucket_after (TokenBucket_full 2 (Fin 1000)) (replicate 3 (Fin 1000))"
  have "bucket_inv 2 (of_nat 2) 1000 (TokenBucket_full 2 (Fin 1000))" using full_inv [of 1000 2] by simp
  from bucket_after_burst [OF this, of 3] have "bucket_inv 2 0 1000 b3" by (simp add: b3_def)
  then obtain t where i: "bucket_inv 10 t 1001 (TokenBucket_retune b3 10 (Fin 1001))"
    using retune_inv [of 2 0 1000 b3 1001 10] by auto
  have wf: "hm_wf (rl_inner l3)" unfolding l3_def by (intro limiter_ok_wf limiter_run_ok limiter_ok_new) (simp add: f64_finite_nat)
  have get3: "hm_get (rl_inner l3) node = Some b3"
    using run_bucket [OF limiter_ok_wf [OF limiter_ok_new [of 2]], of "replicate 3 (Fin 1000)" node]
    by (simp add: l3_def b3_def bucket_or_def three)
  define l4 where "l4 = RateLimiter_set_limit l3 node 10 (Fin 1001)"
  have get4: "hm_get (rl_inner l4) node = Some (TokenBucket_retune b3 10 (Fin 1001))" and wf4: "hm_wf (rl_inner l4)"
    using wf get3 by (simp_all add: l4_def set_limit_inner Let_def hm.get_insert bucket_or_def)
  have "consume_outcomes [Consume node (Fin 1061), Consume node (Fin 1061)] l4 = [True, True]"
    using limiter_decisions_tracked [OF wf4 get4, of "[Fin 1061, Fin 1061]"] retuned_allows [OF i]
      consume_outcomes_node [of node "[Fin 1061, Fin 1061]" l4] by simp
  moreover have "0 < rnd (10 / 60)" using rnd_sixth by simp
  moreover have run: "limiter_run [?c, ?c, ?c, SetLimit node 10 (Fin 1001)] ?l = l4" by (simp add: l3_def l4_def)
  moreover have "consume_outcomes [?c, ?c, ?c, SetLimit node 10 (Fin 1001)] ?l = [True, True, False]" using out by simp
  ultimately show ?thesis
    unfolding test_per_node_override_retunes_capacity_def Let_def run RateLimiter_snapshot_def get4
    using i by (simp add: bucket_inv_def)
qed

section \<open>Trust store\<close>

text \<open>\<open>clock\<close> is the reading of the system clock by \<^verbatim>\<open>add\<close>.\<close>

definition test_add_remove_roundtrip_tracks_state :: "system_time \<Rightarrow> NodeId \<Rightarrow> bool" where
  "test_add_remove_roundtrip_tracks_state clock n \<longleftrightarrow>
     (let store = TrustStore_new in
      \<not> TrustStore_is_trusted store n \<and>
      (case TrustStore_add store n ''alpha-relay'' 50 clock of
         None \<Rightarrow> False
       | Some store \<Rightarrow>
           TrustStore_is_trusted store n \<and>
           (case TrustStore_get store n of
              None \<Rightarrow> False
            | Some entry \<Rightarrow> te_display_name entry = ''alpha-relay'' \<and> te_rate_limit_per_min entry = 50) \<and>
           (let (r1, store) = TrustStore_remove store n in
            r1 \<and> \<not> TrustStore_is_trusted store n \<and> \<not> fst (TrustStore_remove store n))))"

definition test_empty_store_lists_nothing :: "((NodeId, TrustEntry) hashmap \<Rightarrow> (NodeId \<times> TrustEntry) list) \<Rightarrow> bool" where
  "test_empty_store_lists_nothing it \<longleftrightarrow>
     TrustStore_is_empty TrustStore_new \<and> TrustStore_len TrustStore_new = 0 \<and> TrustStore_list it TrustStore_new = []"

definition test_default_rate_per_min_is_100 :: "system_time \<Rightarrow> NodeId \<Rightarrow> bool" where
  "test_default_rate_per_min_is_100 clock n \<longleftrightarrow>
     Trust_DEFAULT_RATE_PER_MIN = 100 \<and> TrustStore_add TrustStore_new n ''node'' 0 clock \<noteq> None"

definition test_persistence_roundtrip_via_disk ::
  "('sk, 'vk, 'sg, 'z) crates_scheme \<Rightarrow> ((NodeId, TrustEntry) hashmap \<Rightarrow> (NodeId \<times> TrustEntry) list) \<Rightarrow> system_time \<Rightarrow> NodeId \<Rightarrow> bool" where
  "test_persistence_roundtrip_via_disk cr it clock n \<longleftrightarrow>
     (let path = [''tmp'', ''trust.toml''] in
      case TrustStore_load_from_path cr empty_fs path of
        Inl _ \<Rightarrow> False
      | Inr store \<Rightarrow>
     (case TrustStore_add store n ''beta-relay'' 25 clock of
        None \<Rightarrow> False
      | Some store \<Rightarrow>
          let (saved, fs) = TrustStore_save it store empty_fs in
          is_ok saved \<and>
          (case TrustStore_load_from_path cr fs path of
             Inl _ \<Rightarrow> False
           | Inr restored \<Rightarrow>
               TrustStore_is_trusted restored n \<and>
               (case TrustStore_get restored n of
                  None \<Rightarrow> False
                | Some entry \<Rightarrow> te_display_name entry = ''beta-relay'' \<and> te_rate_limit_per_min entry = 25))))"

definition test_load_from_missing_file_yields_empty :: "('sk, 'vk, 'sg, 'z) crates_scheme \<Rightarrow> bool" where
  "test_load_from_missing_file_yields_empty cr \<longleftrightarrow>
     (case TrustStore_load_from_path cr empty_fs [''tmp'', ''nope.toml''] of
        Inl _ \<Rightarrow> False | Inr store \<Rightarrow> TrustStore_is_empty store)"

text \<open>A directory in the place of the file: reading it is an error that is not \<open>NotFound\<close>.\<close>

definition test_load_or_default_propagates_io_errors :: "('sk, 'vk, 'sg, 'z) crates_scheme \<Rightarrow> bool" where
  "test_load_or_default_propagates_io_errors cr \<longleftrightarrow>
     (let blocking_dir = [''tmp'', ''trust.toml''];
          fs = empty_fs\<lparr>fs_read_fault := [blocking_dir \<mapsto> ''is a directory'']\<rparr>
      in case TrustStore_load_from_path cr fs blocking_dir of Inl (TrustIo _ _) \<Rightarrow> True | _ \<Rightarrow> False)"

definition test_parse_tolerates_comments_and_blank_lines :: "('sk, 'vk, 'sg, 'z) crates_scheme \<Rightarrow> NodeId \<Rightarrow> bool" where
  "test_parse_tolerates_comments_and_blank_lines cr n \<longleftrightarrow>
     (case TrustStore_parse cr (NodeId_as_str n @ '' = '' @ [DQUOTE] @ ''primary:100'' @ [DQUOTE] @ [LF]) of
        Inl _ \<Rightarrow> False
      | Inr parsed \<Rightarrow>
          hm_len parsed = 1 \<and>
          (case hm_get parsed n of
             None \<Rightarrow> False
           | Some entry \<Rightarrow> te_display_name entry = ''primary'' \<and> te_rate_limit_per_min entry = 100))"

definition test_parse_rejects_malformed_lines :: "('sk, 'vk, 'sg, 'z) crates_scheme \<Rightarrow> bool" where
  "test_parse_rejects_malformed_lines cr \<longleftrightarrow>
     (\<forall>raw \<in> {''not_a_valid_assignment'', ''abc = '' @ [DQUOTE] @ ''missing-colon'' @ [DQUOTE],
         ''abc = '' @ [DQUOTE] @ ''name:not_a_number'' @ [DQUOTE]}.
        case TrustStore_parse cr raw of Inl (Malformed _ _) \<Rightarrow> True | _ \<Rightarrow> False)"

definition test_trust_store_satisfies_trust_check_trait :: "system_time \<Rightarrow> NodeId \<Rightarrow> bool" where
  "test_trust_store_satisfies_trust_check_trait clock n \<longleftrightarrow>
     \<not> TrustStore_trust_check TrustStore_new n \<and>
     (case TrustStore_add TrustStore_new n ''node'' 10 clock of
        None \<Rightarrow> False | Some store \<Rightarrow> TrustStore_trust_check store n)"

lemma trust_add_remove_passes:
  "now_unix_seconds clock \<noteq> None \<Longrightarrow> test_add_remove_roundtrip_tracks_state clock n"
  by (auto simp: test_add_remove_roundtrip_tracks_state_def TrustStore_new_def TrustStore_add_def TrustStore_is_trusted_def
      TrustStore_get_def TrustStore_remove_def hm_contains_key_def hm_laws TrustEntry_new_def)

lemma trust_empty_passes: "iteration_order it \<Longrightarrow> test_empty_store_lists_nothing it"
  using iteration_set [of it hm_new]
  by (simp add: test_empty_store_lists_nothing_def TrustStore_is_empty_def TrustStore_len_def TrustStore_list_def
      TrustStore_new_def hm_len_def hm_new_def)

lemma trust_missing_passes: "test_load_from_missing_file_yields_empty cr"
  by (simp add: test_load_from_missing_file_yields_empty_def TrustStore_load_from_path_def fs_read_to_string_def empty_fs_def
      TrustStore_is_empty_def TrustStore_len_def hm_len_def hm_new_def)

lemma trust_io_error_passes: "test_load_or_default_propagates_io_errors cr"
  by (simp add: test_load_or_default_propagates_io_errors_def TrustStore_load_from_path_def fs_read_to_string_def empty_fs_def)

lemma trust_check_passes: "now_unix_seconds clock \<noteq> None \<Longrightarrow> test_trust_store_satisfies_trust_check_trait clock n"
  by (auto simp: test_trust_store_satisfies_trust_check_trait_def TrustStore_trust_check_def TrustStore_new_def TrustStore_add_def TrustStore_is_trusted_def
      hm_contains_key_def hm_laws)

lemma trust_parse_passes:
  assumes "good_node cr n"
  shows "test_parse_tolerates_comments_and_blank_lines cr n"
proof -
  let ?e = "TrustEntry_new ''primary'' 0 100"
  have line: "NodeId_as_str n @ '' = '' @ [DQUOTE] @ ''primary:100'' @ [DQUOTE] @ [LF] = trust_render (Inr (n, ?e)) @ [LF]"
    by (simp add: trust_line_def TrustEntry_new_def) code_simp
  have good: "trust_good cr (Inr (n, ?e))"
    using assms by (simp add: good_trust_entry_def good_name_def TrustEntry_new_def) code_simp
  have "TrustStore_parse cr (trust_render (Inr (n, ?e)) @ [LF]) = Inr (hm_insert n ?e hm_new)"
    using trust_file.read_rendered [of cr "[Inr (n, ?e)]" hm_new] good
    by (simp add: TrustStore_parse_def TrustEntry_new_def)
  then show ?thesis
    unfolding test_parse_tolerates_comments_and_blank_lines_def line
    by (simp add: hm_laws hm.len_insert TrustEntry_new_def) (simp add: hm_new_def hm_len_def)
qed

lemma trust_disk_passes:
  assumes "good_node cr n" "iteration_order it" "now_unix_seconds clock \<noteq> None"
  shows "test_persistence_roundtrip_via_disk cr it clock n"
proof -
  let ?p = "[''tmp'', ''trust.toml'']"
  obtain now where now: "now_unix_seconds clock = Some now" using assms(3) by blast
  let ?e = "TrustEntry_new ''beta-relay'' now 25"
  let ?s0 = "\<lparr>ts_inner = hm_new, ts_path = Some ?p\<rparr>"
  define s where "s = ?s0\<lparr>ts_inner := hm_insert n ?e hm_new\<rparr>"
  have load: "TrustStore_load_from_path cr empty_fs ?p = Inr ?s0"
    by (simp add: TrustStore_load_from_path_def fs_read_to_string_def empty_fs_def)
  have add: "TrustStore_add ?s0 n ''beta-relay'' 25 clock = Some s" by (simp add: TrustStore_add_def now s_def)
  obtain fs where save: "TrustStore_save it s empty_fs = (Inr (), fs)"
    by (simp add: TrustStore_save_def s_def empty_fs_def path_parent_def fs_create_dir_all_def fs_write_def Let_def)
  have name: "good_name ''beta-relay''" by (simp add: good_name_def) code_simp
  have good: "\<forall>node e. TrustStore_get s node = Some e \<longrightarrow> good_trust_entry cr (node, e)"
    using assms(1) name by (simp add: TrustStore_get_def s_def hm_laws good_trust_entry_def TrustEntry_new_def)
  have ok: "trust_ok s" by (simp add: trust_ok_def s_def)
  have "mset (it (ts_inner s)) = {#(n, ?e)#}" using assms(2) by (simp add: iteration_order_def s_def hm_insert_def hm_new_def)
  then have one: "it (ts_inner s) = [(n, ?e)]" by (simp add: mset_single_iff)
  have restored: "TrustStore_load_from_path cr fs ?p = Inr \<lparr>ts_inner = hm_collect [(n, ?e\<lparr>te_added_at_unix := 0\<rparr>)], ts_path = Some ?p\<rparr>"
    using load_saved [OF ok assms(2) good save] one by (simp add: s_def empty_fs_def)
  show ?thesis
    using load add save restored
    by (simp add: test_persistence_roundtrip_via_disk_def TrustStore_is_trusted_def TrustStore_get_def hm_contains_key_def
        hm_get_collect TrustEntry_new_def)
qed

lemma trust_malformed_passes: "test_parse_rejects_malformed_lines cr"
proof -
  have "TrustStore_parse cr ''not_a_valid_assignment'' = Inl (Malformed 1 ExpectedEntry)" by code_simp
  moreover have "TrustStore_parse cr (''abc = '' @ [DQUOTE] @ ''missing-colon'' @ [DQUOTE]) = Inl (Malformed 1 ExpectedNameRate)"
    by code_simp
  moreover have "TrustStore_parse cr (''abc = '' @ [DQUOTE] @ ''name:not_a_number'' @ [DQUOTE]) =
      Inl (Malformed 1 (InvalidRate InvalidDigit))"
    by code_simp
  ultimately show ?thesis by (simp add: test_parse_rejects_malformed_lines_def)
qed

lemma trust_default_rate_passes: "now_unix_seconds clock \<noteq> None \<Longrightarrow> test_default_rate_per_min_is_100 clock n"
  by (auto simp: test_default_rate_per_min_is_100_def Trust_DEFAULT_RATE_PER_MIN_def TrustStore_add_def)

end
