(* ===== verification/Tests_Net.thy ===== *)
theory Tests_Net
  imports Sync Tunnel
begin

text \<open>
  The repository's unit tests of tickets, the session, the relay, the directory sync, the QUIC configuration and the tunnel, as
  predicates over the model, in the manner of the tests of the stores. Cryptography, JSON and TLS are arguments; what a test needs
  of them is a hypothesis of its lemma.
\<close>

section \<open>Tickets\<close>

definition test_node_id_roundtrip_uses_public_key_identity :: "('sk, 'vk, 'sg, 'z) crates_scheme \<Rightarrow> 'sk \<Rightarrow> bool" where
  "test_node_id_roundtrip_uses_public_key_identity cr key \<longleftrightarrow>
     (let node_id = NodeId_from_verifying_key cr (verifying_key cr key) in
      NodeId_parse cr (NodeId_as_str node_id) = Inr node_id)"

definition test_signed_ticket_roundtrip_verifies :: "('sk, 'vk, 'sg, 'z) crates_scheme \<Rightarrow> bytes \<Rightarrow> 'sk \<Rightarrow> bool" where
  "test_signed_ticket_roundtrip_verifies cr nonce key \<longleftrightarrow>
     (let now = 1700000000; me = NodeId_from_verifying_key cr (verifying_key cr key) in
      case issue_ticket cr True nonce key None ''quic://relay.example.net:4433'' DEFAULT_ALPN 300 now of
        Some (Inr ticket) \<Rightarrow>
          (case verify_ticket cr ticket (verifying_key cr key) (now + 1) of
             Inr verified \<Rightarrow> tc_issuer verified = me \<and> tc_subject verified = me \<and>
               tc_relay_url verified = ''quic://relay.example.net:4433''
           | Inl _ \<Rightarrow> False)
      | _ \<Rightarrow> False)"

definition test_relay_operator_can_issue_for_different_subject ::
  "('sk, 'vk, 'sg, 'z) crates_scheme \<Rightarrow> bytes \<Rightarrow> 'sk \<Rightarrow> 'sk \<Rightarrow> bool" where
  "test_relay_operator_can_issue_for_different_subject cr nonce issuer subject \<longleftrightarrow>
     (let now = 1700000000 in
      case issue_ticket cr True nonce issuer (Some (verifying_key cr subject)) ''quic://relay.example.net:4433'' DEFAULT_ALPN 300 now of
        Some (Inr ticket) \<Rightarrow>
          (case verify_ticket cr ticket (verifying_key cr issuer) (now + 1) of
             Inr verified \<Rightarrow> tc_issuer verified = NodeId_from_verifying_key cr (verifying_key cr issuer) \<and>
               tc_subject verified = NodeId_from_verifying_key cr (verifying_key cr subject)
           | Inl _ \<Rightarrow> False)
      | _ \<Rightarrow> False)"

definition test_tampered_ticket_is_rejected :: "('sk, 'vk, 'sg, 'z) crates_scheme \<Rightarrow> bytes \<Rightarrow> 'sk \<Rightarrow> bool" where
  "test_tampered_ticket_is_rejected cr nonce key \<longleftrightarrow>
     (let now = 1700000000 in
      case issue_ticket cr True nonce key None ''quic://relay.example.net:4433'' DEFAULT_ALPN 300 now of
        Some (Inr ticket) \<Rightarrow>
          let tampered = ticket\<lparr>st_claims := (st_claims ticket)\<lparr>tc_relay_url := ''quic://evil.example.net:4433''\<rparr>\<rparr> in
          verify_ticket cr tampered (verifying_key cr key) (now + 1) = Inl InvalidSignature
      | _ \<Rightarrow> False)"

definition test_expired_ticket_is_rejected :: "('sk, 'vk, 'sg, 'z) crates_scheme \<Rightarrow> bytes \<Rightarrow> 'sk \<Rightarrow> bool" where
  "test_expired_ticket_is_rejected cr nonce key \<longleftrightarrow>
     (let now = 1700000000 in
      case issue_ticket cr True nonce key None ''quic://relay.example.net:4433'' DEFAULT_ALPN 5 now of
        Some (Inr ticket) \<Rightarrow> verify_ticket cr ticket (verifying_key cr key) (now + 6) = Inl Expired
      | _ \<Rightarrow> False)"

definition test_secret_key_encoding_roundtrips :: "('sk, 'vk, 'sg, 'z) crates_scheme \<Rightarrow> 'sk \<Rightarrow> bool" where
  "test_secret_key_encoding_roundtrips cr key \<longleftrightarrow>
     (case decode_secret_key cr (encode_secret_key cr key) of
        Inr decoded \<Rightarrow> sk_to_keypair_bytes cr decoded = sk_to_keypair_bytes cr key | Inl _ \<Rightarrow> False)"

lemma issued_ticket:
  assumes "ed25519_correct cr" "base64_roundtrip cr" "json_total cr" "is_i64 (now + ttl)"
  shows "\<exists>t. issue_ticket cr checks nonce sk sub url alpn ttl now = Some (Inr t) \<and>
    sign_ticket cr (st_claims t) sk = Inr t \<and>
    st_claims t = \<lparr>tc_version = TICKET_VERSION, tc_issuer = NodeId_from_verifying_key cr (verifying_key cr sk),
      tc_subject = NodeId_from_verifying_key cr (case sub of None \<Rightarrow> verifying_key cr sk | Some k \<Rightarrow> k),
      tc_relay_url = url, tc_alpn = alpn, tc_issued_at = now, tc_expires_at = now + ttl,
      tc_nonce = b64_encode_string cr nonce\<rparr> \<and>
    (\<forall>when \<le> now + ttl. verify_ticket cr t (verifying_key cr sk) when = Inr (st_claims t))"
proof -
  obtain t where t: "issue_ticket cr checks nonce sk sub url alpn ttl now = Some (Inr t)"
    using issue_ticket_total [OF assms(3,4)] by blast
  note c = issue_ticket_claims [OF t]
  have "verify_ticket cr t (verifying_key cr sk) when = Inr (st_claims t)" if "when \<le> now + ttl" for "when"
    using that assms(4) c(1) by (intro verify_sign_ticket [OF assms(1,2) c(2)]) (simp_all add: i64_add_exact)
  with t c assms(4) show ?thesis by (auto simp: i64_add_exact)
qed

lemma node_id_passes:
  assumes "ed25519_correct cr" "base64_roundtrip cr"
  shows "test_node_id_roundtrip_uses_public_key_identity cr key"
proof -
  have "b64_decode cr (b64_encode_string cr (vk_as_bytes cr vk)) 32 = Some (vk_as_bytes cr vk)" for vk
    using assms unfolding ed25519_correct_def base64_roundtrip_def by metis
  then show ?thesis
    by (simp add: test_node_id_roundtrip_uses_public_key_identity_def NodeId_from_verifying_key_def NodeId_parse_def)
qed

lemma ticket_roundtrip_passes:
  assumes "ed25519_correct cr" "base64_roundtrip cr" "json_total cr"
  shows "test_signed_ticket_roundtrip_verifies cr nonce key"
  using issued_ticket [OF assms, of 1700000000 300 True nonce key None "''quic://relay.example.net:4433''" DEFAULT_ALPN]
  by (auto simp: test_signed_ticket_roundtrip_verifies_def i64_simps)

lemma ticket_subject_passes:
  assumes "ed25519_correct cr" "base64_roundtrip cr" "json_total cr"
  shows "test_relay_operator_can_issue_for_different_subject cr nonce issuer subject"
  using issued_ticket [OF assms, of 1700000000 300 True nonce issuer "Some (verifying_key cr subject)"
      "''quic://relay.example.net:4433''" DEFAULT_ALPN]
  by (auto simp: test_relay_operator_can_issue_for_different_subject_def i64_simps)

lemma ticket_expired_passes:
  assumes "ed25519_correct cr" "base64_roundtrip cr" "json_total cr"
  shows "test_expired_ticket_is_rejected cr nonce key"
  using issued_ticket [OF assms, of 1700000000 5 True nonce key None "''quic://relay.example.net:4433''" DEFAULT_ALPN]
  by (auto simp: test_expired_ticket_is_rejected_def i64_simps verify_ticket_def)

lemma secret_key_passes:
  assumes "ed25519_correct cr" "base64_roundtrip cr"
  shows "test_secret_key_encoding_roundtrips cr key"
proof -
  have "b64_decode cr (b64_encode_string cr (sk_to_keypair_bytes cr key)) 64 = Some (sk_to_keypair_bytes cr key)"
    "sk_from_keypair_bytes cr (sk_to_keypair_bytes cr key) = Some key"
    using assms unfolding ed25519_correct_def base64_roundtrip_def by metis+
  then show ?thesis
    by (simp add: test_secret_key_encoding_roundtrips_def encode_secret_key_def decode_secret_key_def)
qed

text \<open>A signature is good for the message it was made for only.\<close>

definition signature_binds :: "('sk, 'vk, 'sg, 'z) crates_scheme \<Rightarrow> 'sk \<Rightarrow> bool" where
  "signature_binds cr sk \<longleftrightarrow> (\<forall>m m'. verify cr (verifying_key cr sk) m' (sign cr sk m) \<longrightarrow> m' = m)"

lemma ticket_tampered_passes:
  assumes "ed25519_correct cr" "base64_roundtrip cr" "json_total cr" "json_injective cr" "signature_binds cr key"
  shows "test_tampered_ticket_is_rejected cr nonce key"
proof -
  obtain t where t: "issue_ticket cr True nonce key None ''quic://relay.example.net:4433'' DEFAULT_ALPN 300 1700000000 = Some (Inr t)"
      "sign_ticket cr (st_claims t) key = Inr t" "tc_version (st_claims t) = TICKET_VERSION"
      "tc_relay_url (st_claims t) = ''quic://relay.example.net:4433''" "tc_expires_at (st_claims t) = 1700000300"
    using issued_ticket [OF assms(1-3), of 1700000000 300 True nonce key None "''quic://relay.example.net:4433''" DEFAULT_ALPN]
    by (auto simp: i64_simps)
  define evil where "evil = (st_claims t)\<lparr>tc_relay_url := ''quic://evil.example.net:4433''\<rparr>"
  obtain m m' where m: "claims_to_json cr (st_claims t) = Inr m" "claims_to_json cr evil = Inr m'"
    using assms(3) unfolding json_total_def by blast
  have "tc_relay_url evil \<noteq> tc_relay_url (st_claims t)" using t(4) by (simp add: evil_def)
  then have "m' \<noteq> m" using assms(4) m unfolding json_injective_def by metis
  then have bad: "\<not> verify cr (verifying_key cr key) m' (sign cr key m)" using assms(5) by (auto simp: signature_binds_def)
  have sg: "st_signature t = b64_encode_string cr (sig_to_bytes cr (sign cr key m))"
    using t(2) m(1) by (simp add: sign_ticket_def canonical_ticket_payload_def) (metis SignedTicket.select_convs(2))
  have "verify_ticket cr (t\<lparr>st_claims := evil\<rparr>) (verifying_key cr key) 1700000001 = Inl InvalidSignature"
    using t(3,5) m(2) bad sg decode_signature_encoded [OF assms(1,2)]
    by (simp add: verify_ticket_def canonical_ticket_payload_def evil_def)
  then show ?thesis using t(1) by (simp add: test_tampered_ticket_is_rejected_def evil_def)
qed

section \<open>Session\<close>

text \<open>\<open>enc\<close> and \<open>dec\<close> are the JSON codec of error kinds, responses and summaries.\<close>

definition test_handshake_error_kind_roundtrip_and_label ::
  "(HandshakeErrorKind \<Rightarrow> string) \<Rightarrow> (string \<Rightarrow> string + HandshakeErrorKind) \<Rightarrow> bool" where
  "test_handshake_error_kind_roundtrip_and_label enc dec \<longleftrightarrow>
     list_all (\<lambda>kind. dec (enc kind) = Inr kind \<and> HandshakeErrorKind_as_label kind \<noteq> [])
       [HEK_TicketExpired, HEK_InvalidSignature, HEK_UnsupportedVersion 2, HEK_IssuerNotTrusted, HEK_SubjectMismatch]"

definition test_ticket_error_maps_into_handshake_kind :: bool where
  "test_ticket_error_maps_into_handshake_kind \<longleftrightarrow>
     HandshakeErrorKind_from Expired = HEK_TicketExpired \<and>
     HandshakeErrorKind_from (UnsupportedVersion 7) = HEK_UnsupportedVersion 7"

definition test_handshake_response_json_roundtrip ::
  "('sk, 'vk, 'sg, 'z) session_crates_scheme \<Rightarrow> NodeId \<Rightarrow> NodeId \<Rightarrow> bool" where
  "test_handshake_response_json_roundtrip cr issuer subject \<longleftrightarrow>
     (let response = HandshakeResponse_Ok \<lparr>tc_version = 1, tc_issuer = issuer, tc_subject = subject,
            tc_relay_url = ''quic://relay'', tc_alpn = DEFAULT_ALPN, tc_issued_at = 0, tc_expires_at = 1, tc_nonce = ''abc''\<rparr>
      in case response_to_vec cr response of
           Inl _ \<Rightarrow> False
         | Inr json \<Rightarrow>
             (case response_from_slice cr json of
                Inr (HandshakeResponse_Ok claims) \<Rightarrow> tc_issuer claims = issuer \<and> tc_subject claims = subject
              | _ \<Rightarrow> False))"

definition test_ticket_issue_for_subject_produces_valid_signature ::
  "('sk, 'vk, 'sg, 'z) crates_scheme \<Rightarrow> bytes \<Rightarrow> 'sk \<Rightarrow> 'sk \<Rightarrow> bool" where
  "test_ticket_issue_for_subject_produces_valid_signature cr nonce issuer subject \<longleftrightarrow>
     (case issue_ticket cr True nonce issuer (Some (verifying_key cr subject)) ''quic://relay'' DEFAULT_ALPN 60 1700000000 of
        Some (Inr ticket) \<Rightarrow>
          (case verify_ticket cr ticket (verifying_key cr issuer) 1700000010 of
             Inr verified \<Rightarrow> tc_subject verified = NodeId_from_verifying_key cr (verifying_key cr subject)
           | Inl _ \<Rightarrow> False)
      | _ \<Rightarrow> False)"

lemma error_kind_passes: "(\<And>k. dec (enc k) = Inr k) \<Longrightarrow> test_handshake_error_kind_roundtrip_and_label enc dec"
  by (simp add: test_handshake_error_kind_roundtrip_and_label_def)

lemma error_map_passes: test_ticket_error_maps_into_handshake_kind
  by (simp add: test_ticket_error_maps_into_handshake_kind_def)

lemma response_json_passes:
  assumes "\<And>r. \<exists>bs. response_to_vec cr r = Inr bs \<and> response_from_slice cr bs = Inr r"
  shows "test_handshake_response_json_roundtrip cr issuer subject"
proof -
  let ?r = "HandshakeResponse_Ok \<lparr>tc_version = 1, tc_issuer = issuer, tc_subject = subject,
     tc_relay_url = ''quic://relay'', tc_alpn = DEFAULT_ALPN, tc_issued_at = 0, tc_expires_at = 1, tc_nonce = ''abc''\<rparr>"
  obtain bs where "response_to_vec cr ?r = Inr bs" "response_from_slice cr bs = Inr ?r" using assms by blast
  then show ?thesis by (simp add: test_handshake_response_json_roundtrip_def)
qed

lemma session_ticket_passes:
  assumes "ed25519_correct cr" "base64_roundtrip cr" "json_total cr"
  shows "test_ticket_issue_for_subject_produces_valid_signature cr nonce issuer subject"
  using issued_ticket [OF assms, of 1700000000 60 True nonce issuer "Some (verifying_key cr subject)" "''quic://relay''" DEFAULT_ALPN]
  by (auto simp: test_ticket_issue_for_subject_produces_valid_signature_def i64_simps)

section \<open>QUIC configuration\<close>

text \<open>The assertions on the rendered transport configuration are assertions on its fields.\<close>

definition test_low_latency_profile_builds_quinn_transport_config :: "(u64 \<Rightarrow> bool) \<Rightarrow> bool" where
  "test_low_latency_profile_builds_quinn_transport_config varint \<longleftrightarrow>
     (case build_transport_config varint (low_latency_interactive ''/snappipe/0'') of
        Inl _ \<Rightarrow> False
      | Inr config \<Rightarrow> tr_max_concurrent_bidi_streams config = 8 \<and> tr_max_concurrent_uni_streams config = 32 \<and>
          tr_datagram_send_buffer_size config = 2097152 \<and> \<not> tr_allow_spin config)"

definition test_relay_profile_builds_quinn_transport_config :: "(u64 \<Rightarrow> bool) \<Rightarrow> bool" where
  "test_relay_profile_builds_quinn_transport_config varint \<longleftrightarrow>
     (case build_transport_config varint (relay_backhaul ''/snappipe/0'') of
        Inl _ \<Rightarrow> False
      | Inr config \<Rightarrow> tr_max_concurrent_bidi_streams config = 32 \<and>
          tr_datagram_receive_buffer_size config = Some 4194304)"

definition test_profile_rejects_varint_overflow :: "(u64 \<Rightarrow> bool) \<Rightarrow> bool" where
  "test_profile_rejects_varint_overflow varint \<longleftrightarrow>
     build_transport_config varint ((low_latency_interactive ''/snappipe/0'')\<lparr>qp_receive_window_bytes := 18446744073709551615\<rparr>) = Inl VarIntBounds"

definition test_self_signed_dev_cert_has_distinguished_chain_and_key :: "tls_crates \<Rightarrow> bool" where
  "test_self_signed_dev_cert_has_distinguished_chain_and_key tls \<longleftrightarrow>
     (case self_signed_dev_cert tls [''snap.test''] of
        Inl _ \<Rightarrow> False | Inr cert \<Rightarrow> length (dc_cert_chain cert) = 1 \<and> dc_private_key cert \<noteq> [])"

definition test_rustls_server_config_advertises_snappipe_alpn :: "tls_crates \<Rightarrow> bool" where
  "test_rustls_server_config_advertises_snappipe_alpn tls \<longleftrightarrow>
     (case self_signed_dev_cert tls [] of
        Inl _ \<Rightarrow> False
      | Inr cert \<Rightarrow>
          (case rustls_server_config tls cert of Inl _ \<Rightarrow> False | Inr cfg \<Rightarrow> st_alpn_protocols cfg = [DEFAULT_ALPN]))"

definition test_rustls_client_config_advertises_snappipe_alpn :: "tls_crates \<Rightarrow> bool" where
  "test_rustls_client_config_advertises_snappipe_alpn tls \<longleftrightarrow>
     (case self_signed_dev_cert tls [] of
        Inl _ \<Rightarrow> False
      | Inr cert \<Rightarrow>
          (case rustls_client_config tls cert of Inl _ \<Rightarrow> False | Inr cfg \<Rightarrow> ct_alpn_protocols cfg = [DEFAULT_ALPN]))"

definition test_client_and_server_alpn_match :: "tls_crates \<Rightarrow> bool" where
  "test_client_and_server_alpn_match tls \<longleftrightarrow>
     (case self_signed_dev_cert tls [] of
        Inl _ \<Rightarrow> False
      | Inr cert \<Rightarrow>
          (case (rustls_server_config tls cert, rustls_client_config tls cert) of
             (Inr server_cfg, Inr client_cfg) \<Rightarrow> st_alpn_protocols server_cfg = ct_alpn_protocols client_cfg
           | _ \<Rightarrow> False))"

definition dev_bind :: SocketAddr where
  "dev_bind = \<lparr>sa_ip = ''127.0.0.1'', sa_port = 0\<rparr>"

definition test_build_server_endpoint_succeeds_for_loopback :: "tls_crates \<Rightarrow> bool" where
  "test_build_server_endpoint_succeeds_for_loopback tls \<longleftrightarrow>
     (case build_server_endpoint tls (QuicEndpointConfig_server dev_bind) of
        Inl _ \<Rightarrow> False | Inr endpoint \<Rightarrow> sa_ip (ep_bind endpoint) = ''127.0.0.1'')"

definition test_build_client_endpoint_succeeds_for_loopback :: "tls_crates \<Rightarrow> bool" where
  "test_build_client_endpoint_succeeds_for_loopback tls \<longleftrightarrow>
     (case self_signed_dev_cert tls [] of
        Inl _ \<Rightarrow> False
      | Inr trust \<Rightarrow>
          (case build_client_endpoint tls (QuicEndpointConfig_client dev_bind) trust of
             Inl _ \<Rightarrow> False | Inr endpoint \<Rightarrow> sa_ip (ep_bind endpoint) = ''127.0.0.1''))"

lemma profile_tests_pass:
  assumes "varint_range varint"
  shows "test_low_latency_profile_builds_quinn_transport_config varint"
    and "test_relay_profile_builds_quinn_transport_config varint"
    and "test_profile_rejects_varint_overflow varint"
  using assms
  by (simp_all add: test_low_latency_profile_builds_quinn_transport_config_def test_relay_profile_builds_quinn_transport_config_def
      test_profile_rejects_varint_overflow_def build_transport_config_def low_latency_interactive_def relay_backhaul_def
      varint_range_def)

text \<open>The crates accept the generated certificate, and the socket can be bound.\<close>

definition tls_works :: "tls_crates \<Rightarrow> bool" where
  "tls_works tls \<longleftrightarrow> (\<forall>sans. \<exists>cert key. key \<noteq> [] \<and> tls_generate tls sans = Inr (cert, key)) \<and> tls_versions tls = Inr () \<and>
     (\<forall>chain key. tls_single_cert tls chain key = Inr ()) \<and> (\<forall>cert. tls_add_root tls cert = Inr ()) \<and>
     (\<forall>cfg. tls_quic_server tls cfg = Inr ()) \<and> (\<forall>cfg. tls_quic_client tls cfg = Inr ()) \<and>
     varint_range (tls_varint tls) \<and> tls_bind tls dev_bind = Inr ()"

lemma dev_cert:
  assumes "tls_works tls"
  shows "\<exists>cert key. key \<noteq> [] \<and> self_signed_dev_cert tls sans = Inr \<lparr>dc_cert_chain = [cert], dc_private_key = key\<rparr>"
proof -
  obtain cert key where "key \<noteq> []" "tls_generate tls (DEFAULT_DEV_SAN # sans) = Inr (cert, key)"
    using assms unfolding tls_works_def by blast
  then show ?thesis by (auto simp: self_signed_dev_cert_def)
qed

lemma tls_tests_pass:
  assumes "tls_works tls"
  shows "test_self_signed_dev_cert_has_distinguished_chain_and_key tls"
    and "test_rustls_server_config_advertises_snappipe_alpn tls"
    and "test_rustls_client_config_advertises_snappipe_alpn tls"
    and "test_client_and_server_alpn_match tls"
  using dev_cert [OF assms, of "[]"] dev_cert [OF assms, of "[''snap.test'']"] assms
  by (auto simp: test_self_signed_dev_cert_has_distinguished_chain_and_key_def
      test_rustls_server_config_advertises_snappipe_alpn_def test_rustls_client_config_advertises_snappipe_alpn_def
      test_client_and_server_alpn_match_def rustls_server_config_def rustls_client_config_def default_alpn_bytes_def tls_works_def)

lemma endpoint_tests_pass:
  assumes "tls_works tls"
  shows "test_build_server_endpoint_succeeds_for_loopback tls" and "test_build_client_endpoint_succeeds_for_loopback tls"
  using dev_cert [OF assms, of "[]"] assms
  by (auto simp: test_build_server_endpoint_succeeds_for_loopback_def test_build_client_endpoint_succeeds_for_loopback_def
      build_server_endpoint_def build_client_endpoint_def default_server_config_def default_client_config_def
      rustls_server_config_def rustls_client_config_def QuicEndpointConfig_server_def QuicEndpointConfig_client_def
      build_transport_config_def low_latency_interactive_def relay_backhaul_def varint_range_def tls_works_def dev_bind_def)

section \<open>Tunnel\<close>

definition test_tunnel_config_rejects_fully_empty_population :: bool where
  "test_tunnel_config_rejects_fully_empty_population \<longleftrightarrow>
     (let cfg = \<lparr>tn_quic_bind = \<lparr>sa_ip = ''0.0.0.0'', sa_port = 0\<rparr>, tn_target_addr = \<lparr>sa_ip = ''127.0.0.1'', sa_port = 0\<rparr>,
            tn_listen_addr = \<lparr>sa_ip = ''127.0.0.1'', sa_port = 0\<rparr>, tn_relay_addr = \<lparr>sa_ip = ''0.0.0.0'', sa_port = 0\<rparr>\<rparr>
      in \<not> is_ok (TunnelConfig_validate cfg) \<and> \<not> is_ok (TunnelConfig_validate_server cfg) \<and>
         \<not> is_ok (TunnelConfig_validate_client cfg))"

definition test_tunnel_alpn_is_distinct_from_default_alpn :: bool where
  "test_tunnel_alpn_is_distinct_from_default_alpn \<longleftrightarrow>
     TUNNEL_ALPN \<noteq> DEFAULT_ALPN \<and> starts_with ''/snappipe/'' TUNNEL_ALPN"

definition test_ticket_error_label_covers_all_variants :: bool where
  "test_ticket_error_label_covers_all_variants \<longleftrightarrow>
     list_all (\<lambda>(err, label). ticket_error_label err = label)
       [(Expired, ''expired''), (InvalidKeyEncoding, ''invalid_key_encoding''),
        (InvalidSignatureEncoding, ''invalid_signature_encoding''), (InvalidSignature, ''invalid_signature''),
        (UnsupportedVersion 7, ''unsupported_version''), (Serialization ''x'', ''serialization'')]"

lemma tunnel_tests_pass:
  test_tunnel_config_rejects_fully_empty_population
  test_tunnel_alpn_is_distinct_from_default_alpn
  test_ticket_error_label_covers_all_variants
  by code_simp+

section \<open>Relay\<close>

text \<open>The world of a test: the limiter, the payload to read and the constant closure given as clock.\<close>

definition relay_test_world :: "u32 \<Rightarrow> bytes \<Rightarrow> f64 \<Rightarrow> memory_world" where
  "relay_test_world rate payload clock =
     \<lparr>mw_limiter = RateLimiter_new rate, mw_incoming = MemoryStream_with_payload payload, mw_outgoing = MemoryStream_default,
      mw_clock = (\<lambda>_. clock), mw_ticks = 0\<rparr>"

definition test_untrusted_peer_is_rejected_without_forwarding :: "NodeId \<Rightarrow> bool" where
  "test_untrusted_peer_is_rejected_without_forwarding peer \<longleftrightarrow>
     (case Relay_handle_connection memory_env (RelayServiceConfig_new ''127.0.0.1:0'' TrustStore_new) peer (Fin 1000)
          (relay_test_world 100 (map of_char ''ping'') (Fin 1000)) of
        None \<Rightarrow> False
      | Some (conn_log, _) \<Rightarrow> cl_outcome conn_log = TrustRejected \<and> cl_bytes_in conn_log = 0 \<and> cl_bytes_out conn_log = 0)"

definition test_trusted_peer_forwards_payload_and_reports_closed :: "system_time \<Rightarrow> NodeId \<Rightarrow> bool" where
  "test_trusted_peer_forwards_payload_and_reports_closed clock peer \<longleftrightarrow>
     (case TrustStore_add TrustStore_new peer ''trusted'' 100 clock of
        None \<Rightarrow> False
      | Some trust \<Rightarrow>
          let payload = map of_char ''hello, relay!'' in
          (case Relay_handle_connection memory_env (RelayServiceConfig_new ''127.0.0.1:0'' trust) peer (Fin 1000)
               (relay_test_world 100 payload (Fin (2001 / 2))) of
             None \<Rightarrow> False
           | Some (conn_log, _) \<Rightarrow> cl_outcome conn_log = Closed \<and> unat (cl_bytes_in conn_log) = length payload \<and>
               unat (cl_bytes_out conn_log) = length payload \<and> 500 \<le> cl_duration_ms conn_log))"

definition test_rate_limited_peer_is_cut_short :: "system_time \<Rightarrow> NodeId \<Rightarrow> bool" where
  "test_rate_limited_peer_is_cut_short clock peer \<longleftrightarrow>
     (case TrustStore_add TrustStore_new peer ''trusted'' 1 clock of
        None \<Rightarrow> False
      | Some trust \<Rightarrow>
          let big = concat (replicate 8 (replicate (8 * 1024) 171)) in
          (case Relay_handle_connection memory_env (RelayServiceConfig_new ''127.0.0.1:0'' trust) peer (Fin 1000)
               (relay_test_world 1 big (Fin 1000)) of
             None \<Rightarrow> False
           | Some (conn_log, _) \<Rightarrow> cl_outcome conn_log = RateLimited \<and> 0 < cl_bytes_in conn_log \<and>
               cl_bytes_out conn_log < cl_bytes_in conn_log))"

definition test_stats_aggregate_by_outcome :: "NodeId \<Rightarrow> bool" where
  "test_stats_aggregate_by_outcome peer \<longleftrightarrow>
     (let base = \<lparr>cl_src_node = peer, cl_dst_node = None, cl_bytes_in = 0, cl_bytes_out = 0, cl_started_at_unix = Fin 0,
            cl_duration_ms = 0, cl_outcome = Closed\<rparr>;
          stats = RelayStats_record base RelayStats_new;
          stats = RelayStats_record (base\<lparr>cl_outcome := Closed\<rparr>) stats;
          stats = RelayStats_record (base\<lparr>cl_outcome := RateLimited\<rparr>) stats;
          stats = RelayStats_record (base\<lparr>cl_outcome := TrustRejected\<rparr>) stats
      in hm_get (rst_counts stats) ''closed'' = Some 2 \<and> hm_get (rst_counts stats) ''rate_limited'' = Some 1 \<and>
         hm_get (rst_counts stats) ''trust_rejected'' = Some 1 \<and> RelayStats_total stats = 4)"

lemma relay_untrusted_passes: "test_untrusted_peer_is_rejected_without_forwarding peer"
  by (simp add: test_untrusted_peer_is_rejected_without_forwarding_def Relay_handle_connection_def RelayServiceConfig_new_def
      TrustStore_new_def TrustStore_is_trusted_def hm_contains_key_def hm_laws refused_log_def)

lemma relay_test_world_simps:
  "hm_wf (rl_inner (mw_limiter (relay_test_world rate payload clock)))"
  "hm_get (rl_inner (mw_limiter (relay_test_world rate payload clock))) node = None"
  "mw_clock (relay_test_world rate payload clock) = (\<lambda>_. clock)"
  "memory_rest (relay_test_world rate payload clock) = payload"
  using limiter_ok_wf [OF limiter_ok_new [of rate]]
  by (simp_all add: relay_test_world_def memory_rest_def MemoryStream_with_payload_def MemoryStream_default_def)

lemma added_entry:
  "TrustStore_add TrustStore_new node name rate clock = Some trust \<Longrightarrow>
     \<exists>now. TrustStore_get trust node = Some (TrustEntry_new name now rate)"
  by (auto simp: TrustStore_add_def TrustStore_new_def TrustStore_get_def hm_laws split: option.splits)

lemma add_succeeds: "now_unix_seconds clock \<noteq> None \<Longrightarrow> \<exists>trust. TrustStore_add s node name rate clock = Some trust"
  by (auto simp: TrustStore_add_def)

lemma relay_limited_passes:
  assumes "now_unix_seconds clock \<noteq> None"
  shows "test_rate_limited_peer_is_cut_short clock peer"
proof -
  obtain trust where trust: "TrustStore_add TrustStore_new peer ''trusted'' 1 clock = Some trust"
    using add_succeeds [OF assms] by blast
  let ?cfg = "RelayServiceConfig_new ''127.0.0.1:0'' trust"
  let ?big = "concat (replicate 8 (replicate (8 * 1024) 171)) :: bytes"
  obtain now where "TrustStore_get (rsc_trust ?cfg) peer = Some (TrustEntry_new ''trusted'' now 1)"
    using added_entry [OF trust] by (auto simp: RelayServiceConfig_new_def)
  moreover have "length ?big = 65536" by (simp add: length_concat sum_list_replicate)
  ultimately show ?thesis
    using relay_limited [of ?cfg peer _ "relay_test_world 1 ?big (Fin 1000)" 1000 1000 1] trust
    by (fastforce simp: test_rate_limited_peer_is_cut_short_def relay_test_world_simps TrustEntry_new_def Let_def min_def)
qed

lemma relay_trusted_passes:
  assumes "now_unix_seconds clock \<noteq> None"
  shows "test_trusted_peer_forwards_payload_and_reports_closed clock peer"
proof -
  obtain trust where trust: "TrustStore_add TrustStore_new peer ''trusted'' 100 clock = Some trust"
    using add_succeeds [OF assms] by blast
  let ?cfg = "RelayServiceConfig_new ''127.0.0.1:0'' trust" and ?p = "map of_char ''hello, relay!'' :: bytes"
  obtain now where e: "TrustStore_get (rsc_trust ?cfg) peer = Some (TrustEntry_new ''trusted'' now 100)"
    using added_entry [OF trust] by (auto simp: RelayServiceConfig_new_def)
  have rep: "rep (2001 / 2)" using rep_halves [of 2001] by simp
  have d: "duration_ms (Fin (2001 / 2)) (Fin 1000) = 500"
    using f64_exact [OF rep_half] f64_exact [of 500]
    by (simp add: duration_ms_def f64_sub_def f64_max_def)
  show ?thesis
    using relay_limited [of ?cfg peer _ "relay_test_world 100 ?p (Fin (2001 / 2))" 1000 "2001 / 2" 100] trust e rep d
    by (fastforce simp: test_trusted_peer_forwards_payload_and_reports_closed_def relay_test_world_simps TrustEntry_new_def Let_def)
qed

lemma relay_stats_passes: "test_stats_aggregate_by_outcome peer"
  by (simp add: test_stats_aggregate_by_outcome_def RelayStats_record_def RelayStats_new_def RelayStats_total_def hm_new_def
      hm_insert_def hm_get_def)

section \<open>Directory sync\<close>

text \<open>
  A temporary directory: the files that were written, with their sizes and the time of the write. The enumeration yields the root, the
  directories and the files.
\<close>

type_synonym tmp_tree = "(path \<times> nat \<times> system_time) list"

definition tmp_root :: path where
  "tmp_root = [''tmp'']"

definition tmp_dirs :: "tmp_tree \<Rightarrow> path list" where
  "tmp_dirs files = remdups (map (butlast \<circ> fst) (filter (\<lambda>f. 1 < length (fst f)) files))"

definition tmp_walk :: "tmp_tree \<Rightarrow> path \<Rightarrow> ((path option \<times> io_error) + DirEntry) list" where
  "tmp_walk files dir =
     Inr \<lparr>de_path = dir, de_is_dir = True\<rparr> #
     map (\<lambda>d. Inr \<lparr>de_path = dir @ d, de_is_dir = True\<rparr>) (tmp_dirs files) @
     map (\<lambda>(p, _, _). Inr \<lparr>de_path = dir @ p, de_is_dir = False\<rparr>) files"

definition tmp_stat :: "tmp_tree \<Rightarrow> path \<Rightarrow> io_error + metadata" where
  "tmp_stat files p =
     (case find (\<lambda>(q, _, _). tmp_root @ q = p) files of
        Some (_, n, t) \<Rightarrow> Inr \<lparr>md_is_dir = False, md_len = of_nat n, md_modified = Some t, md_mode = 420\<rparr>
      | None \<Rightarrow>
          if p = tmp_root \<or> (\<exists>d \<in> set (tmp_dirs files). tmp_root @ d = p)
          then Inr \<lparr>md_is_dir = True, md_len = 0, md_modified = Some 0, md_mode = 493\<rparr> else Inl NotFound)"

definition walk_tmp :: "tmp_tree \<Rightarrow> SyncError + FileEntry list" where
  "walk_tmp files = walk_dir (tmp_walk files) (\<lambda>es. es) (tmp_stat files) tmp_root"

definition test_walk_dir_returns_sorted_canonical_entries :: "system_time \<Rightarrow> bool" where
  "test_walk_dir_returns_sorted_canonical_entries now \<longleftrightarrow>
     (case walk_tmp [([''b.txt''], 6, now), ([''a.txt''], 5, now), ([''sub'', ''c.txt''], 5, now)] of
        Inl _ \<Rightarrow> False
      | Inr entries \<Rightarrow> map fe_path entries = [''a.txt'', ''b.txt'', ''sub/c.txt''] \<and> fe_size (entries ! 0) = 5 \<and>
          Mtime_is_known (fe_mtime (entries ! 0)))"

definition test_walk_dir_skips_dotfiles_and_git :: "system_time \<Rightarrow> bool" where
  "test_walk_dir_skips_dotfiles_and_git now \<longleftrightarrow>
     (case walk_tmp [([''keep.txt''], 1, now), ([''.hidden''], 1, now), ([''.git'', ''HEAD''], 20, now), ([''ok'', ''.dotfile''], 1, now)] of
        Inl _ \<Rightarrow> False
      | Inr entries \<Rightarrow>
          let paths = map fe_path entries in
          ''keep.txt'' \<in> set paths \<and> list_all (\<lambda>p. \<not> starts_with ''.git'' p) paths \<and>
          list_all (\<lambda>p. \<not> starts_with ''.'' p) paths)"

definition test_walk_dir_propagates_permission_errors :: bool where
  "test_walk_dir_propagates_permission_errors \<longleftrightarrow>
     (case walk_dir (tmp_walk []) (\<lambda>es. es) (tmp_stat []) (tmp_root @ [''does-not-exist'']) of
        Inl (NotADirectory _) \<Rightarrow> True | Inl (SyncWalk _ _) \<Rightarrow> True | _ \<Rightarrow> False)"

text \<open>The world of the next two tests is the modification time of the one file.\<close>

definition set_tmp_mtime :: "path \<Rightarrow> int \<Rightarrow> u32 \<Rightarrow> system_time \<Rightarrow> (io_error + unit) \<times> system_time" where
  "set_tmp_mtime p secs nanos w = (Inr (), secs * 1000000000 + int (unat nanos))"

definition test_mtime_roundtrip_via_apply_mtime :: bool where
  "test_mtime_roundtrip_via_apply_mtime \<longleftrightarrow>
     (let target = tmp_root @ [''f.txt'']; walk = (\<lambda>t. walk_tmp [([''f.txt''], 5, t)]);
          (_, t1) = set_tmp_mtime target 1700000000 123456789 0;
          (_, t2) = set_tmp_mtime target 1800000000 987654321 t1
      in case (walk t1, walk t2) of
           (Inr (e1 # _), Inr (e2 # _)) \<Rightarrow>
             let captured = fe_mtime e1; (r, t3) = apply_mtime set_tmp_mtime target captured t2 in
             captured = Mtime 1700000000 123456789 \<and> fe_mtime e2 = Mtime 1800000000 987654321 \<and> is_ok r \<and>
             (case walk t3 of Inr (e3 # _) \<Rightarrow> fe_mtime e3 = captured | _ \<Rightarrow> False)
         | _ \<Rightarrow> False)"

definition test_mtime_distinguishes_two_writes_within_same_second :: bool where
  "test_mtime_distinguishes_two_writes_within_same_second \<longleftrightarrow>
     (let a = \<lparr>fe_path = ''x'', fe_size = 1, fe_mtime = Mtime 1700000000 0, fe_executable = False, fe_mode = 420\<rparr>;
          b = \<lparr>fe_path = ''x'', fe_size = 1, fe_mtime = Mtime 1700000000 1, fe_executable = False, fe_mode = 420\<rparr>
      in signature_changed a b)"

definition test_mtime_unknown_is_noop :: "system_time \<Rightarrow> bool" where
  "test_mtime_unknown_is_noop pre \<longleftrightarrow>
     apply_mtime set_tmp_mtime (tmp_root @ [''noop.txt'']) Mtime_ZERO pre = (Inr (), pre)"

definition sync_make :: "string \<Rightarrow> u64 \<Rightarrow> int \<Rightarrow> u32 \<Rightarrow> FileEntry" where
  "sync_make p sz secs nanos =
     \<lparr>fe_path = p, fe_size = sz, fe_mtime = Mtime secs nanos, fe_executable = False, fe_mode = 420\<rparr>"

definition test_diff_entries_detects_added_removed_modified ::
  "((string, FileEntry) hashmap \<Rightarrow> (string \<times> FileEntry) list) \<Rightarrow> bool" where
  "test_diff_entries_detects_added_removed_modified it \<longleftrightarrow>
     (let source = [sync_make ''shared.txt'' 10 1000 0, sync_make ''gone.txt'' 5 1100 0, sync_make ''edit.txt'' 7 1200 0];
          target = [sync_make ''shared.txt'' 10 1000 0, sync_make ''edit.txt'' 8 1200 1, sync_make ''new.txt'' 4 1300 0];
          (added, removed, modified) = diff_entries it source target
      in map fe_path added = [''new.txt''] \<and> map fe_path removed = [''gone.txt''] \<and>
         map (fe_path \<circ> fst) modified = [''edit.txt''] \<and> map (fe_size \<circ> snd) modified = [8] \<and>
         map (mt_nanos \<circ> fe_mtime \<circ> snd) modified = [1])"

lemmas tmp_walk_simps = walk_tmp_def walk_dir_def walk_dir_with_def tmp_walk_def tmp_stat_def tmp_dirs_def tmp_root_def enumerate_step_def
  collect_step_def path_strip_prefix_def rel_string_def replace_char_def default_predicate_def starts_with_def build_entry_def
  Mtime_from_metadata_def PARALLEL_THRESHOLD_def unix_mode_def Let_def

lemma tmp_time:
  assumes "0 < t" and "t < 9223372036854775808 * 1000000000"
  shows "\<exists>m. Mtime_from_system_time t = Some m \<and> Mtime_is_known m"
proof -
  have "0 < t div 1000000000 \<or> 0 < t mod 1000000000"
    using assms(1) by (cases "t < 1000000000") (simp_all add: pos_imp_zdiv_pos_iff)
  then have "0 < t div 1000000000 \<or> 0 < (of_int (t mod 1000000000) :: u32)"
    using unat_nanos [of t] by (auto simp: word_less_nat_alt)
  then show ?thesis using assms by (auto simp: from_system_time Mtime_is_known_def)
qed

lemma tmp_order [simp]: "''a.txt'' < ''b.txt''" "''b.txt'' < ''sub/c.txt''" "''a.txt'' < ''sub/c.txt''"
  by code_simp+

lemma sync_walk_passes:
  assumes "0 < now" and "now < 9223372036854775808 * 1000000000"
  shows "test_walk_dir_returns_sorted_canonical_entries now"
  using tmp_time [OF assms] tmp_order
  by (auto simp: test_walk_dir_returns_sorted_canonical_entries_def tmp_walk_simps)

lemma sync_dotfiles_passes:
  assumes "0 < now" and "now < 9223372036854775808 * 1000000000"
  shows "test_walk_dir_skips_dotfiles_and_git now"
  using tmp_time [OF assms] by (auto simp: test_walk_dir_skips_dotfiles_and_git_def tmp_walk_simps)

lemma sync_missing_passes: test_walk_dir_propagates_permission_errors
  by code_simp

lemma sync_same_second_passes: test_mtime_distinguishes_two_writes_within_same_second
  by code_simp

lemma sync_unknown_passes: "test_mtime_unknown_is_noop pre"
  by (simp add: test_mtime_unknown_is_noop_def apply_mtime_def Mtime_is_known_def Mtime_ZERO_def)

lemma sync_diff_passes: "test_diff_entries_detects_added_removed_modified (\<lambda>m. m)"
  by code_simp

lemma tmp_one:
  assumes "0 \<le> t" and "t < 9223372036854775808 * 1000000000"
  shows "walk_tmp [([''f.txt''], 5, t)] = Inr [\<lparr>fe_path = ''f.txt'', fe_size = 5,
           fe_mtime = Mtime (t div 1000000000) (of_int (t mod 1000000000)), fe_executable = False, fe_mode = 420\<rparr>]"
  by (simp add: tmp_walk_simps from_system_time [OF assms])

lemma sync_mtime_passes: test_mtime_roundtrip_via_apply_mtime
  by (simp add: test_mtime_roundtrip_via_apply_mtime_def set_tmp_mtime_def tmp_one apply_mtime_def Mtime_is_known_def)

end
