(* ===== verification/Spec2Isabelle.thy ===== *)
theory Spec2Isabelle
  imports Nonce_Load Nonce_Threads Sync Cli Rendezvous Handshake_Example Tests_Stores Tests_Net
begin

text \<open>
  A verification library for SnapPipe, a toolkit for identity-gated QUIC transport: signed tickets, a replay
  store, a rate limiter, a ticket handshake, a trust store, a relay, a TCP tunnel, a directory
  walker and the command line over them. File names below are those of the repository.

  \<^bold>\<open>The program.\<close> An operator's key signs a ticket that names an issuer, a subject, a relay, an
  ALPN and an expiry (\<^verbatim>\<open>src/lib.rs\<close>). A client presents it on the first QUIC stream of a connection
  (\<^verbatim>\<open>src/session.rs\<close>); the server verifies it, asks the trust store (\<^verbatim>\<open>src/trust.rs\<close>) about the issuer
  and compares the subject. An admitted connection is relayed under the peer's rate limit
  (\<^verbatim>\<open>src/relay/mod.rs\<close>, \<^verbatim>\<open>src/relay/listener.rs\<close>, \<^verbatim>\<open>src/rate_limit.rs\<close>) or bridged to a TCP target
  (\<^verbatim>\<open>src/transport/tunnel.rs\<close>) over endpoints built by \<^verbatim>\<open>src/quic/\<close>. The replay store
  (\<^verbatim>\<open>src/nonce_store.rs\<close>) and the directory walker (\<^verbatim>\<open>src/sync.rs\<close>) are components of their own;
  \<^verbatim>\<open>src/main.rs\<close> is the binary.

  \<^bold>\<open>Foundations.\<close>
  \<^item> \<open>Prelude\<close>: machine integers, results, the \<^verbatim>\<open>for ... ?\<close> loop, big-endian bytes.
  \<^item> \<open>Rust_Str\<close>, \<open>Rust_Map\<close>, \<open>Rust_Fs\<close>, \<open>Rust_Io\<close>: the parts of the standard library the code uses:
    \<^verbatim>\<open>trim\<close>, \<^verbatim>\<open>lines\<close> and number parsing; \<^verbatim>\<open>HashMap\<close>, by the locale \<open>hash_map\<close> and its interpretation \<open>hm\<close> on
    association lists; files, paths and clock readings; computations over a world that end with a
    result, an error or a panic, and the operations of a QUIC stream. The locale \<open>line_codec\<close>
    is the contract of a text format of one entry per line; the nonce file and the trust file
    interpret it.
  \<^item> \<open>F64\<close>: binary64 arithmetic with round-to-nearest-even, infinities and NaN.

  \<^bold>\<open>Components.\<close> Each theory has the data of its file as records and datatypes, one definition per
  operation with all its error branches, then its lemmas and properties.
  \<^item> \<open>Ticket\<close> (\<^verbatim>\<open>src/lib.rs\<close>): an issued ticket verifies up to its expiry; accepted claims were signed or come
    with a forgery; overflow of the expiry at both ends.
  \<^item> \<open>Nonce_Store\<close>, \<open>Nonce_Spec\<close>, \<open>Nonce_Load\<close>, \<open>Nonce_Threads\<close> (\<^verbatim>\<open>src/nonce_store.rs\<close>): no nonce is accepted twice within the TTL, also
    under clean-ups; the file format round trip; the store refines a partial function (locale
    \<open>machine_refinement\<close>); what a file says is exactly what is loaded; concurrent calls as a step relation over threads, in which
    one of several checks of a nonce is accepted and checks of distinct nonces all are.
  \<^item> \<open>Rate_Limit\<close> (\<^verbatim>\<open>src/rate_limit.rs\<close>): token counts stay within the capacity, nodes are isolated, and what any
    window allows is bounded, all including rounding.
  \<^item> \<open>Session\<close> (\<^verbatim>\<open>src/session.rs\<close>): \<open>server_handshake\<close> is reading a frame, the specification \<open>admission\<close>, and an answer
    to an admitted client only; soundness of the gate, completion, silence on errors, panics on huge headers. The
    handshake consults no replay store: the same ticket is admitted again until it expires.
  \<^item> \<open>Trust\<close> (\<^verbatim>\<open>src/trust.rs\<close>): saving and loading, failing closed, histories of additions and removals.
  \<^item> \<open>Relay\<close>, \<open>Listener\<close> (\<^verbatim>\<open>src/relay/\<close>): forwarding is a prefix with exact counters for streams that meet
    the locales \<open>relay_streams\<close> and \<open>reliable_relay_streams\<close>, interpreted on \<^verbatim>\<open>MemoryStream\<close>; the exact effect of
    the rate limit; what the listener does over QUIC. \<open>Rendezvous\<close> has a client's handshake against the listener by rely and guarantee: each waits
    on a stream that the other never writes to.
  \<^item> \<open>Sync\<close> (\<^verbatim>\<open>src/sync.rs\<close>): a walk is complete and sorted, the parallel closure computes what the loop does for every schedule, errors
    surface, differences are exact and replay to the target, modification times survive.
  \<^item> \<open>Quic\<close> (\<^verbatim>\<open>src/quic/mod.rs\<close>, \<^verbatim>\<open>src/quic/endpoint.rs\<close>): profiles and endpoint configurations.
  \<^item> \<open>Tunnel\<close> (\<^verbatim>\<open>src/transport/tunnel.rs\<close>): a bridge is the step relation \<open>bridge_step\<close> of two copy loops that
    interleave, which is what the executable \<open>bridge_exec\<close> does for some schedule; every run delivers prefixes, ends within a bound and, without failures, delivers
    everything; the server is gated by the handshake and the client by its own check.
  \<^item> \<open>Cli\<close> (\<^verbatim>\<open>src/main.rs\<close>): the commands, from \<^verbatim>\<open>keygen\<close> to a verified ticket, the metrics workload, and the
    protocol the two tunnel commands offer.
  \<^item> \<open>Handshake_Example\<close> (\<^verbatim>\<open>examples/handshake.rs\<close>): the demonstration program, both tasks and the text of its error
    chain; what its ending without an error says of the ticket, the handshake and the echo.
  \<^item> \<open>Tests_Stores\<close>, \<open>Tests_Net\<close>: the unit tests of the library as definitions over the model, each with a lemma
    that it passes, for all keys, clocks and crates that meet the stated contracts. They tie the model to the behaviour that the
    repository itself fixes.
  \<^item> This theory: the ticket, the handshake and the trust store together, and what \<^verbatim>\<open>snappipe tunnel serve\<close> guards.

  \<^bold>\<open>Conventions and bounds.\<close> \<^verbatim>\<open>usize\<close> is 64 bits wide; counters and byte counts are words and wrap. \<open>i64\<close>
  values are integers with \<open>is_i64\<close>, and additions that may overflow take the build mode (panic or wrap). A
  loop that may run forever is a partial function into \<open>option\<close>: \<open>None\<close> is not returning, and claims that it
  returns are proved as such. No fuel is used. The bound on the steps of a bridge is twice the
  bytes of both sources plus four. Mutexes make operations atomic; the one operation with two
  atomic steps (\<open>count_check\<close>, \<open>check_locked\<close>) is modelled as such. The order in which a hash map iterates is an
  argument. Paths and text files are UTF-8.

  \<^bold>\<open>Parameters.\<close> Code outside the repository enters as arguments: \<open>crates\<close>, \<open>session_crates\<close> and \<open>cli_crates\<close>
  (Ed25519, base64url, JSON and the parser of socket addresses), \<open>quinn\<close> and the records that extend it (streams, connections,
  sockets, task spawning), \<open>tls_crates\<close> (certificates and TLS), the directory tree, the allocator, the
  random bytes. What a property needs of them is a named hypothesis (\<open>ed25519_correct\<close>, \<open>base64_roundtrip\<close>,
  \<open>json_injective\<close>, \<open>delivers\<close>, \<open>finish_closes\<close>, \<open>iteration_order\<close>, \<dots>), and its witness instantiates it.

  \<^bold>\<open>Not modelled.\<close> Parsing of the command line (\<^verbatim>\<open>clap\<close>), messages on standard error, the \<^verbatim>\<open>Display\<close> texts of errors,
  poisoning of locks, scheduling of tasks beyond the interleavings above, a tunnel peer that neither sends nor closes, file modes on
  Windows, drawing random bytes (an argument where they are used), plain containers (\<^verbatim>\<open>Relay::new\<close>, \<^verbatim>\<open>RelayError\<close>) and the
  integration tests under \<^verbatim>\<open>tests/\<close>, which run the library over real sockets and directories.
\<close>

section \<open>The parts together\<close>

text \<open>
  C6. The operator's view of the whole: a ticket the operator's key issued for a subject, presented over healthy
  streams before its expiry to a server that verifies with that key and asks a trust store. Whatever
  additions and removals the store has seen, the handshake is decided by the last operation on the
  issuer: if it was an addition, both sides finish with the summary of the claims that were issued;
  if it was a removal or there was none, the server reports an untrusted issuer and the client
  receives nothing.
\<close>

theorem operator_end_to_end:
  assumes crates: "ed25519_correct cr" "base64_roundtrip cr"
    and issued: "issue_ticket cr checks nonce sk (Some sub) url alpn ttl now = Some (Inr t)"
      "is_i64 (now + ttl)" "tm \<le> now + ttl"
    and streams: "delivers qc c_open s_open up down" "delivers qs s_open c_open down up"
      "c_open w0 s" "s_open w0 s" "up w0 s = []" "down w0 s = []"
    and codecs: "ticket_to_vec cr t = Inr bt" "ticket_from_slice cr bt = Inr t"
      "response_to_vec cr (HandshakeResponse_Ok (st_claims t)) = Inr br"
      "response_from_slice cr br = Inr (HandshakeResponse_Ok (st_claims t))"
    and fits: "length bt \<le> isize_max" "alloc (length bt)" "length br \<le> isize_max" "alloc (length br)"
  shows "let issuer = NodeId_from_verifying_key cr (verifying_key cr sk);
             gate = (\<lambda>ops. server_handshake cr alloc qs s (verifying_key cr sk) sub
               (TrustStore_is_trusted (fold trust_exec ops TrustStore_new)) tm)
    in \<exists>w1. client_send cr qc t s w0 = (Some (Inr ()), w1) \<and>
       (\<forall>ops. if registered ops issuer None = None
          then \<exists>w2. gate ops w1 = (Some (Inl (SE_IssuerNotTrusted (NodeId_as_str issuer))), w2) \<and> down w2 s = []
          else \<exists>w2 w3. gate ops w1 = (Some (Inr (summary_of (st_claims t))), w2) \<and>
             client_receive cr alloc qc s w2 = (Some (Inr (summary_of (st_claims t))), w3))"
proof -
  let ?issuer = "NodeId_from_verifying_key cr (verifying_key cr sk)"
  let ?trusted = "\<lambda>ops. TrustStore_is_trusted (fold trust_exec ops TrustStore_new)"
  note c = issue_ticket_claims [OF issued(1)]
  have v: "verify_ticket cr t (verifying_key cr sk) tm = Inr (st_claims t)"
    using issued c(1) by (intro verify_sign_ticket [OF crates c(2)]) (simp_all add: i64_add_exact)
  have who: "tc_issuer (st_claims t) = ?issuer" "tc_subject (st_claims t) = NodeId_from_verifying_key cr sub"
    using c(1) by simp_all
  have no: "admission cr (verifying_key cr sk) sub (?trusted ops) tm bt = Inl (SE_IssuerNotTrusted (NodeId_as_str ?issuer))"
    if "registered ops ?issuer None = None" for ops
    using that codecs(2) v who by (simp add: admission_def trusted_iff_registered)
  have yes: "?trusted ops (tc_issuer (st_claims t))" if "registered ops ?issuer None \<noteq> None" for ops
    using that who by (simp add: trusted_iff_registered)
  note run = handshake_completes [OF streams codecs(1,2) fits v _ who(2) codecs(3,4)]
  have stop: "\<exists>w1 w2. client_send cr qc t s w0 = (Some (Inr ()), w1) \<and>
      server_handshake cr alloc qs s (verifying_key cr sk) sub (?trusted ops) tm w1 =
        (Some (Inl (SE_IssuerNotTrusted (NodeId_as_str ?issuer))), w2) \<and> down w2 s = []"
    if "registered ops ?issuer None = None" for ops
    using handshake_refused [of qc c_open s_open up down qs w0 s cr t bt alloc "verifying_key cr sk" sub "?trusted ops" tm,
        OF streams codecs(1) fits(1,2) no [OF that]] .
  have run': "\<exists>w1 w2 w3. client_send cr qc t s w0 = (Some (Inr ()), w1) \<and>
      server_handshake cr alloc qs s (verifying_key cr sk) sub (?trusted ops) tm w1 = (Some (Inr (summary_of (st_claims t))), w2) \<and>
      client_receive cr alloc qc s w2 = (Some (Inr (summary_of (st_claims t))), w3)"
    if "registered ops ?issuer None \<noteq> None" for ops
    using run [of "?trusted ops"] yes [OF that] by blast
  obtain w1 where w1: "client_send cr qc t s w0 = (Some (Inr ()), w1)"
    using run [of "\<lambda>_. True"] by blast
  show ?thesis
    unfolding Let_def using w1 run' stop by (intro exI [of _ w1]) auto
qed
text \<open>The demonstration ticket of the session theory is one that the code issues.\<close>

lemma demo_session_issue:
  "issue_ticket demo_session True [110] 7 (Some 9) ''quic://relay'' ''/snappipe/0'' 10 10 = Some (Inr demo_ticket)"
proof -
  have f: "verifying_key demo_session = verifying_key demo_crates" "claims_to_json demo_session = claims_to_json demo_crates"
    "sign demo_session = sign demo_crates" "sig_to_bytes demo_session = sig_to_bytes demo_crates"
    "b64_encode_string demo_session = b64_encode_string demo_crates"
    by (simp_all add: demo_session_def crates.defs)
  have c: "verifying_key demo_crates 7 = 7" "b64_encode_string demo_crates [110] = ''n''"
    "claims_to_json demo_crates x = Inr (demo_json x)" for x
    by (simp_all add: demo_crates_def char_of_def bit_0)
  show ?thesis
    by (simp add: issue_ticket_def i64_add_exact i64_simps sign_ticket_def canonical_ticket_payload_def f c Let_def
        demo_ticket_def demo_session_claims_def demo_claims_def TICKET_VERSION_def)
qed

theorem operator_end_to_end_witness:
  "\<exists>w1. client_send demo_session demo_client demo_ticket 0 fresh_pipe = (Some (Inr ()), w1) \<and>
     (\<exists>w2 w3. server_handshake demo_session (\<lambda>_. True) demo_server 0 7 9
        (TrustStore_is_trusted (fold trust_exec
           [AddAt (NodeId_from_verifying_key demo_session 7) (TrustEntry_new ''op'' 5 60)] TrustStore_new)) 15 w1 =
        (Some (Inr (summary_of demo_session_claims)), w2) \<and>
      client_receive demo_session (\<lambda>_. True) demo_client 0 w2 = (Some (Inr (summary_of demo_session_claims)), w3)) \<and>
     (\<exists>w2. server_handshake demo_session (\<lambda>_. True) demo_server 0 7 9 (TrustStore_is_trusted TrustStore_new) 15 w1 =
        (Some (Inl (SE_IssuerNotTrusted (NodeId_as_str (NodeId_from_verifying_key demo_session 7)))), w2) \<and> pipe_down w2 = [])"
proof -
  have crates: "ed25519_correct demo_session" "base64_roundtrip demo_session"
    using demo_ed25519 demo_base64
    by (simp_all add: ed25519_correct_def base64_roundtrip_def demo_session_def crates.defs)
  have r: "is_i64 (10 + 10)" "(15 :: int) \<le> 10 + 10" by (simp_all add: i64_simps)
  have k: "verifying_key demo_session 7 = 7" by (simp add: demo_session_def crates.defs demo_crates_def)
  have cl: "st_claims demo_ticket = demo_session_claims" by (simp add: demo_ticket_def)
  note e2e = operator_end_to_end [OF crates demo_session_issue r demo_client_delivers demo_server_delivers,
    where ?w0.0 = fresh_pipe and s = 0 and bt = "[1, 2, 3]" and br = "[4, 5]" and alloc = "\<lambda>_. True"]
  from e2e obtain w1 where w1: "client_send demo_session demo_client demo_ticket 0 fresh_pipe = (Some (Inr ()), w1)"
    and gate: "\<And>ops. if registered ops (NodeId_from_verifying_key demo_session 7) None = None
          then \<exists>w2. server_handshake demo_session (\<lambda>_. True) demo_server 0 7 9
              (TrustStore_is_trusted (fold trust_exec ops TrustStore_new)) 15 w1 =
            (Some (Inl (SE_IssuerNotTrusted (NodeId_as_str (NodeId_from_verifying_key demo_session 7)))), w2) \<and> pipe_down w2 = []
          else \<exists>w2 w3. server_handshake demo_session (\<lambda>_. True) demo_server 0 7 9
              (TrustStore_is_trusted (fold trust_exec ops TrustStore_new)) 15 w1 = (Some (Inr (summary_of demo_session_claims)), w2) \<and>
             client_receive demo_session (\<lambda>_. True) demo_client 0 w2 = (Some (Inr (summary_of demo_session_claims)), w3)"
    by (simp only: k cl Let_def) (auto simp: fresh_pipe_def isize_max_def)
  show ?thesis
    using w1 gate [of "[]"] gate [of "[AddAt (NodeId_from_verifying_key demo_session 7) (TrustEntry_new ''op'' 5 60)]"]
    by (intro exI [of _ w1]) simp
qed

section \<open>The tunnel command and its connections\<close>

text \<open>
  C7. What \<^verbatim>\<open>snappipe tunnel serve\<close> guards: for every server it sets up, no trust store was given, and with the
  issuer and subject keys decoded from the two key files, each connection either presented on its first stream a
  ticket that verifies under the issuer key at that time and names the subject, or its task
  ends and no bridge to the target is ever started, whatever starting one would do.
\<close>

theorem cli_tunnel_gate:
  assumes su: "tunnel_serve_setup cr tls args cw = (Some (Inr su), cw')"
  shows "ts_trust_store args = None \<and>
    (\<exists>issuer_text issuer subject_text subject.
       fs_read_to_string (cw_fs cw) (ts_issuer_public_key args) = Inr issuer_text \<and>
       decode_public_key cr (trim issuer_text) = Inr issuer \<and>
       fs_read_to_string (cw_fs cw) (ts_public_key args) = Inr subject_text \<and>
       decode_public_key cr (trim subject_text) = Inr subject \<and>
       ((\<exists>s w1 t w2 now body w3 ticket c. q_accept_bi ops w = (Inr s, w1) \<and> lo_now ops w1 = (t, w2) \<and>
           now_unix_seconds t = Some now \<and> read_frame alloc (quinn.truncate ops) s w2 = (Some (Inr body), w3) \<and>
           ticket_from_slice cr body = Inr ticket \<and> verify_ticket cr ticket issuer now = Inr c \<and>
           tc_subject c = NodeId_from_verifying_key cr subject) \<or>
        (\<exists>r. \<forall>spawn. handle_tunnel_connection cr alloc (ops\<lparr>to_spawn_bridge := spawn\<rparr>) (ss_target su) (ss_trust su)
           (ss_issuer su) (ss_subject su) w = Some r)))"
proof -
  from su have "ts_trust_store args = None"
    and keys: "\<exists>raw. fs_read_to_string (cw_fs cw) (ts_issuer_public_key args) = Inr raw \<and>
        decode_public_key cr (trim raw) = Inr (ss_issuer su)"
      "\<exists>raw. fs_read_to_string (cw_fs cw) (ts_public_key args) = Inr raw \<and>
        decode_public_key cr (trim raw) = Inr (ss_subject su)"
    by (auto simp: tunnel_serve_setup_def io_bind_eq_Inr read_text_def io_call_eq_Inr split: option.splits)
  then show ?thesis
    using tunnel_gate [of ops w alloc cr "ss_issuer su" "ss_subject su" "ss_trust su" "ss_target su"]
    unfolding admission_Inr_iff by blast
qed

text \<open>The crates of the witness decode no ticket, so that its server starts no bridge.\<close>

theorem cli_tunnel_gate_witness:
  "\<exists>su. tunnel_serve_setup demo_cli demo_tls demo_serve_args demo_keys = (Some (Inr su), demo_keys) \<and>
     (\<forall>(ops :: pipe tunnel_ops) alloc. \<exists>r. \<forall>spawn.
        handle_tunnel_connection demo_cli alloc (ops\<lparr>to_spawn_bridge := spawn\<rparr>) (ss_target su) (ss_trust su)
          (ss_issuer su) (ss_subject su) demo_wire = Some r)"
proof -
  have none: "ticket_from_slice demo_cli body \<noteq> Inr t" for body t by (simp add: demo_cli_def crates.defs)
  obtain su where su: "tunnel_serve_setup demo_cli demo_tls demo_serve_args demo_keys = (Some (Inr su), demo_keys)"
    using demo_serve_setup by blast
  have "\<exists>r. \<forall>spawn. handle_tunnel_connection demo_cli alloc (ops\<lparr>to_spawn_bridge := spawn\<rparr>) (ss_target su) (ss_trust su)
      (ss_issuer su) (ss_subject su) demo_wire = Some r" for ops :: "pipe tunnel_ops" and alloc
    using cli_tunnel_gate [OF su, of ops demo_wire alloc] none by blast
  with su show ?thesis by blast
qed

end
